(* ===== verification/Sdk_Prelude.thy ===== *)
theory Sdk_Prelude
  imports Main "HOL-Library.Word" "HOL-Library.AList"
begin

text \<open>
  Shared vocabulary of the development: the outcome of running a Rust function (a value, a
  panic, an access to memory that is not allocated, or a loop that does not return within its
  fuel), the fixed-width integers the sources use with their saturating operations, and the
  generic lemmas on lists, association lists and words the component theories rest on.
\<close>

section \<open>Outcomes of a Rust computation\<close>

text \<open>
  A Rust \<open>Result\<close> is a value of the sum type \<open>'e + 'a\<close> inside \<open>Done\<close>: returning \<open>Err\<close> is an
  ordinary return, after which the mutated state is still visible to the caller. \<open>Panic\<close> is an
  \<open>unwrap\<close>, \<open>expect\<close>, \<open>panic!\<close>, out-of-range index or checked overflow; \<open>Ub\<close> is the
  dereference of a pointer whose allocation is not live; \<open>Stuck\<close> is a loop or recursion that has
  not returned when its fuel is spent.
\<close>

datatype 'a run = Done 'a | Panic | Ub | Stuck

primrec run_bind :: "'a run \<Rightarrow> ('a \<Rightarrow> 'b run) \<Rightarrow> 'b run" where
  "run_bind (Done x) f = f x"
| "run_bind Panic f = Panic"
| "run_bind Ub f = Ub"
| "run_bind Stuck f = Stuck"

primrec run_of_option :: "'a option \<Rightarrow> 'a run" where
  "run_of_option None = Panic"
| "run_of_option (Some x) = Done x"

named_theorems run_simps \<open>evaluation of outcomes\<close>

lemma run_bind_Done_iff [simp]: "run_bind m f = Done y \<longleftrightarrow> (\<exists>x. m = Done x \<and> f x = Done y)"
  by (cases m) auto

lemma run_bind_assoc [run_simps]: "run_bind (run_bind m f) g = run_bind m (\<lambda>x. run_bind (f x) g)"
  by (cases m) auto

lemma run_bind_right_unit [simp]: "run_bind m Done = m"
  by (cases m) auto

lemma run_bind_cong [fundef_cong]:
  "m = m' \<Longrightarrow> (\<And>x. m' = Done x \<Longrightarrow> f x = f' x) \<Longrightarrow> run_bind m f = run_bind m' f'"
  by (cases m') auto

lemma run_of_option_Done [simp]: "run_of_option v = Done x \<longleftrightarrow> v = Some x"
  by (cases v) auto

section \<open>Machine integers\<close>

type_synonym u8 = "8 word"
type_synonym u32 = "32 word"
type_synonym u64 = "64 word"
type_synonym bytes = "u8 list"

text \<open>Rust's \<open>saturating_add\<close> and \<open>saturating_sub\<close> on unsigned words.\<close>

definition saturating_add :: "'w::len word \<Rightarrow> 'w word \<Rightarrow> 'w word" where
  "saturating_add a b = (if a \<le> a + b then a + b else - 1)"

definition saturating_sub :: "'w::len word \<Rightarrow> 'w word \<Rightarrow> 'w word" where
  "saturating_sub a b = (if b \<le> a then a - b else 0)"

lemma unat_saturating_sub [simp]: "unat (saturating_sub a b) = unat a - unat b"
  by (simp add: saturating_sub_def unat_sub word_le_nat_alt)

lemma unat_max_word: "unat (- 1 :: 'w::len word) = 2 ^ LENGTH('w) - 1"
  by (simp add: unsigned_minus_1_eq_mask mask_eq_exp_minus_1)

lemma unat_saturating_add:
  fixes a b :: "'w::len word"
  shows "unat (saturating_add a b) = min (unat a + unat b) (2 ^ LENGTH('w) - 1)"
proof (cases "unat a + unat b < 2 ^ LENGTH('w)")
  case True
  then have "a \<le> a + b" by (simp add: word_le_nat_alt unat_word_ariths)
  with True show ?thesis by (simp add: saturating_add_def unat_word_ariths)
next
  case False
  let ?m = "2 ^ LENGTH('w) :: nat"
  have bounds: "unat a < ?m" "unat b < ?m" by (rule unsigned_less)+
  have "(unat a + unat b) mod ?m = (unat a + unat b - ?m) mod ?m"
    using False by (intro le_mod_geq) simp
  also have "\<dots> = unat a + unat b - ?m" using bounds by (intro mod_less) linarith
  also have "\<dots> < unat a" using bounds False by linarith
  finally have "\<not> a \<le> a + b" by (simp add: word_le_nat_alt unat_word_ariths)
  moreover have "min (unat a + unat b) (?m - 1) = ?m - 1"
    using False by (intro min_absorb2) linarith
  ultimately show ?thesis by (simp add: saturating_add_def unat_max_word)
qed

lemma unat_plus_one_word:
  fixes a :: "'w::len word"
  assumes "a \<noteq> - 1"
  shows "unat (a + 1) = Suc (unat a)"
proof -
  have "unat a \<noteq> 2 ^ LENGTH('w) - 1"
    using assms by (metis unat_max_word word_unat_eq_iff)
  moreover have "unat a < 2 ^ LENGTH('w)" by (rule unsigned_less)
  ultimately have "Suc (unat a) < 2 ^ LENGTH('w)" by linarith
  then show ?thesis by (simp add: unat_word_ariths)
qed

lemma not_max_word_if_unat: "unat (a :: 'w::len word) + n < 2 ^ LENGTH('w) \<Longrightarrow> 0 < n \<Longrightarrow> a \<noteq> - 1"
  by (auto simp: unat_max_word)

section \<open>Lists\<close>

lemma find_SomeD: "List.find P xs = Some x \<Longrightarrow> x \<in> set xs \<and> P x"
  by (induction xs) (auto split: if_splits)

lemma append_Cons_key_eq:
  assumes "xs @ a # ys = us @ b # vs" and "f a = f b" and "distinct (map f (xs @ a # ys))"
  shows "xs = us \<and> a = b \<and> ys = vs"
  using assms
proof (induction xs arbitrary: us)
  case Nil
  then show ?case by (cases us) auto
next
  case (Cons x xs)
  from Cons.prems show ?case
  proof (cases us)
    case Nil
    with Cons.prems show ?thesis by auto
  next
    case (Cons u us')
    with Cons.prems Cons.IH [of us'] show ?thesis by simp
  qed
qed

lemma append_Cons_eq_distinct:
  assumes "xs @ a # ys = us @ a # vs" and "distinct (xs @ a # ys)"
  shows "xs = us \<and> ys = vs"
  using assms
proof (induction xs arbitrary: us)
  case Nil
  then show ?case by (cases us) auto
next
  case (Cons x xs)
  then show ?case by (cases us) auto
qed

lemma set_AList_update_subset: "set (AList.update k v xs) \<subseteq> insert (k, v) (set xs)"
  by (induction xs) auto

lemma length_le_if_distinct_below:
  fixes xs :: "nat list"
  assumes "distinct xs" and "\<And>x. x \<in> set xs \<Longrightarrow> x < n"
  shows "length xs \<le> n"
proof -
  have "length xs = card (set xs)" using assms(1) by (simp add: distinct_card)
  also have "\<dots> \<le> card {..<n}" using assms(2) by (intro card_mono) auto
  finally show ?thesis by simp
qed

end
