(* ===== verification/Update_Log.thy ===== *)
theory Update_Log
  imports Sdk_Prelude
begin

text \<open>
  The update history of a linked chunk: the \<open>Update\<close> events, and \<open>UpdatesInner\<close>, a buffer of
  updates that several readers consume independently and that is garbage collected once every
  reader has passed an update (\<open>linked_chunk/updates.rs\<close>). Also the chunk identifiers and positions
  (\<open>linked_chunk/mod.rs\<close>) the updates mention. \<open>Arc\<close>, \<open>Weak\<close> and \<open>RwLock\<close> only share the buffer:
  here it is passed as state, and a dropped buffer is \<open>None\<close>. Index and token types (\<open>usize\<close>) count
  objects in memory and are natural numbers.
\<close>

section \<open>Identifiers, positions and updates\<close>

type_synonym chunk_id = u64

datatype position = Position (position_chunk: chunk_id) (position_index: nat)

definition decrement_index :: "position \<Rightarrow> position run" where
  "decrement_index p =
     (if position_index p = 0 then Panic
      else Done (Position (position_chunk p) (position_index p - 1)))"

datatype ('i, 'g) update =
    NewItemsChunk "chunk_id option" chunk_id "chunk_id option"
  | NewGapChunk "chunk_id option" chunk_id "chunk_id option" 'g
  | RemoveChunk chunk_id
  | PushItems position "'i list"
  | RemoveItem position
  | DetachLastItems position
  | StartReattachItems
  | EndReattachItems

section \<open>The buffer and its readers\<close>

text \<open>
  \<open>last_index_per_reader\<close> is a hash map from reader tokens to the index of the first update the
  reader has not taken: an association list with distinct keys. A waker is a task identifier;
  \<open>woken\<close> records the tasks woken so far, oldest first, which is the only effect of \<open>Waker::wake\<close>.
\<close>

type_synonym reader_token = nat
type_synonym waker = nat

record ('i, 'g) updates_inner =
  updates :: "('i, 'g) update list"
  last_index_per_reader :: "(reader_token \<times> nat) list"
  last_token :: reader_token
  wakers :: "waker list"
  woken :: "waker list"

definition MAIN_READER_TOKEN :: reader_token where
  "MAIN_READER_TOKEN = 0"

definition updates_new :: "('i, 'g) updates_inner" where
  "updates_new =
     \<lparr>updates = [], last_index_per_reader = [(MAIN_READER_TOKEN, 0)],
      last_token = MAIN_READER_TOKEN, wakers = [], woken = []\<rparr>"

definition updates_push :: "('i, 'g) update \<Rightarrow> ('i, 'g) updates_inner \<Rightarrow> ('i, 'g) updates_inner" where
  "updates_push u l =
     l\<lparr>updates := updates l @ [u], woken := woken l @ wakers l, wakers := []\<rparr>"

definition updates_len :: "('i, 'g) updates_inner \<Rightarrow> nat" where
  "updates_len l = length (updates l)"

definition min_index :: "('i, 'g) updates_inner \<Rightarrow> nat" where
  "min_index l = (case map snd (last_index_per_reader l) of [] \<Rightarrow> 0 | v # vs \<Rightarrow> fold min vs v)"

definition garbage_collect :: "('i, 'g) updates_inner \<Rightarrow> ('i, 'g) updates_inner run" where
  "garbage_collect l =
     (let m = min_index l in
      if 0 < m then
        (if length (updates l) < m then Panic
         else Done (l\<lparr>updates := drop m (updates l),
                      last_index_per_reader :=
                        map (\<lambda>(t, i). (t, i - m)) (last_index_per_reader l)\<rparr>))
      else Done l)"

definition take_with_token ::
  "reader_token \<Rightarrow> ('i, 'g) updates_inner \<Rightarrow> (('i, 'g) update list \<times> ('i, 'g) updates_inner) run" where
  "take_with_token t l =
     run_bind (garbage_collect l) (\<lambda>l.
     run_bind (run_of_option (map_of (last_index_per_reader l) t)) (\<lambda>index.
     if length (updates l) < index then Panic
     else Done (drop index (updates l),
                l\<lparr>last_index_per_reader :=
                    AList.update t (length (updates l)) (last_index_per_reader l)\<rparr>)))"

definition updates_take ::
  "('i, 'g) updates_inner \<Rightarrow> (('i, 'g) update list \<times> ('i, 'g) updates_inner) run" where
  "updates_take l = take_with_token MAIN_READER_TOKEN l"

definition new_reader_token :: "('i, 'g) updates_inner \<Rightarrow> reader_token \<times> ('i, 'g) updates_inner" where
  "new_reader_token l =
     (let t = last_token l + 1 in
      (t, l\<lparr>last_token := t,
            last_index_per_reader := AList.update t 0 (last_index_per_reader l)\<rparr>))"

subsection \<open>Subscribers\<close>

text \<open>
  A subscriber is its token and a weak reference to the buffer; \<open>None\<close> is a buffer that has been
  dropped. \<open>poll_next\<close> gets the waker of the polling task.
\<close>

datatype ('i, 'g) poll = Ready "('i, 'g) update list option" | Pending

definition subscribe :: "('i, 'g) updates_inner \<Rightarrow> reader_token \<times> ('i, 'g) updates_inner" where
  "subscribe l = new_reader_token l"

definition poll_next ::
  "waker \<Rightarrow> reader_token \<Rightarrow> ('i, 'g) updates_inner option
   \<Rightarrow> (('i, 'g) poll \<times> ('i, 'g) updates_inner option) run" where
  "poll_next w t shared =
     (case shared of
        None \<Rightarrow> Done (Ready None, None)
      | Some l \<Rightarrow>
          run_bind (take_with_token t l) (\<lambda>(us, l).
          if us = [] then Done (Pending, Some (l\<lparr>wakers := wakers l @ [w]\<rparr>))
          else Done (Ready (Some us), Some l)))"

definition drop_subscriber ::
  "reader_token \<Rightarrow> ('i, 'g) updates_inner option \<Rightarrow> ('i, 'g) updates_inner option" where
  "drop_subscriber t shared =
     map_option (\<lambda>l. l\<lparr>last_index_per_reader := AList.delete t (last_index_per_reader l)\<rparr>) shared"

section \<open>Invariant and unread updates\<close>

definition updates_wf :: "('i, 'g) updates_inner \<Rightarrow> bool" where
  "updates_wf l \<longleftrightarrow>
     distinct (map fst (last_index_per_reader l)) \<and>
     (\<forall>(t, i) \<in> set (last_index_per_reader l). t \<le> last_token l \<and> i \<le> length (updates l))"

definition unread :: "('i, 'g) updates_inner \<Rightarrow> reader_token \<Rightarrow> ('i, 'g) update list option" where
  "unread l t = map_option (\<lambda>i. drop i (updates l)) (map_of (last_index_per_reader l) t)"

lemma fold_min_le: "fold min vs (v::nat) \<le> v \<and> (\<forall>x \<in> set vs. fold min vs v \<le> x)"
proof (induction vs arbitrary: v)
  case (Cons x vs)
  from Cons [of "min x v"] show ?case by (auto simp: min.coboundedI1)
qed simp

lemma min_index_le: "(t, i) \<in> set (last_index_per_reader l) \<Longrightarrow> min_index l \<le> i"
  using fold_min_le by (force simp: min_index_def split: list.splits)

lemma min_index_zero: "last_index_per_reader l = [] \<Longrightarrow> min_index l = 0"
  by (simp add: min_index_def)

lemma min_index_le_length: "updates_wf l \<Longrightarrow> min_index l \<le> length (updates l)"
proof (cases "last_index_per_reader l")
  case (Cons p ps)
  assume "updates_wf l"
  with Cons min_index_le [of "fst p" "snd p" l] show ?thesis
    by (cases p) (auto simp: updates_wf_def)
qed (simp add: min_index_zero)

lemma map_of_shift: "map_of (map (\<lambda>(t, i). (t, i - m)) xs) t = map_option (\<lambda>i. i - m) (map_of xs t)"
  by (induction xs) auto

text \<open>Collecting garbage never changes what a reader has left to read.\<close>

lemma garbage_collect_unread:
  assumes wf: "updates_wf l"
  obtains l' where "garbage_collect l = Done l'" "updates_wf l'" "unread l' = unread l"
    "dom (map_of (last_index_per_reader l')) = dom (map_of (last_index_per_reader l))"
    "last_token l' = last_token l" "wakers l' = wakers l" "woken l' = woken l"
proof (cases "0 < min_index l")
  case False
  then have "garbage_collect l = Done l" by (simp add: garbage_collect_def)
  with that wf show thesis by blast
next
  case True
  let ?m = "min_index l"
  let ?l = "l\<lparr>updates := drop ?m (updates l),
      last_index_per_reader := map (\<lambda>(t, i). (t, i - ?m)) (last_index_per_reader l)\<rparr>"
  have gc: "garbage_collect l = Done ?l"
    using True min_index_le_length [OF wf] by (simp add: garbage_collect_def Let_def)
  have keys: "map fst (map (\<lambda>(t, i). (t, i - ?m)) xs) = map fst xs" for xs :: "(nat \<times> nat) list"
    by (induction xs) auto
  have "\<forall>(t, i) \<in> set (last_index_per_reader l). t \<le> last_token l \<and> i - ?m \<le> length (updates l) - ?m"
    using wf by (auto simp: updates_wf_def intro: diff_le_mono)
  then have wf': "updates_wf ?l"
    using wf by (auto simp: updates_wf_def keys simp del: map_map)
  have "unread ?l t = unread l t" for t
  proof (cases "map_of (last_index_per_reader l) t")
    case (Some i)
    then have "?m \<le> i" by (metis map_of_SomeD min_index_le)
    with Some show ?thesis by (simp add: unread_def map_of_shift)
  qed (simp add: unread_def map_of_shift)
  then have "unread ?l = unread l" by (rule ext)
  moreover have "dom (map_of (last_index_per_reader ?l)) = dom (map_of (last_index_per_reader l))"
    by (auto simp: dom_def map_of_shift)
  ultimately show thesis using that [OF gc wf'] by simp
qed

lemma unread_None_iff: "unread l t = None \<longleftrightarrow> t \<notin> dom (map_of (last_index_per_reader l))"
  by (auto simp: unread_def)

lemma updates_wf_set_index:
  assumes "updates_wf l" "t \<le> last_token l" "i \<le> length (updates l)"
  shows "updates_wf (l\<lparr>last_index_per_reader := AList.update t i (last_index_per_reader l)\<rparr>)"
proof -
  have "distinct (map fst (AList.update t i (last_index_per_reader l)))"
    using assms(1) by (auto simp: updates_wf_def intro: distinct_update)
  with assms set_AList_update_subset [of t i "last_index_per_reader l"] show ?thesis
    by (fastforce simp: updates_wf_def)
qed

lemma take_with_token_unread:
  assumes wf: "updates_wf l" and us: "unread l t = Some us"
  obtains l' where "take_with_token t l = Done (us, l')" "updates_wf l'" "unread l' t = Some []"
    "\<And>t'. t' \<noteq> t \<Longrightarrow> unread l' t' = unread l t'"
    "last_token l' = last_token l" "wakers l' = wakers l" "woken l' = woken l"
proof -
  obtain g where g: "garbage_collect l = Done g" "updates_wf g" "unread g = unread l"
    "last_token g = last_token l" "wakers g = wakers l" "woken g = woken l"
    by (rule garbage_collect_unread [OF wf])
  let ?l = "g\<lparr>last_index_per_reader := AList.update t (length (updates g)) (last_index_per_reader g)\<rparr>"
  from us g(3) have "unread g t = Some us" by simp
  then obtain i where i: "map_of (last_index_per_reader g) t = Some i"
    and us': "us = drop i (updates g)"
    by (auto simp: unread_def)
  from i have "(t, i) \<in> set (last_index_per_reader g)" by (rule map_of_SomeD)
  with g(2) have bounds: "t \<le> last_token g" "i \<le> length (updates g)"
    by (auto simp: updates_wf_def)
  have "take_with_token t l = Done (us, ?l)"
    using g(1) i us' bounds(2) by (simp add: take_with_token_def)
  moreover have "updates_wf ?l" using g(2) bounds(1) by (rule updates_wf_set_index) simp
  moreover have "unread ?l t = Some []" by (simp add: unread_def update_conv')
  moreover have "unread ?l t' = unread l t'" if "t' \<noteq> t" for t'
    using that g(3) [THEN fun_cong, of t'] by (simp add: unread_def update_conv')
  ultimately show thesis using that g by simp
qed

lemma take_with_token_unknown:
  assumes wf: "updates_wf l" and "unread l t = None"
  shows "take_with_token t l = Panic"
proof -
  obtain g where g: "garbage_collect l = Done g" "unread g = unread l"
    by (rule garbage_collect_unread [OF wf])
  with assms(2) have "map_of (last_index_per_reader g) t = None"
    by (metis option.map_disc_iff unread_def)
  with g(1) show ?thesis by (simp add: take_with_token_def)
qed

lemma updates_push_wf: "updates_wf l \<Longrightarrow> updates_wf (updates_push u l)"
  by (auto simp: updates_wf_def updates_push_def)

lemma updates_push_unread:
  assumes "updates_wf l"
  shows "unread (updates_push u l) t = map_option (\<lambda>us. us @ [u]) (unread l t)"
proof (cases "map_of (last_index_per_reader l) t")
  case (Some i)
  then have "i \<le> length (updates l)" using assms map_of_SomeD by (fastforce simp: updates_wf_def)
  with Some show ?thesis by (simp add: unread_def updates_push_def)
qed (simp add: unread_def updates_push_def)

lemma updates_new_wf [simp]: "updates_wf updates_new"
  by (simp add: updates_wf_def updates_new_def)

section \<open>The contract of a multi-reader log\<close>

text \<open>
  What the producers (\<open>LinkedChunk\<close>) and the consumers (\<open>AsVector\<close>, subscribers) rely on: pushing
  makes an update unread for every reader, taking returns exactly the unread updates of one
  reader and leaves the other readers alone.
\<close>

datatype ('t, 'u) log_event = Pushed 'u | Taken 't

fun log_trace ::
  "('u \<Rightarrow> 'l \<Rightarrow> 'l) \<Rightarrow> ('t \<Rightarrow> 'l \<Rightarrow> ('u list \<times> 'l) run) \<Rightarrow> ('t, 'u) log_event list \<Rightarrow> 'l
   \<Rightarrow> (('t \<times> 'u list) list \<times> 'l) run" where
  "log_trace push tak [] l = Done ([], l)"
| "log_trace push tak (Pushed u # es) l = log_trace push tak es (push u l)"
| "log_trace push tak (Taken t # es) l =
     run_bind (tak t l) (\<lambda>(us, l).
     run_bind (log_trace push tak es l) (\<lambda>(ds, l). Done ((t, us) # ds, l)))"

fun pushed_updates :: "('t, 'u) log_event list \<Rightarrow> 'u list" where
  "pushed_updates [] = []"
| "pushed_updates (Pushed u # es) = u # pushed_updates es"
| "pushed_updates (Taken t # es) = pushed_updates es"

definition delivered :: "'t \<Rightarrow> ('t \<times> 'u list) list \<Rightarrow> 'u list" where
  "delivered t ds = concat (map snd (filter (\<lambda>d. fst d = t) ds))"

lemma delivered_Nil [simp]: "delivered t [] = []"
  by (simp add: delivered_def)

lemma delivered_Cons [simp]: "delivered t ((t', us) # ds) = (if t' = t then us else []) @ delivered t ds"
  by (simp add: delivered_def)

locale reader_log =
  fixes invar :: "'l \<Rightarrow> bool"
    and unr :: "'l \<Rightarrow> 't \<Rightarrow> 'u list option"
    and push :: "'u \<Rightarrow> 'l \<Rightarrow> 'l"
    and tak :: "'t \<Rightarrow> 'l \<Rightarrow> ('u list \<times> 'l) run"
  assumes push_invar: "invar l \<Longrightarrow> invar (push u l)"
    and push_unread: "invar l \<Longrightarrow> unr (push u l) t = map_option (\<lambda>us. us @ [u]) (unr l t)"
    and tak_unread: "invar l \<Longrightarrow> unr l t = Some us \<Longrightarrow>
      \<exists>l'. tak t l = Done (us, l') \<and> invar l' \<and> unr l' t = Some [] \<and> (\<forall>t'. t' \<noteq> t \<longrightarrow> unr l' t' = unr l t')"
begin

lemma pushes_unread:
  "invar l \<Longrightarrow> invar (fold push us l) \<and> unr (fold push us l) t = map_option (\<lambda>vs. vs @ us) (unr l t)"
proof (induction us arbitrary: l)
  case (Cons u us)
  from Cons.IH [OF push_invar [OF Cons.prems, of u]] show ?case
    by (simp add: push_unread [OF Cons.prems] option.map_comp comp_def)
qed (simp add: option.map_ident)

lemma exactly_once:
  assumes "invar l" and "\<forall>t. Taken t \<in> set es \<longrightarrow> unr l t \<noteq> None"
  shows "\<exists>ds l'. log_trace push tak es l = Done (ds, l') \<and> invar l' \<and>
    (\<forall>t us. unr l t = Some us \<longrightarrow>
      (\<exists>rest. unr l' t = Some rest \<and> delivered t ds @ rest = us @ pushed_updates es))"
  using assms
proof (induction es arbitrary: l)
  case (Cons e es)
  show ?case
  proof (cases e)
    case (Pushed u)
    have "invar (push u l)" by (rule push_invar [OF Cons.prems(1)])
    moreover have "\<forall>t. Taken t \<in> set es \<longrightarrow> unr (push u l) t \<noteq> None"
      using Cons.prems by (simp add: push_unread)
    ultimately obtain ds l' where run: "log_trace push tak es (push u l) = Done (ds, l')" "invar l'"
      and dl: "\<And>t us. unr (push u l) t = Some us \<Longrightarrow>
        \<exists>rest. unr l' t = Some rest \<and> delivered t ds @ rest = us @ pushed_updates es"
      using Cons.IH by blast
    have "\<exists>rest. unr l' t = Some rest \<and> delivered t ds @ rest = us @ u # pushed_updates es"
      if "unr l t = Some us" for t us
      using that dl [of t "us @ [u]"] by (simp add: push_unread Cons.prems(1))
    with run Pushed show ?thesis by simp
  next
    case (Taken t)
    then obtain us where us: "unr l t = Some us" using Cons.prems(2) by auto
    obtain m where m: "tak t l = Done (us, m)" "invar m" "unr m t = Some []"
      "\<And>t'. t' \<noteq> t \<Longrightarrow> unr m t' = unr l t'"
      using tak_unread [OF Cons.prems(1) us] by blast
    have "\<forall>t'. Taken t' \<in> set es \<longrightarrow> unr m t' \<noteq> None"
      using Cons.prems(2) m(3,4) by (metis list.set_intros(2) option.distinct(1))
    then obtain ds l' where run: "log_trace push tak es m = Done (ds, l')" "invar l'"
      and dl: "\<And>t us. unr m t = Some us \<Longrightarrow>
        \<exists>rest. unr l' t = Some rest \<and> delivered t ds @ rest = us @ pushed_updates es"
      using Cons.IH [OF m(2)] by blast
    have "\<exists>rest. unr l' t' = Some rest \<and> delivered t' ((t, us) # ds) @ rest = vs @ pushed_updates es"
      if "unr l t' = Some vs" for t' vs
      using that us dl [of t' "if t' = t then [] else vs"] m(3,4) by (cases "t' = t") auto
    with run Taken m(1) show ?thesis by simp
  qed
qed (simp add: option.map_ident)

end

interpretation updates_log: reader_log updates_wf unread updates_push take_with_token
proof unfold_locales
  show "updates_wf l \<Longrightarrow> updates_wf (updates_push u l)" for l :: "('a, 'b) updates_inner" and u
    by (rule updates_push_wf)
  show "updates_wf l \<Longrightarrow> unread (updates_push u l) t = map_option (\<lambda>us. us @ [u]) (unread l t)"
    for l :: "('a, 'b) updates_inner" and u t
    by (rule updates_push_unread)
  show "\<exists>l'. take_with_token t l = Done (us, l') \<and> updates_wf l' \<and> unread l' t = Some [] \<and>
      (\<forall>t'. t' \<noteq> t \<longrightarrow> unread l' t' = unread l t')"
    if "updates_wf l" "unread l t = Some us" for l :: "('a, 'b) updates_inner" and t us
    using take_with_token_unread [OF that] by metis
qed

section \<open>Readers and garbage collection\<close>

lemma fold_min_in: "fold min vs (v::nat) \<in> insert v (set vs)"
proof (induction vs arbitrary: v)
  case (Cons x vs)
  from Cons [of "min x v"] show ?case by (auto simp: min_def split: if_splits)
qed simp

lemma min_index_in:
  "last_index_per_reader l \<noteq> [] \<Longrightarrow> \<exists>t. (t, min_index l) \<in> set (last_index_per_reader l)"
  using fold_min_in by (cases "last_index_per_reader l") (fastforce simp: min_index_def)+

text \<open>A new reader gets a token no reader holds, the buffer stays well formed, and no other
  reader is affected.\<close>

theorem new_reader_token_fresh:
  assumes "updates_wf l" and "new_reader_token l = (t, l')"
  shows "unread l t = None \<and> updates_wf l' \<and> unread l' t = Some (updates l) \<and>
    (\<forall>t'. t' \<noteq> t \<longrightarrow> unread l' t' = unread l t')"
proof -
  from assms(2) have t: "t = last_token l + 1"
    and l': "l' = l\<lparr>last_token := t, last_index_per_reader := AList.update t 0 (last_index_per_reader l)\<rparr>"
    by (auto simp: new_reader_token_def Let_def)
  have "map_of (last_index_per_reader l) t = None"
    using assms(1) t by (force simp: updates_wf_def map_of_eq_None_iff)
  moreover have "updates_wf (l\<lparr>last_token := t\<rparr>)" using assms(1) t by (fastforce simp: updates_wf_def)
  then have "updates_wf l'" using updates_wf_set_index [of "l\<lparr>last_token := t\<rparr>" t 0] l' by simp
  ultimately show ?thesis using l' by (simp add: unread_def update_conv')
qed

theorem new_reader_token_fresh_witness:
  "unread (updates_new :: (nat, nat) updates_inner) 1 = None \<and>
   unread (snd (new_reader_token (updates_new :: (nat, nat) updates_inner))) 0 = unread (updates_new :: (nat, nat) updates_inner) 0"
  using new_reader_token_fresh [OF updates_new_wf, where t = 1 and
      l' = "snd (new_reader_token (updates_new :: (nat, nat) updates_inner))"]
  by (simp add: new_reader_token_def updates_new_def Let_def MAIN_READER_TOKEN_def)

text \<open>C26. Every reader of the update history receives every update exactly once and in order: over
  any interleaving of pushes and takes by registered readers, no take panics, and what a reader has
  been given followed by what it has left is what it had left at the start followed by all the
  updates pushed meanwhile. Garbage collection happens inside each take.\<close>

theorem updates_delivered_exactly_once:
  assumes "updates_wf l" and "\<forall>t. Taken t \<in> set es \<longrightarrow> unread l t \<noteq> None"
  shows "\<exists>ds l'. log_trace updates_push take_with_token es l = Done (ds, l') \<and> updates_wf l' \<and>
    (\<forall>t us. unread l t = Some us \<longrightarrow>
      (\<exists>rest. unread l' t = Some rest \<and> delivered t ds @ rest = us @ pushed_updates es))"
  using assms by (rule updates_log.exactly_once)

theorem updates_delivered_exactly_once_witness:
  "\<exists>ds l'. log_trace updates_push take_with_token
      [Pushed StartReattachItems, Taken 0, Pushed EndReattachItems, Taken 0]
      (updates_new :: (nat, nat) updates_inner) = Done (ds, l') \<and>
    (\<exists>rest. unread l' 0 = Some rest \<and> delivered 0 ds @ rest = [StartReattachItems, EndReattachItems])"
proof -
  have u: "unread (updates_new :: (nat, nat) updates_inner) 0 = Some []"
    by (simp add: unread_def updates_new_def MAIN_READER_TOKEN_def)
  show ?thesis
    using updates_delivered_exactly_once [OF updates_new_wf, where es =
        "[Pushed StartReattachItems, Taken 0, Pushed EndReattachItems, Taken 0 :: (nat, (nat, nat) update) log_event]"]
      u by fastforce
qed

text \<open>C28. Garbage collection keeps nothing that every reader has taken: afterwards some reader has the
  whole buffer left to read, and no reader's unread updates have changed.\<close>

theorem garbage_collect_minimal:
  assumes "updates_wf l" and "last_index_per_reader l \<noteq> []"
  shows "\<exists>l' t. garbage_collect l = Done l' \<and> unread l' = unread l \<and> unread l' t = Some (updates l')"
proof (cases "0 < min_index l")
  case False
  obtain t where "(t, 0) \<in> set (last_index_per_reader l)" using min_index_in [OF assms(2)] False by auto
  with assms(1) have "map_of (last_index_per_reader l) t = Some 0" by (simp add: updates_wf_def)
  then have "unread l t = Some (updates l)" by (simp add: unread_def)
  with False show ?thesis by (auto simp: garbage_collect_def Let_def)
next
  case True
  obtain l' where l': "garbage_collect l = Done l'" "unread l' = unread l"
    by (rule garbage_collect_unread [OF assms(1)])
  obtain t where "(t, min_index l) \<in> set (last_index_per_reader l)" using min_index_in [OF assms(2)] by auto
  with assms(1) have "map_of (last_index_per_reader l) t = Some (min_index l)"
    by (simp add: updates_wf_def)
  moreover have "updates l' = drop (min_index l) (updates l)"
    using l'(1) True by (auto simp: garbage_collect_def Let_def split: if_splits)
  ultimately have "unread l' t = Some (updates l')" using l'(2) by (simp add: unread_def)
  with l' show ?thesis by blast
qed

theorem garbage_collect_minimal_witness:
  "\<exists>l' t. garbage_collect (updates_new :: (nat, nat) updates_inner) = Done l' \<and>
     unread l' = unread (updates_new :: (nat, nat) updates_inner) \<and> unread l' t = Some (updates l')"
  by (rule garbage_collect_minimal [OF updates_new_wf]) (simp add: updates_new_def)

text \<open>C29. A subscriber that is told to wait is woken by the next update and then receives exactly that
  update.\<close>

theorem pending_subscriber_woken:
  assumes "updates_wf l" and "poll_next w t (Some l) = Done (Pending, Some m)"
  shows "w \<in> set (woken (updates_push u m)) \<and>
    (\<exists>n. poll_next w' t (Some (updates_push u m)) = Done (Ready (Some [u]), Some n))"
proof -
  from assms(2) obtain l' where l': "take_with_token t l = Done ([], l')"
    and m: "m = l'\<lparr>wakers := wakers l' @ [w]\<rparr>"
    by (auto simp: poll_next_def split: if_splits prod.splits)
  have known: "unread l t \<noteq> None" using take_with_token_unknown [OF assms(1)] l' by force
  then obtain us where us: "unread l t = Some us" by blast
  obtain k where k: "take_with_token t l = Done (us, k)" "updates_wf k" "unread k t = Some []"
    by (rule take_with_token_unread [OF assms(1) us])
  with l' have "updates_wf l'" "unread l' t = Some []" by auto
  then have m': "updates_wf m" "unread m t = Some []" by (auto simp: m updates_wf_def unread_def)
  have p: "updates_wf (updates_push u m)" "unread (updates_push u m) t = Some [u]"
    using m' by (simp_all add: updates_push_wf updates_push_unread)
  obtain n where "take_with_token t (updates_push u m) = Done ([u], n)"
    by (rule take_with_token_unread [OF p])
  then show ?thesis by (simp add: poll_next_def m updates_push_def)
qed

theorem pending_subscriber_woken_witness:
  "case poll_next 5 0 (Some (updates_new :: (nat, nat) updates_inner)) of
     Done (Pending, Some m) \<Rightarrow>
       5 \<in> set (woken (updates_push StartReattachItems m)) \<and>
       (\<exists>n. poll_next 6 0 (Some (updates_push StartReattachItems m)) = Done (Ready (Some [StartReattachItems]), Some n))
   | _ \<Rightarrow> False"
proof -
  have "case poll_next 5 0 (Some (updates_new :: (nat, nat) updates_inner)) of
      Done (Pending, Some m) \<Rightarrow> True | _ \<Rightarrow> False"
    by code_simp
  then have "\<exists>m. poll_next 5 0 (Some (updates_new :: (nat, nat) updates_inner)) = Done (Pending, Some m)"
    by (simp split: run.split_asm prod.split_asm poll.split_asm option.split_asm)
  then obtain m where "poll_next 5 0 (Some (updates_new :: (nat, nat) updates_inner)) = Done (Pending, Some m)" ..
  with pending_subscriber_woken [OF updates_new_wf this] show ?thesis by simp
qed

end
