(* ===== verification/Chunk_Store.thy ===== *)
theory Chunk_Store
  imports Update_Log
begin

text \<open>
  The pointer layer of \<open>linked_chunk/mod.rs\<close>: chunks are heap cells linked in both directions
  through raw pointers (\<open>NonNull\<close>). The heap maps addresses to chunks; \<open>Box::leak\<close> allocates at a
  fresh address, \<open>Box::from_raw\<close> gives the cell back, and every access to an address with no live
  cell is \<open>Ub\<close>. The theory holds \<open>ChunkIdentifierGenerator\<close>, \<open>Chunk\<close> and \<open>Ends\<close>, the
  representation of a list of chunks by the heap, and that \<open>insert_next\<close>, \<open>unlink\<close> and
  \<open>push_items\<close> keep it.
\<close>

section \<open>Chunks on the heap\<close>

type_synonym addr = nat

datatype ('i, 'g) chunk_content = Gap 'g | Items "'i list"

record ('i, 'g) chunk =
  previous :: "addr option"
  next_chunk :: "addr option"
  ident :: chunk_id
  content :: "('i, 'g) chunk_content"

text \<open>
  \<open>LinkedChunk\<close> with the heap it owns: \<open>links_first\<close> and \<open>links_last\<close> are the fields of \<open>Ends\<close>,
  \<open>generator\<close> the counter of \<open>ChunkIdentifierGenerator\<close>, \<open>brk\<close> the lowest address never allocated.
\<close>

record ('i, 'g) linked_chunk =
  heap :: "addr \<rightharpoonup> ('i, 'g) chunk"
  brk :: addr
  links_first :: addr
  links_last :: "addr option"
  lc_length :: nat
  generator :: chunk_id
  lc_updates :: "('i, 'g) updates_inner option"

definition deref :: "addr \<Rightarrow> ('i, 'g) linked_chunk \<Rightarrow> ('i, 'g) chunk run" where
  "deref a lc = (case heap lc a of None \<Rightarrow> Ub | Some c \<Rightarrow> Done c)"

definition modify ::
  "addr \<Rightarrow> (('i, 'g) chunk \<Rightarrow> ('i, 'g) chunk) \<Rightarrow> ('i, 'g) linked_chunk \<Rightarrow> ('i, 'g) linked_chunk run" where
  "modify a f lc = run_bind (deref a lc) (\<lambda>c. Done (lc\<lparr>heap := (heap lc)(a \<mapsto> f c)\<rparr>))"

definition leak :: "('i, 'g) chunk \<Rightarrow> ('i, 'g) linked_chunk \<Rightarrow> addr \<times> ('i, 'g) linked_chunk" where
  "leak c lc = (brk lc, lc\<lparr>heap := (heap lc)(brk lc \<mapsto> c), brk := Suc (brk lc)\<rparr>)"

definition reclaim :: "addr \<Rightarrow> ('i, 'g) linked_chunk \<Rightarrow> ('i, 'g) linked_chunk run" where
  "reclaim a lc = run_bind (deref a lc) (\<lambda>_. Done (lc\<lparr>heap := (heap lc)(a := None)\<rparr>))"

definition push_update :: "('i, 'g) update \<Rightarrow> ('i, 'g) linked_chunk \<Rightarrow> ('i, 'g) linked_chunk" where
  "push_update u lc = lc\<lparr>lc_updates := map_option (updates_push u) (lc_updates lc)\<rparr>"

subsection \<open>ChunkIdentifierGenerator\<close>

definition FIRST_IDENTIFIER :: chunk_id where
  "FIRST_IDENTIFIER = 0"

definition new_from_scratch :: chunk_id where
  "new_from_scratch = FIRST_IDENTIFIER"

definition new_from_previous_chunk_identifier :: "chunk_id \<Rightarrow> chunk_id" where
  "new_from_previous_chunk_identifier last_chunk_identifier = last_chunk_identifier"

definition generator_next :: "('i, 'g) linked_chunk \<Rightarrow> (chunk_id \<times> ('i, 'g) linked_chunk) run" where
  "generator_next lc =
     (let prev = generator lc; lc = lc\<lparr>generator := prev + 1\<rparr> in
      if prev = - 1 then Panic else Done (prev + 1, lc))"

subsection \<open>Chunk\<close>

definition chunk_new :: "chunk_id \<Rightarrow> ('i, 'g) chunk_content \<Rightarrow> ('i, 'g) chunk" where
  "chunk_new i c = \<lparr>previous = None, next_chunk = None, ident = i, content = c\<rparr>"

definition new_gap_leaked ::
  "chunk_id \<Rightarrow> 'g \<Rightarrow> ('i, 'g) linked_chunk \<Rightarrow> addr \<times> ('i, 'g) linked_chunk" where
  "new_gap_leaked i g lc = leak (chunk_new i (Gap g)) lc"

definition new_items_leaked ::
  "chunk_id \<Rightarrow> ('i, 'g) linked_chunk \<Rightarrow> addr \<times> ('i, 'g) linked_chunk" where
  "new_items_leaked i lc = leak (chunk_new i (Items [])) lc"

definition is_gap :: "('i, 'g) chunk \<Rightarrow> bool" where
  "is_gap c = (case content c of Gap _ \<Rightarrow> True | Items _ \<Rightarrow> False)"

definition is_items :: "('i, 'g) chunk \<Rightarrow> bool" where
  "is_items c = (\<not> is_gap c)"

definition is_first_chunk :: "('i, 'g) chunk \<Rightarrow> bool" where
  "is_first_chunk c = (previous c = None)"

definition is_last_chunk :: "('i, 'g) chunk \<Rightarrow> bool" where
  "is_last_chunk c = (next_chunk c = None)"

definition first_position :: "('i, 'g) chunk \<Rightarrow> position" where
  "first_position c = Position (ident c) 0"

definition last_position :: "('i, 'g) chunk \<Rightarrow> position" where
  "last_position c =
     (case content c of
        Gap _ \<Rightarrow> Position (ident c) 0
      | Items xs \<Rightarrow> Position (ident c) (length xs - 1))"

definition chunk_len :: "('i, 'g) chunk \<Rightarrow> nat" where
  "chunk_len c = (case content c of Gap _ \<Rightarrow> 0 | Items xs \<Rightarrow> length xs)"

definition identifier_at :: "addr option \<Rightarrow> ('i, 'g) linked_chunk \<Rightarrow> chunk_id option run" where
  "identifier_at p lc =
     (case p of None \<Rightarrow> Done None
      | Some a \<Rightarrow> run_bind (deref a lc) (\<lambda>c. Done (Some (ident c))))"

text \<open>
  \<open>insert_next\<close> links the (leaked) chunk at \<open>new\<close> after the chunk at \<open>self\<close>, tells the update
  history about it, and returns \<open>new\<close>.
\<close>

definition insert_next ::
  "addr \<Rightarrow> addr \<Rightarrow> ('i, 'g) linked_chunk \<Rightarrow> (addr \<times> ('i, 'g) linked_chunk) run" where
  "insert_next self new lc =
     run_bind (deref self lc) (\<lambda>c.
     run_bind (case next_chunk c of
                 None \<Rightarrow> Done lc
               | Some n \<Rightarrow>
                   run_bind (modify n (\<lambda>x. x\<lparr>previous := Some new\<rparr>) lc)
                     (modify new (\<lambda>x. x\<lparr>next_chunk := Some n\<rparr>))) (\<lambda>lc.
     run_bind (modify self (\<lambda>x. x\<lparr>next_chunk := Some new\<rparr>) lc) (\<lambda>lc.
     run_bind (modify new (\<lambda>x. x\<lparr>previous := Some self\<rparr>) lc) (\<lambda>lc.
     if lc_updates lc = None then Done (new, lc)
     else
       run_bind (deref new lc) (\<lambda>nc.
       run_bind (identifier_at (previous nc) lc) (\<lambda>prev.
       run_bind (identifier_at (next_chunk nc) lc) (\<lambda>nxt.
       Done (new, push_update
                    (case content nc of
                       Gap g \<Rightarrow> NewGapChunk prev (ident nc) nxt g
                     | Items _ \<Rightarrow> NewItemsChunk prev (ident nc) nxt) lc))))))))"

definition unlink :: "addr \<Rightarrow> ('i, 'g) linked_chunk \<Rightarrow> ('i, 'g) linked_chunk run" where
  "unlink self lc =
     run_bind (deref self lc) (\<lambda>c.
     run_bind (case previous c of
                 None \<Rightarrow> Done lc
               | Some p \<Rightarrow> modify p (\<lambda>x. x\<lparr>next_chunk := next_chunk c\<rparr>) lc) (\<lambda>lc.
     run_bind (case next_chunk c of
                 None \<Rightarrow> Done lc
               | Some n \<Rightarrow> modify n (\<lambda>x. x\<lparr>previous := previous c\<rparr>) lc) (\<lambda>lc.
     Done (push_update (RemoveChunk (ident c)) lc))))"

text \<open>
  \<open>push_items\<close> recurses on the chunk it inserts; with a capacity of 0 it never returns. The fuel
  \<open>length items + 2\<close> is enough for every positive capacity: one call per chunk, every chunk but
  the first and one more takes at least one item.
\<close>

fun push_items_loop ::
  "nat \<Rightarrow> nat \<Rightarrow> addr \<Rightarrow> 'i list \<Rightarrow> ('i, 'g) linked_chunk \<Rightarrow> (addr \<times> ('i, 'g) linked_chunk) run" where
  "push_items_loop cap 0 self new_items lc = Stuck"
| "push_items_loop cap (Suc fuel) self new_items lc =
     run_bind (deref self lc) (\<lambda>c.
     if new_items = [] then Done (self, lc)
     else
       (case content c of
          Gap _ \<Rightarrow>
            run_bind (generator_next lc) (\<lambda>(i, lc).
            let (p, lc) = new_items_leaked i lc in
            run_bind (insert_next self p lc) (\<lambda>(p, lc).
            push_items_loop cap fuel p new_items lc))
        | Items xs \<Rightarrow>
            (let free_space = cap - chunk_len c in
             if length new_items \<le> free_space then
               run_bind (modify self (\<lambda>x. x\<lparr>content := Items (xs @ new_items)\<rparr>) lc) (\<lambda>lc.
               Done (self, push_update (PushItems (Position (ident c) (length xs)) new_items) lc))
             else
               run_bind
                 (if 0 < free_space then
                    run_bind (modify self (\<lambda>x. x\<lparr>content := Items (xs @ take free_space new_items)\<rparr>) lc)
                      (\<lambda>lc. Done (push_update
                         (PushItems (Position (ident c) (length xs)) (take free_space new_items)) lc))
                  else Done lc) (\<lambda>lc.
               run_bind (generator_next lc) (\<lambda>(i, lc).
               let (p, lc) = new_items_leaked i lc in
               run_bind (insert_next self p lc) (\<lambda>(p, lc).
               push_items_loop cap fuel p (drop free_space new_items) lc))))))"

definition push_items ::
  "nat \<Rightarrow> addr \<Rightarrow> 'i list \<Rightarrow> ('i, 'g) linked_chunk \<Rightarrow> (addr \<times> ('i, 'g) linked_chunk) run" where
  "push_items cap self new_items lc =
     push_items_loop cap (length new_items + 2) self new_items lc"

subsection \<open>Ends\<close>

definition latest_chunk_ptr :: "('i, 'g) linked_chunk \<Rightarrow> addr" where
  "latest_chunk_ptr lc = (case links_last lc of None \<Rightarrow> links_first lc | Some a \<Rightarrow> a)"

definition first_chunk :: "('i, 'g) linked_chunk \<Rightarrow> ('i, 'g) chunk run" where
  "first_chunk lc = deref (links_first lc) lc"

definition latest_chunk :: "('i, 'g) linked_chunk \<Rightarrow> ('i, 'g) chunk run" where
  "latest_chunk lc = deref (latest_chunk_ptr lc) lc"

text \<open>
  \<open>Ends::chunk\<close> and \<open>Ends::chunk_mut\<close> walk from the latest chunk back to the first; the result is
  the address of the chunk. The number of cells allocated so far bounds the walk.
\<close>

fun chunk_loop :: "nat \<Rightarrow> addr \<Rightarrow> chunk_id \<Rightarrow> ('i, 'g) linked_chunk \<Rightarrow> addr option run" where
  "chunk_loop 0 a i lc = Stuck"
| "chunk_loop (Suc fuel) a i lc =
     run_bind (deref a lc) (\<lambda>c.
     if ident c = i then Done (Some a)
     else (case previous c of None \<Rightarrow> Done None | Some p \<Rightarrow> chunk_loop fuel p i lc))"

definition chunk_mut :: "chunk_id \<Rightarrow> ('i, 'g) linked_chunk \<Rightarrow> addr option run" where
  "chunk_mut i lc = chunk_loop (brk lc) (latest_chunk_ptr lc) i lc"

section \<open>The list of chunks a heap represents\<close>

type_synonym ('i, 'g) achunk = "chunk_id \<times> ('i, 'g) chunk_content"
type_synonym ('i, 'g) node = "addr \<times> ('i, 'g) achunk"

definition head_addr :: "('i, 'g) node list \<Rightarrow> addr option \<Rightarrow> addr option" where
  "head_addr xs n = (case xs of [] \<Rightarrow> n | x # _ \<Rightarrow> Some (fst x))"

definition last_addr :: "('i, 'g) node list \<Rightarrow> addr option \<Rightarrow> addr option" where
  "last_addr xs p = (if xs = [] then p else Some (fst (last xs)))"

fun dll ::
  "(addr \<rightharpoonup> ('i, 'g) chunk) \<Rightarrow> addr option \<Rightarrow> ('i, 'g) node list \<Rightarrow> addr option \<Rightarrow> bool" where
  "dll h p [] n \<longleftrightarrow> True"
| "dll h p (x # xs) n \<longleftrightarrow>
     h (fst x) = Some \<lparr>previous = p, next_chunk = head_addr xs n,
                       ident = fst (snd x), content = snd (snd x)\<rparr> \<and>
     dll h (Some (fst x)) xs n"

definition addrs :: "('i, 'g) node list \<Rightarrow> addr set" where
  "addrs xs = fst ` set xs"

definition distinct_addrs :: "('i, 'g) node list \<Rightarrow> bool" where
  "distinct_addrs xs = distinct (map fst xs)"

definition store_ok :: "('i, 'g) linked_chunk \<Rightarrow> ('i, 'g) node list \<Rightarrow> bool" where
  "store_ok lc xs \<longleftrightarrow>
     dll (heap lc) None xs None \<and> distinct_addrs xs \<and>
     dom (heap lc) = addrs xs \<and> addrs xs \<subseteq> {..<brk lc}"

lemma addrs_simps [simp]:
  "addrs [] = {}" "addrs (x # xs) = insert (fst x) (addrs xs)" "addrs (xs @ ys) = addrs xs \<union> addrs ys"
  by (auto simp: addrs_def)

lemma distinct_addrs_simps [simp]:
  "distinct_addrs []" "distinct_addrs (x # xs) \<longleftrightarrow> fst x \<notin> addrs xs \<and> distinct_addrs xs"
  "distinct_addrs (xs @ ys) \<longleftrightarrow> distinct_addrs xs \<and> distinct_addrs ys \<and> addrs xs \<inter> addrs ys = {}"
  by (auto simp: addrs_def distinct_addrs_def)

lemma head_addr_simps [simp]:
  "head_addr [] n = n" "head_addr (x # xs) n = Some (fst x)"
  "head_addr (xs @ ys) n = head_addr xs (head_addr ys n)"
  by (auto simp: head_addr_def split: list.splits)

lemma last_addr_simps [simp]:
  "last_addr [] p = p" "last_addr (x # xs) p = last_addr xs (Some (fst x))"
  "last_addr (xs @ ys) p = last_addr ys (last_addr xs p)"
  by (auto simp: last_addr_def)

lemma dll_append [simp]:
  "dll h p (xs @ ys) n \<longleftrightarrow> dll h p xs (head_addr ys n) \<and> dll h (last_addr xs p) ys n"
  by (induction xs arbitrary: p) auto

lemma dll_heap_cong:
  "(\<And>a. a \<in> addrs xs \<Longrightarrow> h a = h' a) \<Longrightarrow> dll h p xs n = dll h' p xs n"
  by (induction xs arbitrary: p) auto

lemma dll_upd_other [simp]: "a \<notin> addrs xs \<Longrightarrow> dll (h(a := v)) p xs n = dll h p xs n"
  by (rule dll_heap_cong) auto

lemma dll_memD:
  "dll h p (xs @ (a, i, c) # ys) n \<Longrightarrow>
   h a = Some \<lparr>previous = last_addr xs p, next_chunk = head_addr ys n, ident = i, content = c\<rparr>"
  by simp

subsection \<open>Linking and unlinking\<close>

definition head_id :: "('i, 'g) achunk list \<Rightarrow> chunk_id option" where
  "head_id cs = (case cs of [] \<Rightarrow> None | c # _ \<Rightarrow> Some (fst c))"

definition new_chunk_update ::
  "chunk_id option \<Rightarrow> ('i, 'g) achunk \<Rightarrow> chunk_id option \<Rightarrow> ('i, 'g) update" where
  "new_chunk_update prev c nxt =
     (case snd c of
        Gap g \<Rightarrow> NewGapChunk prev (fst c) nxt g
      | Items _ \<Rightarrow> NewItemsChunk prev (fst c) nxt)"

text \<open>What the operations on chunks leave alone: the fields of the linked chunk other than the heap,
  the generator and the update history.\<close>

definition same_links :: "('i, 'g) linked_chunk \<Rightarrow> ('i, 'g) linked_chunk \<Rightarrow> bool" where
  "same_links lc lc' \<longleftrightarrow>
     links_first lc' = links_first lc \<and> links_last lc' = links_last lc \<and> lc_length lc' = lc_length lc"

definition logged ::
  "('i, 'g) update list \<Rightarrow> ('i, 'g) linked_chunk \<Rightarrow> ('i, 'g) linked_chunk \<Rightarrow> bool" where
  "logged us lc lc' \<longleftrightarrow> lc_updates lc' = map_option (fold updates_push us) (lc_updates lc)"

lemma head_id_simps [simp]: "head_id [] = None" "head_id (c # cs) = Some (fst c)"
  by (simp_all add: head_id_def)

lemma same_links_refl [simp]: "same_links lc lc"
  by (simp add: same_links_def)

lemma same_links_trans [trans]: "same_links a b \<Longrightarrow> same_links b c \<Longrightarrow> same_links a c"
  by (simp add: same_links_def)

lemma logged_Nil [simp]: "logged [] lc lc' \<longleftrightarrow> lc_updates lc' = lc_updates lc"
  by (simp add: logged_def option.map_id)

lemma logged_trans: "logged us a b \<Longrightarrow> logged vs b c \<Longrightarrow> logged (us @ vs) a c"
  by (simp add: logged_def option.map_comp comp_def)

lemma push_update_simps [simp]:
  "heap (push_update u lc) = heap lc" "brk (push_update u lc) = brk lc"
  "generator (push_update u lc) = generator lc" "links_first (push_update u lc) = links_first lc"
  "links_last (push_update u lc) = links_last lc" "lc_length (push_update u lc) = lc_length lc"
  "lc_updates (push_update u lc) = map_option (updates_push u) (lc_updates lc)"
  by (simp_all add: push_update_def)

lemma store_ok_push_update [simp]: "store_ok (push_update u lc) xs = store_ok lc xs"
  by (simp add: store_ok_def)

lemma store_okD:
  assumes "store_ok lc (xs @ (a, i, c) # ys)"
  shows "heap lc a = Some \<lparr>previous = last_addr xs None, next_chunk = head_addr ys None,
                            ident = i, content = c\<rparr>"
    and "a \<notin> addrs xs" "a \<notin> addrs ys" "a < brk lc"
  using assms by (auto simp: store_ok_def)

lemma store_ok_fresh: "store_ok lc xs \<Longrightarrow> brk lc \<notin> addrs xs" "store_ok lc xs \<Longrightarrow> heap lc (brk lc) = None"
  by (fastforce simp: store_ok_def)+

lemmas store_defs = deref_def modify_def leak_def chunk_new_def identifier_at_def

lemma insert_next_fresh:
  assumes ok: "store_ok lc (xs @ (a, i, c) # ys)"
    and leak: "leak (chunk_new j d) lc = (p, lc1)"
  obtains lc' where "insert_next a p lc1 = Done (p, lc')"
    "store_ok lc' (xs @ (a, i, c) # (p, j, d) # ys)"
    "logged [new_chunk_update (Some i) (j, d) (head_id (map snd ys))] lc lc'"
    "same_links lc lc'" "generator lc' = generator lc" "brk lc' = Suc (brk lc)"
proof -
  have p: "p = brk lc" and lc1: "lc1 = lc\<lparr>heap := (heap lc)(p \<mapsto> chunk_new j d), brk := Suc p\<rparr>"
    using leak by (auto simp: leak_def)
  have fresh: "p \<notin> addrs (xs @ (a, i, c) # ys)" using store_ok_fresh [OF ok] p by simp
  note a = store_okD [OF ok]
  have ne: "a \<noteq> p" "p \<noteq> a" using fresh by auto
  show thesis
  proof (cases ys)
    case Nil
    let ?h = "(heap lc)(a \<mapsto> \<lparr>previous = last_addr xs None, next_chunk = Some p, ident = i, content = c\<rparr>,
       p \<mapsto> \<lparr>previous = Some a, next_chunk = None, ident = j, content = d\<rparr>)"
    have "insert_next a p lc1 =
        Done (p, push_update (new_chunk_update (Some i) (j, d) None) (lc\<lparr>heap := ?h, brk := Suc p\<rparr>))"
      using a(1) ne Nil
      by (cases "lc_updates lc"; cases d)
        (simp_all add: insert_next_def lc1 store_defs new_chunk_update_def push_update_def)
    moreover have "store_ok (lc\<lparr>heap := ?h, brk := Suc p\<rparr>) (xs @ (a, i, c) # (p, j, d) # ys)"
      using ok fresh a Nil p by (auto simp: store_ok_def)
    ultimately show thesis using that Nil p by (auto simp: logged_def same_links_def)
  next
    case (Cons y zs)
    obtain b k e where y: "y = (b, k, e)" by (cases y)
    have b: "heap lc b = Some \<lparr>previous = Some a, next_chunk = head_addr zs None, ident = k, content = e\<rparr>"
      using ok Cons y by (simp add: store_ok_def)
    have ne': "b \<noteq> p" "p \<noteq> b" "b \<noteq> a" "a \<noteq> b" using fresh a(3) Cons y by auto
    let ?h = "(heap lc)(b \<mapsto> \<lparr>previous = Some p, next_chunk = head_addr zs None, ident = k, content = e\<rparr>,
       a \<mapsto> \<lparr>previous = last_addr xs None, next_chunk = Some p, ident = i, content = c\<rparr>,
       p \<mapsto> \<lparr>previous = Some a, next_chunk = Some b, ident = j, content = d\<rparr>)"
    have "insert_next a p lc1 =
        Done (p, push_update (new_chunk_update (Some i) (j, d) (Some k)) (lc\<lparr>heap := ?h, brk := Suc p\<rparr>))"
      using a(1) b ne ne' Cons y
      by (cases "lc_updates lc"; cases d)
        (simp_all add: insert_next_def lc1 store_defs new_chunk_update_def push_update_def)
    moreover have "store_ok (lc\<lparr>heap := ?h, brk := Suc p\<rparr>) (xs @ (a, i, c) # (p, j, d) # ys)"
      using ok fresh a Cons y p ne ne' by (auto simp: store_ok_def)
    ultimately show thesis using that Cons y p by (auto simp: logged_def same_links_def)
  qed
qed

lemma store_ok_other_fields [simp]:
  "store_ok (lc\<lparr>links_last := l\<rparr>) xs = store_ok lc xs"
  "store_ok (lc\<lparr>lc_length := n\<rparr>) xs = store_ok lc xs"
  "store_ok (lc\<lparr>generator := g\<rparr>) xs = store_ok lc xs"
  by (simp_all add: store_ok_def)

lemma unlink_chunk:
  assumes ok: "store_ok lc (xs @ (a, i, c) # ys)" and "xs \<noteq> []"
  obtains lc' where "unlink a lc = Done lc'" "heap lc' a = heap lc a"
    "store_ok (lc'\<lparr>heap := (heap lc')(a := None)\<rparr>) (xs @ ys)"
    "logged [RemoveChunk i] lc lc'" "same_links lc lc'" "generator lc' = generator lc" "brk lc' = brk lc"
proof -
  obtain us b j d where xs: "xs = us @ [(b, j, d)]"
    using \<open>xs \<noteq> []\<close> by (cases xs rule: rev_cases) auto
  note a = store_okD [OF ok]
  have b: "heap lc b = Some \<lparr>previous = last_addr us None, next_chunk = Some a, ident = j, content = d\<rparr>"
    using ok xs by (simp add: store_ok_def)
  have ne: "a \<noteq> b" "b \<noteq> a" using a(2) xs by auto
  show thesis
  proof (cases ys)
    case Nil
    let ?h = "(heap lc)(b \<mapsto> \<lparr>previous = last_addr us None, next_chunk = None, ident = j, content = d\<rparr>)"
    have "unlink a lc = Done (push_update (RemoveChunk i) (lc\<lparr>heap := ?h\<rparr>))"
      using a(1) b ne xs Nil by (simp add: unlink_def store_defs)
    moreover have "store_ok (lc\<lparr>heap := ?h(a := None)\<rparr>) (xs @ ys)"
      using ok xs ne a(2,3) Nil by (auto simp: store_ok_def)
    ultimately show thesis using that [of "push_update (RemoveChunk i) (lc\<lparr>heap := ?h\<rparr>)"] ne
      by (simp add: logged_def same_links_def store_ok_def)
  next
    case (Cons y zs)
    obtain m k e where y: "y = (m, k, e)" by (cases y)
    have m: "heap lc m = Some \<lparr>previous = Some a, next_chunk = head_addr zs None, ident = k, content = e\<rparr>"
      using ok Cons y by (simp add: store_ok_def)
    have ne': "a \<noteq> m" "m \<noteq> a" "m \<noteq> b" "b \<noteq> m" using ok Cons y xs by (auto simp: store_ok_def)
    let ?h = "(heap lc)(b \<mapsto> \<lparr>previous = last_addr us None, next_chunk = Some m, ident = j, content = d\<rparr>,
      m \<mapsto> \<lparr>previous = Some b, next_chunk = head_addr zs None, ident = k, content = e\<rparr>)"
    have "unlink a lc = Done (push_update (RemoveChunk i) (lc\<lparr>heap := ?h\<rparr>))"
      using a(1) b m ne ne' xs Cons y by (simp add: unlink_def store_defs)
    moreover have "store_ok (lc\<lparr>heap := ?h(a := None)\<rparr>) (xs @ ys)"
      using ok xs ne ne' a(2,3) Cons y by (auto simp: store_ok_def)
    ultimately show thesis using that [of "push_update (RemoveChunk i) (lc\<lparr>heap := ?h\<rparr>)"] ne ne'
      by (simp add: logged_def same_links_def store_ok_def)
  qed
qed

lemma store_ok_length: "store_ok lc xs \<Longrightarrow> length xs \<le> brk lc"
  using length_le_if_distinct_below [of "map fst xs" "brk lc"]
  by (auto simp: store_ok_def distinct_addrs_def addrs_def)

subsection \<open>Finding a chunk\<close>

text \<open>The backward walk finds the last chunk with the identifier.\<close>

lemma chunk_loop_dll:
  assumes "dll (heap lc) None (xs @ [x]) n" and "length xs < fuel"
  shows "chunk_loop fuel (fst x) i lc =
    Done (map_option fst (List.find (\<lambda>y. fst (snd y) = i) (rev (xs @ [x]))))"
  using assms
proof (induction xs arbitrary: x n fuel rule: rev_induct)
  case Nil
  then show ?case by (cases fuel) (auto simp: deref_def)
next
  case (snoc y xs)
  then obtain f where f: "fuel = Suc f" "length xs < f" by (cases fuel) auto
  from snoc.prems(1) have hx: "heap lc (fst x) = Some \<lparr>previous = Some (fst y), next_chunk = n,
      ident = fst (snd x), content = snd (snd x)\<rparr>"
    and "dll (heap lc) None (xs @ [y]) (Some (fst x))"
    by simp_all
  with snoc.IH [of y "Some (fst x)" f] f show ?case by (simp add: deref_def)
qed

subsection \<open>Pushing items\<close>

text \<open>
  The specification of \<open>push_items\<close> over lists of chunks: pushing \<open>items\<close> on the chunk \<open>c\<close> that is
  followed by the chunk \<open>nxt\<close>, with \<open>g\<close> the last identifier given out, replaces \<open>c\<close> by a list
  of chunks, logs a list of updates and leaves the generator at a new value.
\<close>

inductive pushes ::
  "nat \<Rightarrow> chunk_id option \<Rightarrow> chunk_id \<Rightarrow> ('i, 'g) achunk \<Rightarrow> 'i list
   \<Rightarrow> ('i, 'g) achunk list \<Rightarrow> ('i, 'g) update list \<Rightarrow> chunk_id \<Rightarrow> bool"
  for cap nxt where
  nothing: "pushes cap nxt g c [] [c] [] g"
| on_gap: "items \<noteq> [] \<Longrightarrow> g \<noteq> - 1 \<Longrightarrow>
    pushes cap nxt (g + 1) (g + 1, Items []) items cs us g' \<Longrightarrow>
    pushes cap nxt g (i, Gap x) items ((i, Gap x) # cs)
      (NewItemsChunk (Some i) (g + 1) nxt # us) g'"
| fits: "items \<noteq> [] \<Longrightarrow> length xs + length items \<le> cap \<Longrightarrow>
    pushes cap nxt g (i, Items xs) items [(i, Items (xs @ items))]
      [PushItems (Position i (length xs)) items] g"
| overflows: "cap - length xs < length items \<Longrightarrow> g \<noteq> - 1 \<Longrightarrow> free = cap - length xs \<Longrightarrow>
    pushes cap nxt (g + 1) (g + 1, Items []) (drop free items) cs us g' \<Longrightarrow>
    pushes cap nxt g (i, Items xs) items ((i, Items (xs @ take free items)) # cs)
      ((if 0 < free then [PushItems (Position i (length xs)) (take free items)] else [])
       @ NewItemsChunk (Some i) (g + 1) nxt # us) g'"

text \<open>The calls \<open>push_items\<close> makes, which also bounds the identifiers it consumes.\<close>

definition push_need :: "nat \<Rightarrow> ('i, 'g) chunk_content \<Rightarrow> 'i list \<Rightarrow> nat" where
  "push_need cap c items =
     (if items = [] then 1
      else length items + (case c of Gap _ \<Rightarrow> 2 | Items xs \<Rightarrow> if length xs < cap then 1 else 2))"

lemma push_need_le: "push_need cap c items \<le> length items + 2"
  by (auto simp: push_need_def split: chunk_content.splits)

lemma generator_next_ok:
  "generator lc \<noteq> - 1 \<Longrightarrow>
   generator_next lc = Done (generator lc + 1, lc\<lparr>generator := generator lc + 1\<rparr>)"
  by (simp add: generator_next_def Let_def)

lemma same_links_generator [simp]:
  "same_links (lc\<lparr>generator := g\<rparr>) lc' = same_links lc lc'"
  "logged us (lc\<lparr>generator := g\<rparr>) lc' = logged us lc lc'"
  by (simp_all add: same_links_def logged_def)

text \<open>Allocating a chunk and linking it, the step every insertion repeats.\<close>

lemma insert_new_chunk:
  assumes ok: "store_ok lc (xs @ (a, i, c) # ys)" and gen: "generator lc \<noteq> - 1"
  obtains p lc1 lc' where "generator_next lc = Done (generator lc + 1, lc\<lparr>generator := generator lc + 1\<rparr>)"
    "leak (chunk_new (generator lc + 1) d) (lc\<lparr>generator := generator lc + 1\<rparr>) = (p, lc1)"
    "insert_next a p lc1 = Done (p, lc')"
    "store_ok lc' ((xs @ [(a, i, c)]) @ (p, generator lc + 1, d) # ys)"
    "logged [new_chunk_update (Some i) (generator lc + 1, d) (head_id (map snd ys))] lc lc'"
    "same_links lc lc'" "generator lc' = generator lc + 1"
proof -
  let ?lc = "lc\<lparr>generator := generator lc + 1\<rparr>"
  obtain p lc1 where l: "leak (chunk_new (generator lc + 1) d) ?lc = (p, lc1)"
    by (cases "leak (chunk_new (generator lc + 1) d) ?lc")
  have "store_ok ?lc (xs @ (a, i, c) # ys)" using ok by simp
  from insert_next_fresh [OF this l] obtain lc' where "insert_next a p lc1 = Done (p, lc')"
    "store_ok lc' (xs @ (a, i, c) # (p, generator lc + 1, d) # ys)"
    "logged [new_chunk_update (Some i) (generator lc + 1, d) (head_id (map snd ys))] lc lc'"
    "same_links lc lc'" "generator lc' = generator lc + 1"
    by auto
  with that l show thesis by (simp add: generator_next_ok [OF gen])
qed

lemma new_chunk_update_simps [simp]:
  "new_chunk_update prev (i, Items xs) nxt = NewItemsChunk prev i nxt"
  "new_chunk_update prev (i, Gap g) nxt = NewGapChunk prev i nxt g"
  by (simp_all add: new_chunk_update_def)

lemmas insert_new_items = insert_new_chunk [where d = "Items []", folded new_items_leaked_def,
  unfolded new_chunk_update_simps]
lemmas insert_new_gap = insert_new_chunk [where d = "Gap g" for g, folded new_gap_leaked_def,
  unfolded new_chunk_update_simps]

lemma store_ok_set_content:
  assumes "store_ok lc (xs @ (a, i, c) # ys)"
  shows "\<exists>lc'. modify a (\<lambda>x. x\<lparr>content := d\<rparr>) lc = Done lc' \<and>
    store_ok lc' (xs @ (a, i, d) # ys) \<and> same_links lc lc' \<and> lc_updates lc' = lc_updates lc \<and>
    generator lc' = generator lc"
  using assms store_okD [OF assms]
  by (auto simp: modify_def deref_def store_ok_def same_links_def)

text \<open>
  What a run of \<open>push_items\<close> on the chunk at \<open>a\<close> guarantees: it returns the last chunk it touched,
  the heap now holds the chunks of the specification in place of the one at \<open>a\<close>, and the update
  history has grown by the updates of the specification.
\<close>

definition push_post ::
  "nat \<Rightarrow> ('i, 'g) node list \<Rightarrow> ('i, 'g) node \<Rightarrow> ('i, 'g) node list \<Rightarrow> 'i list
   \<Rightarrow> ('i, 'g) linked_chunk \<Rightarrow> (addr \<times> ('i, 'g) linked_chunk) run \<Rightarrow> bool" where
  "push_post cap xs x ys items lc r \<longleftrightarrow>
     (\<exists>p lc' zs us. r = Done (p, lc') \<and>
        pushes cap (head_id (map snd ys)) (generator lc) (snd x) items (map snd zs) us (generator lc') \<and>
        store_ok lc' (xs @ zs @ ys) \<and> zs \<noteq> [] \<and> fst (hd zs) = fst x \<and> fst (last zs) = p \<and>
        logged us lc lc' \<and> same_links lc lc')"

lemma push_postI:
  assumes "r = Done (p, lc')"
    "pushes cap (head_id (map snd ys)) (generator lc) (snd x) items (map snd zs) us (generator lc')"
    "store_ok lc' (xs @ zs @ ys)" "zs \<noteq> []" "fst (hd zs) = fst x" "fst (last zs) = p"
    "logged us lc lc'" "same_links lc lc'"
  shows "push_post cap xs x ys items lc r"
  unfolding push_post_def using assms by blast

definition push_next :: "nat \<Rightarrow> nat \<Rightarrow> addr \<Rightarrow> 'i list \<Rightarrow> ('i, 'g) linked_chunk
   \<Rightarrow> (addr \<times> ('i, 'g) linked_chunk) run" where
  "push_next cap fuel a items lc =
     run_bind (generator_next lc) (\<lambda>(i, lc).
     let (p, lc) = new_items_leaked i lc in
     run_bind (insert_next a p lc) (\<lambda>(p, lc). push_items_loop cap fuel p items lc))"

lemma push_next_spec:
  assumes ok: "store_ok lc (xs @ (a, i, d) # ys)" and gen: "generator lc \<noteq> - 1"
    and IH: "\<And>p lc1. store_ok lc1 ((xs @ [(a, i, d)]) @ (p, generator lc + 1, Items []) # ys) \<Longrightarrow>
      generator lc1 = generator lc + 1 \<Longrightarrow>
      push_post cap (xs @ [(a, i, d)]) (p, generator lc + 1, Items []) ys items lc1
        (push_items_loop cap fuel p items lc1)"
  obtains q lc' zs us where "push_next cap fuel a items lc = Done (q, lc')"
    "pushes cap (head_id (map snd ys)) (generator lc + 1) (generator lc + 1, Items []) items
       (map snd zs) us (generator lc')"
    "store_ok lc' (xs @ ((a, i, d) # zs) @ ys)" "zs \<noteq> []" "fst (last zs) = q"
    "logged (NewItemsChunk (Some i) (generator lc + 1) (head_id (map snd ys)) # us) lc lc'"
    "same_links lc lc'"
proof -
  obtain p lc1 lc2 where step: "generator_next lc = Done (generator lc + 1, lc\<lparr>generator := generator lc + 1\<rparr>)"
    "new_items_leaked (generator lc + 1) (lc\<lparr>generator := generator lc + 1\<rparr>) = (p, lc1)"
    "insert_next a p lc1 = Done (p, lc2)"
    "store_ok lc2 ((xs @ [(a, i, d)]) @ (p, generator lc + 1, Items []) # ys)"
    "logged [NewItemsChunk (Some i) (generator lc + 1) (head_id (map snd ys))] lc lc2"
    "same_links lc lc2" "generator lc2 = generator lc + 1"
    by (rule insert_new_items [OF ok gen])
  from IH [OF step(4,7)] obtain q lc' zs us where r: "push_items_loop cap fuel p items lc2 = Done (q, lc')"
    "pushes cap (head_id (map snd ys)) (generator lc + 1) (generator lc + 1, Items []) items
       (map snd zs) us (generator lc')"
    "store_ok lc' ((xs @ [(a, i, d)]) @ zs @ ys)" "zs \<noteq> []" "fst (last zs) = q"
    "logged us lc2 lc'" "same_links lc2 lc'"
    by (auto simp: push_post_def step(7))
  have "push_next cap fuel a items lc = Done (q, lc')" using step r(1) by (simp add: push_next_def)
  moreover have "logged (NewItemsChunk (Some i) (generator lc + 1) (head_id (map snd ys)) # us) lc lc'"
    using logged_trans [OF step(5) r(6)] by simp
  ultimately show thesis using that r same_links_trans [OF step(6) r(7)] by simp
qed

lemma push_items_loop_unfold:
  assumes "heap lc a = Some x" and "items \<noteq> []"
  shows "push_items_loop cap (Suc fuel) a items lc =
    (case content x of
       Gap _ \<Rightarrow> push_next cap fuel a items lc
     | Items ts \<Rightarrow>
         (if length items \<le> cap - length ts then
            run_bind (modify a (\<lambda>x. x\<lparr>content := Items (ts @ items)\<rparr>) lc)
              (\<lambda>lc. Done (a, push_update (PushItems (Position (ident x) (length ts)) items) lc))
          else
            run_bind
              (if 0 < cap - length ts then
                 run_bind (modify a (\<lambda>x. x\<lparr>content := Items (ts @ take (cap - length ts) items)\<rparr>) lc)
                   (\<lambda>lc. Done (push_update (PushItems (Position (ident x) (length ts))
                                              (take (cap - length ts) items)) lc))
               else Done lc)
              (push_next cap fuel a (drop (cap - length ts) items))))"
  using assms
  by (auto simp: deref_def push_next_def chunk_len_def Let_def fun_eq_iff
      split: chunk_content.splits intro!: arg_cong [where f = "run_bind _"])

lemma push_fits:
  assumes ok: "store_ok lc (xs @ (a, i, Items ts) # ys)" and "items \<noteq> []" "length items \<le> cap - length ts"
  shows "push_post cap xs (a, i, Items ts) ys items lc (push_items_loop cap (Suc fuel) a items lc)"
proof -
  let ?u = "PushItems (Position i (length ts)) items"
  obtain lc1 where m: "modify a (\<lambda>x. x\<lparr>content := Items (ts @ items)\<rparr>) lc = Done lc1"
    "store_ok lc1 (xs @ (a, i, Items (ts @ items)) # ys)" "same_links lc lc1"
    "lc_updates lc1 = lc_updates lc" "generator lc1 = generator lc"
    using store_ok_set_content [OF ok] by blast
  have "length ts + length items \<le> cap" using assms(2,3) by (cases items) auto
  then have "pushes cap (head_id (map snd ys)) (generator lc) (i, Items ts) items
      (map snd [(a, i, Items (ts @ items))]) [?u] (generator lc)"
    using pushes.fits [OF assms(2)] by simp
  moreover have "push_items_loop cap (Suc fuel) a items lc = Done (a, push_update ?u lc1)"
    using assms(2,3) m(1) push_items_loop_unfold [OF store_okD(1) [OF ok] assms(2)] by simp
  ultimately show ?thesis unfolding push_post_def using m
    by (intro exI [of _ a] exI [of _ "push_update ?u lc1"] exI [of _ "[(a, i, Items (ts @ items))]"]
        exI [of _ "[?u]"]) (simp add: logged_def same_links_def)
qed

lemma push_fill:
  assumes ok: "store_ok lc (xs @ (a, i, Items ts) # ys)"
  obtains lc1 where "store_ok lc1 (xs @ (a, i, Items (ts @ take free items)) # ys)" "same_links lc lc1"
    "logged (if 0 < free then [PushItems (Position i (length ts)) (take free items)] else []) lc lc1"
    "generator lc1 = generator lc"
    "(if 0 < free then
        run_bind (modify a (\<lambda>x. x\<lparr>content := Items (ts @ take free items)\<rparr>) lc)
          (\<lambda>lc. Done (push_update (PushItems (Position i (length ts)) (take free items)) lc))
      else Done lc) = Done lc1"
proof (cases "0 < free")
  case True
  let ?d = "Items (ts @ take free items)"
  obtain lc0 where "modify a (\<lambda>x. x\<lparr>content := ?d\<rparr>) lc = Done lc0"
    "store_ok lc0 (xs @ (a, i, ?d) # ys)" "same_links lc lc0"
    "lc_updates lc0 = lc_updates lc" "generator lc0 = generator lc"
    using store_ok_set_content [OF ok] by blast
  with True that [of "push_update (PushItems (Position i (length ts)) (take free items)) lc0"]
  show thesis by (simp add: logged_def same_links_def)
next
  case False
  then show thesis using that [of lc] ok by simp
qed

theorem push_items_loop_pushes:
  assumes "0 < cap" and "store_ok lc (xs @ (a, i, c) # ys)" and "push_need cap c items \<le> fuel"
    and "unat (generator lc) + push_need cap c items \<le> 2 ^ 64"
  shows "push_post cap xs (a, i, c) ys items lc (push_items_loop cap fuel a items lc)"
  using assms
proof (induction fuel arbitrary: lc xs a i c items)
  case 0
  then show ?case by (auto simp: push_need_def split: if_splits chunk_content.splits)
next
  case (Suc fuel)
  note cell = store_okD(1) [OF Suc.prems(2)]
  let ?next = "Items [] :: ('a, 'b) chunk_content"
  consider (none) "items = []" | (gap) x where "items \<noteq> []" "c = Gap x"
    | (fit) ts where "items \<noteq> []" "c = Items ts" "length items \<le> cap - length ts"
    | (over) ts where "c = Items ts" "cap - length ts < length items"
    by (cases c; cases "items = []") force+
  then show ?case
  proof cases
    case none
    with Suc.prems(2) cell show ?thesis
      by (intro push_postI [where zs = "[(a, i, c)]" and us = "[]"])
        (auto simp: deref_def intro: pushes.nothing)
  next
    case gap
    have need: "push_need cap c items = length items + 2" "push_need cap ?next items = length items + 1"
      using gap Suc.prems(1) by (simp_all add: push_need_def)
    have gen: "generator lc \<noteq> - 1" using Suc.prems(4) need by (auto simp: unat_max_word)
    have "push_post cap (xs @ [(a, i, c)]) (p, generator lc + 1, ?next) ys items lc1
        (push_items_loop cap fuel p items lc1)"
      if "store_ok lc1 ((xs @ [(a, i, c)]) @ (p, generator lc + 1, ?next) # ys)"
        "generator lc1 = generator lc + 1" for p lc1
      using Suc.IH [OF Suc.prems(1) that(1)] Suc.prems(3,4) need that(2) gen
      by (simp add: unat_plus_one_word)
    from push_next_spec [OF Suc.prems(2) gen this] obtain q lc' zs us where r:
      "push_next cap fuel a items lc = Done (q, lc')" "zs \<noteq> []" "fst (last zs) = q"
      "pushes cap (head_id (map snd ys)) (generator lc + 1) (generator lc + 1, Items []) items
         (map snd zs) us (generator lc')"
      "store_ok lc' (xs @ ((a, i, c) # zs) @ ys)" "same_links lc lc'"
      "logged (NewItemsChunk (Some i) (generator lc + 1) (head_id (map snd ys)) # us) lc lc'" .
    show ?thesis
    proof (rule push_postI)
      show "push_items_loop cap (Suc fuel) a items lc = Done (q, lc')"
        using r(1) gap(2) push_items_loop_unfold [OF cell gap(1)] by simp
      show "pushes cap (head_id (map snd ys)) (generator lc) (snd (a, i, c)) items
          (map snd ((a, i, c) # zs)) (NewItemsChunk (Some i) (generator lc + 1) (head_id (map snd ys)) # us)
          (generator lc')"
        using pushes.on_gap [OF gap(1) gen r(4)] gap(2) by simp
    qed (use r in auto)
  next
    case fit
    with push_fits Suc.prems(2) show ?thesis by blast
  next
    case over
    then have ne: "items \<noteq> []" by auto
    let ?free = "cap - length ts"
    have need: "push_need cap ?next (drop ?free items) + 1 \<le> push_need cap c items" "2 \<le> push_need cap c items"
      using over Suc.prems(1) by (cases items; auto simp: push_need_def)+
    obtain lc1 where m: "store_ok lc1 (xs @ (a, i, Items (ts @ take ?free items)) # ys)" "same_links lc lc1"
      "logged (if 0 < ?free then [PushItems (Position i (length ts)) (take ?free items)] else []) lc lc1"
      "generator lc1 = generator lc"
      "(if 0 < ?free then
          run_bind (modify a (\<lambda>x. x\<lparr>content := Items (ts @ take ?free items)\<rparr>) lc)
            (\<lambda>lc. Done (push_update (PushItems (Position i (length ts)) (take ?free items)) lc))
        else Done lc) = Done lc1"
      using push_fill Suc.prems(2) over(1) by blast
    have gen: "generator lc1 \<noteq> - 1" using Suc.prems(4) need m(4) by (auto simp: unat_max_word)
    have "push_post cap (xs @ [(a, i, Items (ts @ take ?free items))]) (p, generator lc1 + 1, ?next) ys
        (drop ?free items) lc2 (push_items_loop cap fuel p (drop ?free items) lc2)"
      if "store_ok lc2 ((xs @ [(a, i, Items (ts @ take ?free items))]) @ (p, generator lc1 + 1, ?next) # ys)"
        "generator lc2 = generator lc1 + 1" for p lc2
      using Suc.IH [OF Suc.prems(1) that(1)] Suc.prems(3,4) need that(2) gen m(4)
      by (simp add: unat_plus_one_word)
    from push_next_spec [OF m(1) gen this] obtain q lc' zs us where r:
      "push_next cap fuel a (drop ?free items) lc1 = Done (q, lc')"  "zs \<noteq> []" "fst (last zs) = q"
      "pushes cap (head_id (map snd ys)) (generator lc1 + 1) (generator lc1 + 1, Items []) (drop ?free items)
         (map snd zs) us (generator lc')"
      "store_ok lc' (xs @ ((a, i, Items (ts @ take ?free items)) # zs) @ ys)" "same_links lc1 lc'"
      "logged (NewItemsChunk (Some i) (generator lc1 + 1) (head_id (map snd ys)) # us) lc1 lc'" .
    show ?thesis
    proof (rule push_postI)
      show "push_items_loop cap (Suc fuel) a items lc = Done (q, lc')"
        unfolding push_items_loop_unfold [OF cell ne] using over m(5) r(1)
        by (auto split: if_splits)
      show "pushes cap (head_id (map snd ys)) (generator lc) (snd (a, i, c)) items
          (map snd ((a, i, Items (ts @ take ?free items)) # zs))
          ((if 0 < ?free then [PushItems (Position i (length ts)) (take ?free items)] else [])
           @ NewItemsChunk (Some i) (generator lc1 + 1) (head_id (map snd ys)) # us) (generator lc')"
        using pushes.overflows [OF over(2) gen refl r(4)] over(1) m(4) by simp
      show "logged ((if 0 < ?free then [PushItems (Position i (length ts)) (take ?free items)] else [])
          @ NewItemsChunk (Some i) (generator lc1 + 1) (head_id (map snd ys)) # us) lc lc'"
        using logged_trans [OF m(3) r(7)] by simp
    qed (use r same_links_trans [OF m(2)] in auto)
  qed
qed

end
