(* ===== verification/Linked_Chunk.thy ===== *)
theory Linked_Chunk
  imports Chunk_Store
begin

text \<open>
  \<open>LinkedChunk\<close> of \<open>linked_chunk/mod.rs\<close> over the pointer layer of \<open>Chunk_Store\<close>: construction,
  insertion, removal, gaps, iteration and \<open>Drop\<close>. Debug assertions are panics, as in a debug
  build. What the operations do is specified in \<open>Linked_Chunk_Spec\<close> and proved in
  \<open>Linked_Chunk_Refinement\<close>.
\<close>

section \<open>Operations\<close>

datatype lc_error =
    InvalidChunkIdentifier chunk_id
  | ChunkIsAGap chunk_id
  | ChunkIsItems chunk_id
  | InvalidItemIndex nat

definition debug_assert :: "bool \<Rightarrow> unit run" where
  "debug_assert b = (if b then Done () else Panic)"

definition lc_new :: "('i, 'g) linked_chunk" where
  "lc_new =
     (let lc = \<lparr>heap = Map.empty, brk = 0, links_first = 0, links_last = None, lc_length = 0,
                generator = new_from_scratch, lc_updates = None\<rparr>;
          (a, lc) = new_items_leaked FIRST_IDENTIFIER lc
      in lc\<lparr>links_first := a\<rparr>)"

definition new_with_update_history :: "('i, 'g) linked_chunk" where
  "new_with_update_history =
     (let lc = \<lparr>heap = Map.empty, brk = 0, links_first = 0, links_last = None, lc_length = 0,
                generator = new_from_scratch, lc_updates = Some updates_new\<rparr>;
          (a, lc) = new_items_leaked FIRST_IDENTIFIER lc
      in lc\<lparr>links_first := a\<rparr>)"

definition push_items_back :: "nat \<Rightarrow> 'i list \<Rightarrow> ('i, 'g) linked_chunk \<Rightarrow> ('i, 'g) linked_chunk run" where
  "push_items_back cap items lc =
     run_bind (push_items cap (latest_chunk_ptr lc) items lc) (\<lambda>(p, lc).
     run_bind (deref p lc) (\<lambda>last_chunk.
     run_bind (debug_assert (is_last_chunk last_chunk)) (\<lambda>_.
     let lc = (if \<not> is_first_chunk last_chunk then lc\<lparr>links_last := Some p\<rparr> else lc)
     in Done (lc\<lparr>lc_length := lc_length lc + length items\<rparr>))))"

definition push_gap_back :: "'g \<Rightarrow> ('i, 'g) linked_chunk \<Rightarrow> ('i, 'g) linked_chunk run" where
  "push_gap_back g lc =
     (let last_ptr = latest_chunk_ptr lc in
      run_bind (generator_next lc) (\<lambda>(i, lc).
      let (p, lc) = new_gap_leaked i g lc in
      run_bind (insert_next last_ptr p lc) (\<lambda>(_, lc).
      run_bind (deref last_ptr lc) (\<lambda>last_chunk.
      Done (lc\<lparr>links_last := next_chunk last_chunk\<rparr>)))))"

definition update_last :: "addr \<Rightarrow> ('i, 'g) linked_chunk \<Rightarrow> ('i, 'g) linked_chunk run" where
  "update_last p lc =
     run_bind (deref p lc) (\<lambda>c.
     Done (if \<not> is_first_chunk c \<and> is_last_chunk c then lc\<lparr>links_last := Some p\<rparr> else lc))"

definition insert_items_at ::
  "nat \<Rightarrow> 'i list \<Rightarrow> position \<Rightarrow> ('i, 'g) linked_chunk
   \<Rightarrow> ((lc_error + unit) \<times> ('i, 'g) linked_chunk) run" where
  "insert_items_at cap items pos lc =
     (let chunk_identifier = position_chunk pos; item_index = position_index pos in
      run_bind (chunk_mut chunk_identifier lc) (\<lambda>found.
      case found of
        None \<Rightarrow> Done (Inl (InvalidChunkIdentifier chunk_identifier), lc)
      | Some a \<Rightarrow>
          run_bind (deref a lc) (\<lambda>c.
          case content c of
            Gap _ \<Rightarrow> Done (Inl (ChunkIsAGap chunk_identifier), lc)
          | Items current_items \<Rightarrow>
              if length current_items < item_index then Done (Inl (InvalidItemIndex item_index), lc)
              else
                run_bind
                  (if item_index = length current_items then push_items cap a items lc
                   else
                     let lc = push_update (DetachLastItems (Position chunk_identifier item_index)) lc;
                         detached_items = drop item_index current_items
                     in run_bind (modify a (\<lambda>x. x\<lparr>content := Items (take item_index current_items)\<rparr>) lc) (\<lambda>lc.
                        run_bind (push_items cap a items lc) (\<lambda>(p, lc).
                        let lc = push_update StartReattachItems lc in
                        run_bind (push_items cap p detached_items lc) (\<lambda>(p, lc).
                        Done (p, push_update EndReattachItems lc)))))
                  (\<lambda>(p, lc).
                run_bind (update_last p lc) (\<lambda>lc.
                Done (Inr (), lc\<lparr>lc_length := lc_length lc + length items\<rparr>))))))"

definition remove_item_at ::
  "position \<Rightarrow> ('i, 'g) linked_chunk \<Rightarrow> ((lc_error + 'i) \<times> ('i, 'g) linked_chunk) run" where
  "remove_item_at pos lc =
     (let chunk_identifier = position_chunk pos; item_index = position_index pos in
      run_bind (chunk_mut chunk_identifier lc) (\<lambda>found.
      case found of
        None \<Rightarrow> Done (Inl (InvalidChunkIdentifier chunk_identifier), lc)
      | Some a \<Rightarrow>
          run_bind (deref a lc) (\<lambda>c.
          case content c of
            Gap _ \<Rightarrow> Done (Inl (ChunkIsAGap chunk_identifier), lc)
          | Items current_items \<Rightarrow>
              if length current_items < item_index then Done (Inl (InvalidItemIndex item_index), lc)
              else if length current_items \<le> item_index then Panic
              else
                let removed_item = current_items ! item_index;
                    current_items = take item_index current_items @ drop (Suc item_index) current_items
                in run_bind (modify a (\<lambda>x. x\<lparr>content := Items current_items\<rparr>) lc) (\<lambda>lc.
                   let lc = push_update (RemoveItem (Position chunk_identifier item_index)) lc;
                       can_unlink_chunk = (current_items = [])
                   in run_bind
                        (if can_unlink_chunk \<and> \<not> is_first_chunk c then
                           run_bind (unlink a lc) (\<lambda>lc.
                           run_bind (deref a lc) (\<lambda>c.
                           Done (Some a, if is_last_chunk c then lc\<lparr>links_last := previous c\<rparr> else lc)))
                         else Done (None, lc)) (\<lambda>(chunk_ptr, lc).
                      if lc_length lc = 0 then Panic
                      else
                        let lc = lc\<lparr>lc_length := lc_length lc - 1\<rparr>
                        in run_bind (case chunk_ptr of None \<Rightarrow> Done lc | Some a \<Rightarrow> reclaim a lc) (\<lambda>lc.
                           Done (Inr removed_item, lc)))))))"

definition insert_gap_at ::
  "nat \<Rightarrow> 'g \<Rightarrow> position \<Rightarrow> ('i, 'g) linked_chunk
   \<Rightarrow> ((lc_error + unit) \<times> ('i, 'g) linked_chunk) run" where
  "insert_gap_at cap g pos lc =
     (let chunk_identifier = position_chunk pos; item_index = position_index pos in
      run_bind (chunk_mut chunk_identifier lc) (\<lambda>found.
      case found of
        None \<Rightarrow> Done (Inl (InvalidChunkIdentifier chunk_identifier), lc)
      | Some a \<Rightarrow>
          run_bind (deref a lc) (\<lambda>c.
          if item_index = 0 \<and> is_items c \<and> previous c \<noteq> None then
            run_bind (run_of_option (previous c)) (\<lambda>previous_chunk.
            run_bind (generator_next lc) (\<lambda>(i, lc).
            let (p, lc) = new_gap_leaked i g lc in
            run_bind (insert_next previous_chunk p lc) (\<lambda>(_, lc).
            Done (Inr (), lc))))
          else
            case content c of
              Gap _ \<Rightarrow> Done (Inl (ChunkIsAGap chunk_identifier), lc)
            | Items current_items \<Rightarrow>
                if length current_items \<le> item_index then Done (Inl (InvalidItemIndex item_index), lc)
                else
                  let lc = push_update (DetachLastItems (Position chunk_identifier item_index)) lc;
                      detached_items = drop item_index current_items
                  in run_bind (modify a (\<lambda>x. x\<lparr>content := Items (take item_index current_items)\<rparr>) lc) (\<lambda>lc.
                     run_bind (generator_next lc) (\<lambda>(i, lc).
                     let (p, lc) = new_gap_leaked i g lc in
                     run_bind (insert_next a p lc) (\<lambda>(p, lc).
                     let lc = push_update StartReattachItems lc in
                     run_bind (generator_next lc) (\<lambda>(j, lc).
                     let (q, lc) = new_items_leaked j lc in
                     run_bind (insert_next p q lc) (\<lambda>(q, lc).
                     run_bind (push_items cap q detached_items lc) (\<lambda>(q, lc).
                     let lc = push_update EndReattachItems lc in
                     run_bind (update_last q lc) (\<lambda>lc.
                     Done (Inr (), lc)))))))))))"

definition replace_gap_at ::
  "nat \<Rightarrow> 'i list \<Rightarrow> chunk_id \<Rightarrow> ('i, 'g) linked_chunk
   \<Rightarrow> ((lc_error + addr) \<times> ('i, 'g) linked_chunk) run" where
  "replace_gap_at cap items chunk_identifier lc =
     run_bind (chunk_mut chunk_identifier lc) (\<lambda>found.
     case found of
       None \<Rightarrow> Done (Inl (InvalidChunkIdentifier chunk_identifier), lc)
     | Some a \<Rightarrow>
         run_bind (deref a lc) (\<lambda>c.
         run_bind (debug_assert (\<not> is_first_chunk c)) (\<lambda>_.
         case content c of
           Items _ \<Rightarrow> Done (Inl (ChunkIsItems chunk_identifier), lc)
         | Gap _ \<Rightarrow>
             run_bind (generator_next lc) (\<lambda>(i, lc).
             let (p, lc) = new_items_leaked i lc in
             run_bind (insert_next a p lc) (\<lambda>(p, lc).
             run_bind (push_items cap p items lc) (\<lambda>(last_inserted, lc).
             run_bind (deref last_inserted lc) (\<lambda>l.
             let maybe_last_chunk_ptr = (if is_last_chunk l then Some last_inserted else None) in
             run_bind (deref a lc) (\<lambda>c.
             run_bind (run_of_option (next_chunk c)) (\<lambda>new_chunk_ptr.
             run_bind (unlink a lc) (\<lambda>lc.
             let lc = (case maybe_last_chunk_ptr of
                         None \<Rightarrow> lc | Some l \<Rightarrow> lc\<lparr>links_last := Some l\<rparr>);
                 lc = lc\<lparr>lc_length := lc_length lc + length items\<rparr>
             in run_bind (reclaim a lc) (\<lambda>lc.
                Done (Inr new_chunk_ptr, lc)))))))))))) "

subsection \<open>Iteration\<close>

text \<open>
  \<open>IterBackward\<close> and \<open>Iter\<close> follow \<open>previous\<close> and \<open>next\<close> until there is no further chunk; the
  iterator is the list of chunks it yields. The number of cells allocated so far bounds the walk.
\<close>

fun iter_backward :: "nat \<Rightarrow> addr option \<Rightarrow> ('i, 'g) linked_chunk \<Rightarrow> ('i, 'g) chunk list run" where
  "iter_backward fuel None lc = Done []"
| "iter_backward 0 (Some a) lc = Stuck"
| "iter_backward (Suc fuel) (Some a) lc =
     run_bind (deref a lc) (\<lambda>c.
     run_bind (iter_backward fuel (previous c) lc) (\<lambda>cs. Done (c # cs)))"

fun iter_forward :: "nat \<Rightarrow> addr option \<Rightarrow> ('i, 'g) linked_chunk \<Rightarrow> ('i, 'g) chunk list run" where
  "iter_forward fuel None lc = Done []"
| "iter_forward 0 (Some a) lc = Stuck"
| "iter_forward (Suc fuel) (Some a) lc =
     run_bind (deref a lc) (\<lambda>c.
     run_bind (iter_forward fuel (next_chunk c) lc) (\<lambda>cs. Done (c # cs)))"

definition rchunks :: "('i, 'g) linked_chunk \<Rightarrow> ('i, 'g) chunk list run" where
  "rchunks lc = iter_backward (brk lc) (Some (latest_chunk_ptr lc)) lc"

definition chunks :: "('i, 'g) linked_chunk \<Rightarrow> ('i, 'g) chunk list run" where
  "chunks lc = iter_forward (brk lc) (Some (links_first lc)) lc"

definition rchunks_from ::
  "chunk_id \<Rightarrow> ('i, 'g) linked_chunk \<Rightarrow> (lc_error + ('i, 'g) chunk list) run" where
  "rchunks_from i lc =
     run_bind (chunk_mut i lc) (\<lambda>found.
     case found of
       None \<Rightarrow> Done (Inl (InvalidChunkIdentifier i))
     | Some a \<Rightarrow> run_bind (iter_backward (brk lc) (Some a) lc) (\<lambda>cs. Done (Inr cs)))"

definition chunks_from ::
  "chunk_id \<Rightarrow> ('i, 'g) linked_chunk \<Rightarrow> (lc_error + ('i, 'g) chunk list) run" where
  "chunks_from i lc =
     run_bind (chunk_mut i lc) (\<lambda>found.
     case found of
       None \<Rightarrow> Done (Inl (InvalidChunkIdentifier i))
     | Some a \<Rightarrow> run_bind (iter_forward (brk lc) (Some a) lc) (\<lambda>cs. Done (Inr cs)))"

definition enumerate_items :: "chunk_id \<Rightarrow> ('i, 'g) chunk_content \<Rightarrow> (position \<times> 'i) list" where
  "enumerate_items i c =
     (case c of Gap _ \<Rightarrow> [] | Items xs \<Rightarrow> map (\<lambda>(k, x). (Position i k, x)) (enumerate 0 xs))"

definition ritems_from ::
  "position \<Rightarrow> ('i, 'g) linked_chunk \<Rightarrow> (lc_error + (position \<times> 'i) list) run" where
  "ritems_from pos lc =
     run_bind (rchunks_from (position_chunk pos) lc) (\<lambda>r.
     Done (map_sum id (\<lambda>cs.
       dropWhile (\<lambda>(p, _). position_index p \<noteq> position_index pos)
         (concat (map (\<lambda>c. rev (enumerate_items (ident c) (content c))) cs))) r))"

definition items_from ::
  "position \<Rightarrow> ('i, 'g) linked_chunk \<Rightarrow> (lc_error + (position \<times> 'i) list) run" where
  "items_from pos lc =
     run_bind (chunks_from (position_chunk pos) lc) (\<lambda>r.
     Done (map_sum id (\<lambda>cs.
       drop (position_index pos) (concat (map (\<lambda>c. enumerate_items (ident c) (content c)) cs))) r))"

definition expect_ok :: "('e + 'a) run \<Rightarrow> 'a run" where
  "expect_ok m = run_bind m (\<lambda>r. case r of Inl _ \<Rightarrow> Panic | Inr x \<Rightarrow> Done x)"

definition ritems :: "('i, 'g) linked_chunk \<Rightarrow> (position \<times> 'i) list run" where
  "ritems lc =
     run_bind (latest_chunk lc) (\<lambda>c. expect_ok (ritems_from (last_position c) lc))"

definition lc_items :: "('i, 'g) linked_chunk \<Rightarrow> (position \<times> 'i) list run" where
  "lc_items lc =
     run_bind (first_chunk lc) (\<lambda>c. expect_ok (items_from (first_position c) lc))"

definition find_chunk_identifier ::
  "(('i, 'g) chunk \<Rightarrow> bool) \<Rightarrow> ('i, 'g) linked_chunk \<Rightarrow> chunk_id option run" where
  "find_chunk_identifier pred lc =
     run_bind (rchunks lc) (\<lambda>cs. Done (map_option ident (List.find pred cs)))"

definition item_position :: "('i \<Rightarrow> bool) \<Rightarrow> ('i, 'g) linked_chunk \<Rightarrow> position option run" where
  "item_position pred lc =
     run_bind (ritems lc) (\<lambda>xs. Done (map_option fst (List.find (\<lambda>(_, x). pred x) xs)))"

subsection \<open>Drop\<close>

fun drop_loop :: "nat \<Rightarrow> addr option \<Rightarrow> ('i, 'g) linked_chunk \<Rightarrow> ('i, 'g) linked_chunk run" where
  "drop_loop fuel None lc = Done lc"
| "drop_loop 0 (Some a) lc = Stuck"
| "drop_loop (Suc fuel) (Some a) lc =
     run_bind (deref a lc) (\<lambda>c.
     run_bind (case previous c of
                 None \<Rightarrow> Done lc
               | Some p \<Rightarrow> modify p (\<lambda>x. x\<lparr>next_chunk := None\<rparr>) lc) (\<lambda>lc.
     run_bind (reclaim a lc) (\<lambda>lc.
     drop_loop fuel (previous c) lc)))"

definition drop_linked_chunk :: "('i, 'g) linked_chunk \<Rightarrow> ('i, 'g) linked_chunk run" where
  "drop_linked_chunk lc = drop_loop (brk lc) (Some (latest_chunk_ptr lc)) lc"

end
