(* ===== verification/Linked_Chunk_Spec.thy ===== *)
theory Linked_Chunk_Spec
  imports Linked_Chunk
begin

text \<open>
  The abstract specification of a linked chunk: a list of chunks (identifier and content) and the
  last identifier given out. \<open>lc_step\<close> is one successful operation together with the updates it
  logs; \<open>op_outcome\<close> says which operations succeed, fail or panic; \<open>chunks_wf\<close> is the data
  invariant; \<open>op_items\<close> is the effect on the sequence of items. The lemmas show that the steps keep
  the invariant and have exactly that effect.
\<close>

section \<open>Items of a list of chunks\<close>

definition content_items :: "('i, 'g) chunk_content \<Rightarrow> 'i list" where
  "content_items c = (case c of Gap _ \<Rightarrow> [] | Items xs \<Rightarrow> xs)"

definition items_of :: "('i, 'g) achunk list \<Rightarrow> 'i list" where
  "items_of cs = concat (map (\<lambda>c. content_items (snd c)) cs)"

fun item_offset :: "('i, 'g) achunk list \<Rightarrow> position \<Rightarrow> nat option" where
  "item_offset [] p = None"
| "item_offset ((i, c) # cs) p =
     (if i = position_chunk p then Some (position_index p)
      else map_option (\<lambda>n. length (content_items c) + n) (item_offset cs p))"

lemma content_items_simps [simp]: "content_items (Gap g) = []" "content_items (Items xs) = xs"
  by (simp_all add: content_items_def)

lemma items_of_simps [simp]:
  "items_of [] = []" "items_of (c # cs) = content_items (snd c) @ items_of cs"
  "items_of (cs @ ds) = items_of cs @ items_of ds"
  by (simp_all add: items_of_def)

lemma item_offset_append:
  "position_chunk p \<notin> fst ` set cs \<Longrightarrow>
   item_offset (cs @ ds) p = map_option (\<lambda>n. length (items_of cs) + n) (item_offset ds p)"
  by (cases "item_offset ds p"; induction cs) auto

section \<open>Specification of the operations\<close>

datatype ('i, 'g) lc_op =
    OpPushItems "'i list"
  | OpPushGap 'g
  | OpInsertItems "'i list" position
  | OpRemoveItem position
  | OpInsertGap 'g position
  | OpReplaceGap "'i list" chunk_id

inductive lc_step ::
  "nat \<Rightarrow> ('i, 'g) achunk list \<times> chunk_id \<Rightarrow> ('i, 'g) lc_op \<Rightarrow> ('i, 'g) update list
   \<Rightarrow> ('i, 'g) achunk list \<times> chunk_id \<Rightarrow> bool"
  for cap where
  push_back:
    "pushes cap None g c items zs us g' \<Longrightarrow>
     lc_step cap (A @ [c], g) (OpPushItems items) us (A @ zs, g')"
| push_gap:
    "g \<noteq> - 1 \<Longrightarrow>
     lc_step cap (A @ [(i, c)], g) (OpPushGap x) [NewGapChunk (Some i) (g + 1) None x]
       (A @ [(i, c), (g + 1, Gap x)], g + 1)"
| insert_end:
    "pushes cap (head_id B) g (i, Items ys) items zs us g' \<Longrightarrow> k = length ys \<Longrightarrow>
     lc_step cap (A @ (i, Items ys) # B, g) (OpInsertItems items (Position i k)) us (A @ zs @ B, g')"
| insert_mid:
    "k < length ys \<Longrightarrow>
     pushes cap (head_id B) g (i, Items (take k ys)) items (zs @ [z]) us g' \<Longrightarrow>
     pushes cap (head_id B) g' z (drop k ys) ws vs g'' \<Longrightarrow>
     lc_step cap (A @ (i, Items ys) # B, g) (OpInsertItems items (Position i k))
       (DetachLastItems (Position i k) # us @ StartReattachItems # vs @ [EndReattachItems])
       (A @ zs @ ws @ B, g'')"
| remove_keep:
    "k < length ys \<Longrightarrow> ys' = take k ys @ drop (Suc k) ys \<Longrightarrow> ys' \<noteq> [] \<or> A = [] \<Longrightarrow>
     lc_step cap (A @ (i, Items ys) # B, g) (OpRemoveItem (Position i k)) [RemoveItem (Position i k)]
       (A @ (i, Items ys') # B, g)"
| remove_unlink:
    "A \<noteq> [] \<Longrightarrow>
     lc_step cap (A @ (i, Items [y]) # B, g) (OpRemoveItem (Position i 0))
       [RemoveItem (Position i 0), RemoveChunk i] (A @ B, g)"
| gap_before:
    "g \<noteq> - 1 \<Longrightarrow>
     lc_step cap (A @ (j, d) # (i, Items ys) # B, g) (OpInsertGap x (Position i 0))
       [NewGapChunk (Some j) (g + 1) (Some i) x]
       (A @ (j, d) # (g + 1, Gap x) # (i, Items ys) # B, g + 1)"
| gap_split:
    "0 < k \<or> A = [] \<Longrightarrow> k < length ys \<Longrightarrow> g \<noteq> - 1 \<Longrightarrow> g + 1 \<noteq> - 1 \<Longrightarrow>
     pushes cap (head_id B) (g + 1 + 1) (g + 1 + 1, Items []) (drop k ys) ws us g' \<Longrightarrow>
     lc_step cap (A @ (i, Items ys) # B, g) (OpInsertGap x (Position i k))
       ([DetachLastItems (Position i k), NewGapChunk (Some i) (g + 1) (head_id B) x,
         StartReattachItems, NewItemsChunk (Some (g + 1)) (g + 1 + 1) (head_id B)]
        @ us @ [EndReattachItems])
       (A @ (i, Items (take k ys)) # (g + 1, Gap x) # ws @ B, g')"
| replace_gap:
    "A \<noteq> [] \<Longrightarrow> g \<noteq> - 1 \<Longrightarrow>
     pushes cap (head_id B) (g + 1) (g + 1, Items []) items ws us g' \<Longrightarrow>
     lc_step cap (A @ (i, Gap x) # B, g) (OpReplaceGap items i)
       (NewItemsChunk (Some i) (g + 1) (head_id B) # us @ [RemoveChunk i]) (A @ ws @ B, g')"

text \<open>Which operations succeed: \<open>Ok_op\<close>, an error result, or a panic of the debug build.\<close>

datatype op_result = Ok_op | Err_op lc_error | Panic_op

fun op_outcome :: "('i, 'g) achunk list \<Rightarrow> ('i, 'g) lc_op \<Rightarrow> op_result" where
  "op_outcome cs (OpPushItems items) = Ok_op"
| "op_outcome cs (OpPushGap x) = Ok_op"
| "op_outcome cs (OpInsertItems items p) =
     (case map_of cs (position_chunk p) of
        None \<Rightarrow> Err_op (InvalidChunkIdentifier (position_chunk p))
      | Some (Gap _) \<Rightarrow> Err_op (ChunkIsAGap (position_chunk p))
      | Some (Items ys) \<Rightarrow>
          (if length ys < position_index p then Err_op (InvalidItemIndex (position_index p)) else Ok_op))"
| "op_outcome cs (OpRemoveItem p) =
     (case map_of cs (position_chunk p) of
        None \<Rightarrow> Err_op (InvalidChunkIdentifier (position_chunk p))
      | Some (Gap _) \<Rightarrow> Err_op (ChunkIsAGap (position_chunk p))
      | Some (Items ys) \<Rightarrow>
          (if length ys < position_index p then Err_op (InvalidItemIndex (position_index p))
           else if position_index p = length ys then Panic_op else Ok_op))"
| "op_outcome cs (OpInsertGap x p) =
     (case map_of cs (position_chunk p) of
        None \<Rightarrow> Err_op (InvalidChunkIdentifier (position_chunk p))
      | Some (Gap _) \<Rightarrow> Err_op (ChunkIsAGap (position_chunk p))
      | Some (Items ys) \<Rightarrow>
          (if position_index p = 0 \<and> fst (hd cs) \<noteq> position_chunk p then Ok_op
           else if length ys \<le> position_index p then Err_op (InvalidItemIndex (position_index p))
           else Ok_op))"
| "op_outcome cs (OpReplaceGap items i) =
     (case map_of cs i of
        None \<Rightarrow> Err_op (InvalidChunkIdentifier i)
      | Some c \<Rightarrow>
          (if fst (hd cs) = i then Panic_op
           else (case c of Items _ \<Rightarrow> Err_op (ChunkIsItems i) | Gap _ \<Rightarrow> Ok_op)))"

text \<open>The effect of a successful operation on the sequence of items.\<close>

fun op_items :: "('i, 'g) achunk list \<Rightarrow> ('i, 'g) lc_op \<Rightarrow> 'i list" where
  "op_items cs (OpPushItems items) = items_of cs @ items"
| "op_items cs (OpPushGap x) = items_of cs"
| "op_items cs (OpInsertItems items p) =
     (case item_offset cs p of
        None \<Rightarrow> items_of cs
      | Some n \<Rightarrow> take n (items_of cs) @ items @ drop n (items_of cs))"
| "op_items cs (OpRemoveItem p) =
     (case item_offset cs p of
        None \<Rightarrow> items_of cs
      | Some n \<Rightarrow> take n (items_of cs) @ drop (Suc n) (items_of cs))"
| "op_items cs (OpInsertGap x p) = items_of cs"
| "op_items cs (OpReplaceGap items i) =
     (case item_offset cs (Position i 0) of
        None \<Rightarrow> items_of cs
      | Some n \<Rightarrow> take n (items_of cs) @ items @ drop n (items_of cs))"

section \<open>The data invariant\<close>

text \<open>
  The first chunk holds items, identifiers are distinct and at most the last one given out, and no
  chunk exceeds the capacity.
\<close>

definition is_items_chunk :: "('i, 'g) achunk \<Rightarrow> bool" where
  "is_items_chunk c = (case snd c of Gap _ \<Rightarrow> False | Items _ \<Rightarrow> True)"

definition chunks_wf :: "nat \<Rightarrow> chunk_id \<Rightarrow> ('i, 'g) achunk list \<Rightarrow> bool" where
  "chunks_wf cap g cs \<longleftrightarrow>
     cs \<noteq> [] \<and> is_items_chunk (hd cs) \<and> distinct (map fst cs) \<and>
     (\<forall>c \<in> set cs. fst c \<le> g \<and> length (content_items (snd c)) \<le> cap)"

lemma pushes_items: "pushes cap nxt g c items zs us g' \<Longrightarrow> items_of zs = content_items (snd c) @ items"
  by (induction rule: pushes.induct) auto

lemma pushes_head:
  "pushes cap nxt g c items zs us g' \<Longrightarrow>
   zs \<noteq> [] \<and> fst (hd zs) = fst c \<and> is_items_chunk (hd zs) = is_items_chunk c"
  by (induction rule: pushes.induct) (auto simp: is_items_chunk_def)

lemma pushes_cap:
  "pushes cap nxt g c items zs us g' \<Longrightarrow> length (content_items (snd c)) \<le> cap \<Longrightarrow>
   z \<in> set zs \<Longrightarrow> length (content_items (snd z)) \<le> cap"
  by (induction rule: pushes.induct) auto

lemma word_less_plus_one: "(g :: 'w::len word) \<noteq> - 1 \<Longrightarrow> g < g + 1"
  by (simp add: word_less_nat_alt unat_plus_one_word)

text \<open>New chunks get fresh identifiers, increasing from the last one given out.\<close>

lemma pushes_ids:
  "pushes cap nxt g c items zs us g' \<Longrightarrow>
   g \<le> g' \<and> distinct (map fst (tl zs)) \<and> (\<forall>z \<in> set (tl zs). g < fst z \<and> fst z \<le> g')"
proof (induction rule: pushes.induct)
  case (on_gap items g cs us g' i x)
  then show ?case
    using pushes_head [OF on_gap.hyps(3)] word_less_plus_one [OF on_gap.hyps(2)]
    by (cases cs) (auto simp: order_less_le_trans dest: order_less_trans order_less_imp_le)
next
  case (overflows xs items g free cs us g' i)
  then show ?case
    using pushes_head [OF overflows.hyps(4)] word_less_plus_one [OF overflows.hyps(2)]
    by (cases cs) (auto simp: order_less_le_trans dest: order_less_trans order_less_imp_le)
qed auto

text \<open>Pushing consumes at most one identifier per item, and one more for a gap or a full chunk.\<close>

lemma pushes_gen:
  "pushes cap nxt g c items zs us g' \<Longrightarrow> 0 < cap \<Longrightarrow>
   unat g' + (if items = [] \<or> (\<exists>i xs. c = (i, Items xs) \<and> length xs < cap) then 1 else 0)
     \<le> unat g + length items + 1"
proof (induction rule: pushes.induct)
  case (on_gap items g cs us g' i x)
  then show ?case by (simp add: unat_plus_one_word)
next
  case (overflows xs items g free cs us g' i)
  then show ?case by (auto simp: unat_plus_one_word split: if_splits)
qed auto

lemma pushes_gen_le:
  "pushes cap nxt g c items zs us g' \<Longrightarrow> 0 < cap \<Longrightarrow> unat g' \<le> unat g + length items + 1"
  using pushes_gen [of cap nxt g c items zs us g'] by (auto split: if_splits)

lemma pushes_wf:
  assumes "pushes cap nxt g c items zs us g'" and "chunks_wf cap g (A @ c # B)"
  shows "chunks_wf cap g' (A @ zs @ B)"
proof -
  obtain z ts where zs: "zs = z # ts" "fst z = fst c" "is_items_chunk z = is_items_chunk c"
    using pushes_head [OF assms(1)] by (cases zs) auto
  have ids: "g \<le> g'" "distinct (map fst ts)" "\<forall>t \<in> set ts. g < fst t \<and> fst t \<le> g'"
    using pushes_ids [OF assms(1)] zs by auto
  have cap: "\<forall>t \<in> set zs. length (content_items (snd t)) \<le> cap"
    using pushes_cap [OF assms(1)] assms(2) by (auto simp: chunks_wf_def)
  have old: "\<forall>t \<in> set (A @ c # B). fst t \<le> g \<and> length (content_items (snd t)) \<le> cap"
    using assms(2) by (auto simp: chunks_wf_def)
  have "fst ` set ts \<inter> fst ` set (A @ c # B) = {}" using old ids(3) by fastforce
  then have "distinct (map fst (A @ zs @ B))"
    using assms(2) zs ids(2) by (auto simp: chunks_wf_def)
  moreover have "is_items_chunk (hd (A @ zs @ B))"
    using assms(2) zs by (cases A) (auto simp: chunks_wf_def)
  moreover have "\<forall>t \<in> set (A @ zs @ B). fst t \<le> g' \<and> length (content_items (snd t)) \<le> cap"
    using old ids(1,3) cap zs by (auto intro: order_trans)
  ultimately show ?thesis using zs by (simp add: chunks_wf_def)
qed

lemma chunks_wf_new:
  assumes "chunks_wf cap g (A @ c # B)" and "g \<noteq> - 1" and "length (content_items d) \<le> cap"
  shows "chunks_wf cap (g + 1) (A @ c # (g + 1, d) # B)"
proof -
  have lt: "\<forall>t \<in> set (A @ c # B). fst t < g + 1 \<and> length (content_items (snd t)) \<le> cap"
    using assms(1) word_less_plus_one [OF assms(2)] by (auto simp: chunks_wf_def intro: order_le_less_trans)
  then have "g + 1 \<notin> fst ` set (A @ c # B)" by fastforce
  then have "distinct (map fst (A @ c # (g + 1, d) # B))"
    using assms(1) by (auto simp: chunks_wf_def)
  moreover have "is_items_chunk (hd (A @ c # (g + 1, d) # B))"
    using assms(1) by (cases A) (auto simp: chunks_wf_def)
  ultimately show ?thesis using lt assms(3) unfolding chunks_wf_def by (auto intro: order_less_imp_le)
qed

lemma chunks_wf_shrink:
  "chunks_wf cap g (A @ (i, Items ys) # B) \<Longrightarrow> length ys' \<le> length ys \<Longrightarrow>
   chunks_wf cap g (A @ (i, Items ys') # B)"
  by (cases A) (auto simp: chunks_wf_def is_items_chunk_def)

lemma chunks_wf_remove: "A \<noteq> [] \<Longrightarrow> chunks_wf cap g (A @ c # B) \<Longrightarrow> chunks_wf cap g (A @ B)"
  by (cases A) (auto simp: chunks_wf_def)

theorem lc_step_wf:
  assumes "lc_step cap (cs, g) op us (cs', g')" and "chunks_wf cap g cs"
  shows "chunks_wf cap g' cs'"
  using assms
proof cases
  case (push_back c items zs A)
  with assms(2) pushes_wf [of cap None g c items zs us g' A "[]"] show ?thesis by simp
next
  case (push_gap A i c x)
  with assms(2) chunks_wf_new [of cap g A "(i, c)" "[]" "Gap x"] show ?thesis by simp
next
  case (insert_end B i ys items zs k A)
  with assms(2) pushes_wf [of cap "head_id B" g "(i, Items ys)" items zs us g' A B] show ?thesis by simp
next
  case (insert_mid k ys B i items zs z us1 g1 ws us2 A)
  have "chunks_wf cap g1 (A @ (zs @ [z]) @ B)"
    using insert_mid assms(2) chunks_wf_shrink [of cap g A i ys B "take k ys"]
    by (intro pushes_wf [OF insert_mid(6)]) simp
  then show ?thesis using insert_mid pushes_wf [OF insert_mid(7), of "A @ zs" B] by simp
next
  case (remove_keep k ys ys' A i B)
  then show ?thesis using assms(2) chunks_wf_shrink [of cap g A i ys B ys'] by simp
next
  case (remove_unlink A i y B)
  then show ?thesis using assms(2) chunks_wf_remove by blast
next
  case (gap_before A j d i ys B x)
  then show ?thesis using assms(2) chunks_wf_new [of cap g A "(j, d)" "(i, Items ys) # B" "Gap x"] by simp
next
  case (gap_split k A ys B ws us1 i x)
  have "chunks_wf cap (g + 1) (A @ (i, Items (take k ys)) # (g + 1, Gap x) # B)"
    using gap_split assms(2) chunks_wf_shrink [of cap g A i ys B "take k ys"]
    by (intro chunks_wf_new) auto
  then have "chunks_wf cap (g + 1 + 1)
      ((A @ [(i, Items (take k ys))]) @ (g + 1, Gap x) # (g + 1 + 1, Items []) # B)"
    using gap_split by (intro chunks_wf_new) auto
  then show ?thesis
    using gap_split pushes_wf [OF gap_split(9), of "A @ [(i, Items (take k ys)), (g + 1, Gap x)]" B] by simp
next
  case (replace_gap A B items ws us1 i x)
  have "chunks_wf cap (g + 1) (A @ (i, Gap x) # (g + 1, Items []) # B)"
    using replace_gap assms(2) by (intro chunks_wf_new) auto
  then have "chunks_wf cap (g + 1) (A @ (g + 1, Items []) # B)"
    using replace_gap chunks_wf_remove by blast
  then show ?thesis using replace_gap pushes_wf by blast
qed

text \<open>The effect of the steps on the sequence of items.\<close>

lemma item_offset_here:
  "distinct (map fst (A @ (i, c) # B)) \<Longrightarrow>
   item_offset (A @ (i, c) # B) (Position i k) = Some (length (items_of A) + k)"
  by (subst item_offset_append) auto

theorem lc_step_items:
  assumes "lc_step cap (cs, g) op us (cs', g')" and "chunks_wf cap g cs"
  shows "items_of cs' = op_items cs op"
proof -
  have d: "distinct (map fst cs)" using assms(2) by (simp add: chunks_wf_def)
  from assms(1) show ?thesis
  proof cases
    case (push_back c items zs A)
    then show ?thesis using pushes_items [OF push_back(4)] by simp
  next
    case (insert_end B i ys items zs k A)
    then show ?thesis using d pushes_items [OF insert_end(4)] by (simp add: item_offset_here)
  next
    case (insert_mid k ys B i items zs z us1 g1 ws us2 A)
    then show ?thesis
      using d pushes_items [OF insert_mid(6)] pushes_items [OF insert_mid(7)]
      by (simp add: item_offset_here)
  next
    case (gap_split k A ys B ws us1 i x)
    then show ?thesis using pushes_items [OF gap_split(9)] by simp
  next
    case (replace_gap A B items ws us1 i x)
    then show ?thesis using d pushes_items [OF replace_gap(7)] by (simp add: item_offset_here)
  qed (use d in \<open>auto simp: item_offset_here Suc_diff_le\<close>)
qed

end
