(* ===== verification/Linked_Chunk_Refinement.thy ===== *)
theory Linked_Chunk_Refinement
  imports Linked_Chunk_Spec
begin

text \<open>
  The pointer implementation of \<open>LinkedChunk\<close> refines the abstract steps of \<open>Linked_Chunk_Spec\<close>:
  from a heap that represents a list of chunks, every operation returns (no undefined behaviour, no
  loop that does not end), and either fails with the specified error and changes nothing, or
  performs an abstract step, logs its updates and leaves a heap that represents the new list and
  holds no other cell.
\<close>

section \<open>The representation\<close>

definition lc_rel :: "nat \<Rightarrow> ('i, 'g) linked_chunk \<Rightarrow> ('i, 'g) node list \<Rightarrow> bool" where
  "lc_rel cap lc xs \<longleftrightarrow>
     store_ok lc xs \<and> links_first lc = fst (hd xs) \<and> latest_chunk_ptr lc = fst (last xs) \<and>
     chunks_wf cap (generator lc) (map snd xs) \<and> lc_length lc = length (items_of (map snd xs)) \<and>
     (\<forall>l. lc_updates lc = Some l \<longrightarrow> updates_wf l)"

lemma lc_rel_nonempty: "lc_rel cap lc xs \<Longrightarrow> xs \<noteq> []"
  by (auto simp: lc_rel_def chunks_wf_def)

lemma lc_rel_unfold:
  assumes "lc_rel cap lc xs"
  shows lc_rel_store: "store_ok lc xs" and lc_rel_first: "links_first lc = fst (hd xs)"
    and lc_rel_last: "latest_chunk_ptr lc = fst (last xs)"
    and lc_rel_wf: "chunks_wf cap (generator lc) (map snd xs)"
    and lc_rel_length: "lc_length lc = length (items_of (map snd xs))"
    and lc_rel_updates: "\<forall>l. lc_updates lc = Some l \<longrightarrow> updates_wf l"
  using assms unfolding lc_rel_def by blast+

lemma logged_wf:
  "logged us lc lc' \<Longrightarrow> \<forall>l. lc_updates lc = Some l \<longrightarrow> updates_wf l \<Longrightarrow>
   \<forall>l. lc_updates lc' = Some l \<longrightarrow> updates_wf l"
  by (auto simp: logged_def updates_log.pushes_unread)

definition step_ok ::
  "nat \<Rightarrow> ('i, 'g) lc_op \<Rightarrow> ('i, 'g) linked_chunk \<Rightarrow> ('i, 'g) node list
   \<Rightarrow> ('i, 'g) linked_chunk \<Rightarrow> bool" where
  "step_ok cap op lc xs lc' \<longleftrightarrow>
     (\<exists>xs' us. lc_rel cap lc' xs' \<and> logged us lc lc' \<and>
        lc_step cap (map snd xs, generator lc) op us (map snd xs', generator lc'))"

lemma step_relI:
  assumes "lc_rel cap lc xs" "store_ok lc' xs'" "links_first lc' = fst (hd xs')"
    "latest_chunk_ptr lc' = fst (last xs')" "lc_length lc' = length (items_of (map snd xs'))"
    "lc_step cap (map snd xs, generator lc) op us (map snd xs', generator lc')" "logged us lc lc'"
  shows "lc_rel cap lc' xs'"
proof -
  have "chunks_wf cap (generator lc') (map snd xs')"
    by (rule lc_step_wf [OF assms(6) lc_rel_wf [OF assms(1)]])
  moreover have "\<forall>l. lc_updates lc' = Some l \<longrightarrow> updates_wf l"
    by (rule logged_wf [OF assms(7) lc_rel_updates [OF assms(1)]])
  ultimately show ?thesis unfolding lc_rel_def using assms(2-5) by blast
qed

lemma step_okI:
  assumes "lc_rel cap lc xs" "store_ok lc' xs'" "links_first lc' = fst (hd xs')"
    "latest_chunk_ptr lc' = fst (last xs')" "lc_length lc' = length (items_of (map snd xs'))"
    "lc_step cap (map snd xs, generator lc) op us (map snd xs', generator lc')" "logged us lc lc'"
  shows "step_ok cap op lc xs lc'"
  unfolding step_ok_def using step_relI [OF assms] assms(6,7) by blast

lemma latest_chunk_ptr_same: "same_links lc lc' \<Longrightarrow> latest_chunk_ptr lc' = latest_chunk_ptr lc"
  by (simp add: same_links_def latest_chunk_ptr_def split: option.splits)

lemma latest_chunk_ptr_update [simp]:
  "latest_chunk_ptr (lc\<lparr>links_last := Some p\<rparr>) = p"
  "latest_chunk_ptr (lc\<lparr>lc_length := n\<rparr>) = latest_chunk_ptr lc"
  "latest_chunk_ptr (lc\<lparr>heap := h\<rparr>) = latest_chunk_ptr lc"
  "latest_chunk_ptr (push_update u lc) = latest_chunk_ptr lc"
  by (simp_all add: latest_chunk_ptr_def split: option.splits)

section \<open>Finding chunks\<close>

lemma find_rev_distinct:
  assumes "distinct (map (\<lambda>y. fst (snd y)) xs)" "x \<in> set xs"
  shows "List.find (\<lambda>y. fst (snd y) = fst (snd x)) (rev xs) = Some x"
  using assms
proof (induction xs rule: rev_induct)
  case (snoc y xs)
  then show ?case by (cases "x = y") force+
qed simp

lemma chunk_mut_find:
  assumes "lc_rel cap lc xs"
  shows "chunk_mut i lc = Done (map_option fst (List.find (\<lambda>y. fst (snd y) = i) (rev xs)))"
proof -
  obtain ys y where xs: "xs = ys @ [y]" using lc_rel_nonempty [OF assms] by (cases xs rule: rev_cases) auto
  have ok: "store_ok lc xs" and l: "latest_chunk_ptr lc = fst y"
    using assms xs by (auto simp: lc_rel_def)
  have "length ys < brk lc" using store_ok_length [OF ok] xs by simp
  moreover have "dll (heap lc) None (ys @ [y]) None" using ok xs by (simp add: store_ok_def)
  ultimately show ?thesis using chunk_loop_dll l xs by (metis chunk_mut_def)
qed

lemma chunk_mut_found:
  assumes "lc_rel cap lc (xs @ (a, i, c) # ys)"
  shows "chunk_mut i lc = Done (Some a)"
proof -
  have "distinct (map fst (map snd (xs @ (a, i, c) # ys)))" using assms by (auto simp: lc_rel_def chunks_wf_def)
  then have "distinct (map (\<lambda>y. fst (snd y)) (xs @ (a, i, c) # ys))" by (simp add: comp_def)
  from find_rev_distinct [OF this, of "(a, i, c)"] chunk_mut_find [OF assms, of i] show ?thesis by simp
qed

lemma chunk_mut_missing:
  assumes "lc_rel cap lc xs" and "map_of (map snd xs) i = None"
  shows "chunk_mut i lc = Done None"
proof -
  have "List.find (\<lambda>y. fst (snd y) = i) (rev xs) = None"
    using assms(2) by (auto simp: find_None_iff map_of_eq_None_iff image_iff)
  then show ?thesis using chunk_mut_find [OF assms(1), of i] by simp
qed

lemma map_of_nodes:
  assumes "map_of (map snd xs) i = Some c"
  obtains A a B where "xs = A @ (a, i, c) # B"
proof -
  have "(i, c) \<in> set (map snd xs)" using assms by (rule map_of_SomeD)
  then obtain a where "(a, i, c) \<in> set xs" by auto
  with that show thesis by (meson split_list)
qed

lemma lc_relD:
  assumes "lc_rel cap lc (xs @ (a, i, c) # ys)"
  shows "store_ok lc (xs @ (a, i, c) # ys)" "chunks_wf cap (generator lc) (map snd xs @ (i, c) # map snd ys)"
    "heap lc a = Some \<lparr>previous = last_addr xs None, next_chunk = head_addr ys None, ident = i, content = c\<rparr>"
    "chunk_mut i lc = Done (Some a)" "map_of (map snd (xs @ (a, i, c) # ys)) i = Some c"
proof -
  show "store_ok lc (xs @ (a, i, c) # ys)" using assms by (simp add: lc_rel_def)
  then show "heap lc a = Some \<lparr>previous = last_addr xs None, next_chunk = head_addr ys None, ident = i, content = c\<rparr>"
    by (rule store_okD)
  show wf: "chunks_wf cap (generator lc) (map snd xs @ (i, c) # map snd ys)" using assms by (simp add: lc_rel_def)
  show "chunk_mut i lc = Done (Some a)" using assms by (rule chunk_mut_found)
  have "distinct (map fst (map snd (xs @ (a, i, c) # ys)))" using wf by (auto simp: chunks_wf_def comp_def)
  then show "map_of (map snd (xs @ (a, i, c) # ys)) i = Some c"
    by (intro map_of_is_SomeI) auto
qed

section \<open>Pushing at the back\<close>

lemma last_addr_None_iff [simp]: "last_addr xs p = None \<longleftrightarrow> xs = [] \<and> p = None"
  by (simp add: last_addr_def)

lemma push_itemsE:
  assumes "0 < cap" and "store_ok lc (xs @ (a, i, c) # ys)"
    and "unat (generator lc) + length items + 2 \<le> 2 ^ 64"
  obtains p lc' bs j d us where "push_items cap a items lc = Done (p, lc')"
    "pushes cap (head_id (map snd ys)) (generator lc) (i, c) items (map snd (bs @ [(p, j, d)])) us (generator lc')"
    "store_ok lc' ((xs @ bs) @ (p, j, d) # ys)" "fst (hd (bs @ [(p, j, d)])) = a"
    "logged us lc lc'" "same_links lc lc'"
proof -
  have "push_post cap xs (a, i, c) ys items lc (push_items cap a items lc)"
    unfolding push_items_def using assms(1-3) push_need_le [of cap c items]
    by (intro push_items_loop_pushes) linarith+
  then obtain p lc' zs us where r: "push_items cap a items lc = Done (p, lc')"
    "pushes cap (head_id (map snd ys)) (generator lc) (i, c) items (map snd zs) us (generator lc')"
    "store_ok lc' (xs @ zs @ ys)" "zs \<noteq> []" "fst (hd zs) = a" "fst (last zs) = p"
    "logged us lc lc'" "same_links lc lc'"
    by (auto simp: push_post_def)
  from r(4,6) obtain bs j d where "zs = bs @ [(p, j, d)]" by (cases zs rule: rev_cases) auto
  with r that show thesis by simp
qed

lemma push_items_back_step:
  assumes rel: "lc_rel cap lc xs" and "0 < cap"
    and gen: "unat (generator lc) + length items + 2 \<le> 2 ^ 64"
  shows "\<exists>lc'. push_items_back cap items lc = Done lc' \<and> step_ok cap (OpPushItems items) lc xs lc'"
proof -
  obtain ys a i c where xs: "xs = ys @ (a, i, c) # []"
    using lc_rel_nonempty [OF rel] by (cases xs rule: rev_cases) auto
  have ptr: "latest_chunk_ptr lc = a" using rel xs by (simp add: lc_rel_def)
  note D = lc_relD [OF rel [unfolded xs]]
  obtain p lc1 bs j d us where r: "push_items cap a items lc = Done (p, lc1)"
    "pushes cap None (generator lc) (i, c) items (map snd (bs @ [(p, j, d)])) us (generator lc1)"
    "store_ok lc1 ((ys @ bs) @ (p, j, d) # [])" "fst (hd (bs @ [(p, j, d)])) = a"
    "logged us lc lc1" "same_links lc lc1"
    by (rule push_itemsE [OF \<open>0 < cap\<close> D(1) gen, simplified list.map(1) head_id_simps])
  let ?lc = "if ys @ bs = [] then lc1 else lc1\<lparr>links_last := Some p\<rparr>"
  let ?lc' = "?lc\<lparr>lc_length := lc_length ?lc + length items\<rparr>"
  have "push_items_back cap items lc = Done ?lc'"
    using r(1) store_okD(1) [OF r(3)] ptr
    by (simp add: push_items_back_def deref_def debug_assert_def is_last_chunk_def is_first_chunk_def Let_def)
  moreover have "step_ok cap (OpPushItems items) lc xs ?lc'"
  proof (rule step_okI [OF rel, where xs' = "ys @ bs @ [(p, j, d)]"])
    show "links_first ?lc' = fst (hd (ys @ bs @ [(p, j, d)]))"
      using rel r(4,6) xs by (cases ys) (auto simp: lc_rel_def same_links_def)
    show "latest_chunk_ptr ?lc' = fst (last (ys @ bs @ [(p, j, d)]))"
      using ptr r(4) latest_chunk_ptr_same [OF r(6)] by auto
    show "lc_step cap (map snd xs, generator lc) (OpPushItems items) us
        (map snd (ys @ bs @ [(p, j, d)]), generator ?lc')"
      using lc_step.push_back [OF r(2), of "map snd ys"] xs by (auto simp del: append_is_Nil_conv)
    show "lc_length ?lc' = length (items_of (map snd (ys @ bs @ [(p, j, d)])))"
      using rel r(6) pushes_items [OF r(2)] xs by (auto simp: lc_rel_def same_links_def)
  qed (use r in \<open>auto simp: logged_def\<close>)
  ultimately show ?thesis by blast
qed

lemma pushes_length:
  "pushes cap nxt g c items zs us g' \<Longrightarrow>
   length (items_of zs) = length (content_items (snd c)) + length items"
  by (simp add: pushes_items)

lemma push_gap_back_step:
  assumes rel: "lc_rel cap lc xs" and gen: "generator lc \<noteq> - 1"
  shows "\<exists>lc'. push_gap_back x lc = Done lc' \<and> step_ok cap (OpPushGap x) lc xs lc'"
proof -
  obtain ys a i c where xs: "xs = ys @ (a, i, c) # []"
    using lc_rel_nonempty [OF rel] by (cases xs rule: rev_cases) auto
  have ptr: "latest_chunk_ptr lc = a" using lc_rel_last [OF rel] xs by simp
  note D = lc_relD [OF rel [unfolded xs]]
  obtain p lc1 lc2 where r: "generator_next lc = Done (generator lc + 1, lc\<lparr>generator := generator lc + 1\<rparr>)"
    "new_gap_leaked (generator lc + 1) x (lc\<lparr>generator := generator lc + 1\<rparr>) = (p, lc1)"
    "insert_next a p lc1 = Done (p, lc2)"
    "store_ok lc2 ((ys @ [(a, i, c)]) @ (p, generator lc + 1, Gap x) # [])"
    "logged [NewGapChunk (Some i) (generator lc + 1) None x] lc lc2"
    "same_links lc lc2" "generator lc2 = generator lc + 1"
    by (rule insert_new_gap [OF D(1) gen, where g = x, simplified list.map(1) head_id_simps])
  have cell: "heap lc2 a = Some \<lparr>previous = last_addr ys None, next_chunk = Some p, ident = i, content = c\<rparr>"
    using store_okD(1) [of lc2 ys a i c "[(p, generator lc + 1, Gap x)]"] r(4) by simp
  let ?lc' = "lc2\<lparr>links_last := Some p\<rparr>"
  have "push_gap_back x lc = Done ?lc'"
    using r(1-3) cell ptr by (simp add: push_gap_back_def deref_def Let_def)
  moreover have "step_ok cap (OpPushGap x) lc xs ?lc'"
  proof (rule step_okI [OF rel, where xs' = "ys @ [(a, i, c), (p, generator lc + 1, Gap x)]"])
    show "links_first ?lc' = fst (hd (ys @ [(a, i, c), (p, generator lc + 1, Gap x)]))"
      using lc_rel_first [OF rel] r(6) xs by (cases ys) (auto simp: same_links_def)
    show "lc_step cap (map snd xs, generator lc) (OpPushGap x) [NewGapChunk (Some i) (generator lc + 1) None x]
        (map snd (ys @ [(a, i, c), (p, generator lc + 1, Gap x)]), generator ?lc')"
      using lc_step.push_gap [OF gen, of cap "map snd ys" i c x] xs r(7) by simp
    show "lc_length ?lc' = length (items_of (map snd (ys @ [(a, i, c), (p, generator lc + 1, Gap x)])))"
      using lc_rel_length [OF rel] r(6) xs by (simp add: same_links_def)
  qed (use r in \<open>auto simp: logged_def\<close>)
  ultimately show ?thesis by blast
qed

section \<open>Inserting items\<close>

lemma update_last_ok:
  assumes ok: "store_ok lc (X @ (p, j, d) # Y)"
    and ptr: "Y \<noteq> [] \<or> X = [] \<Longrightarrow> latest_chunk_ptr lc = fst (last (X @ (p, j, d) # Y))"
  obtains lc' where "update_last p lc = Done lc'" "store_ok lc' (X @ (p, j, d) # Y)"
    "latest_chunk_ptr lc' = fst (last (X @ (p, j, d) # Y))" "links_first lc' = links_first lc"
    "lc_length lc' = lc_length lc" "generator lc' = generator lc" "lc_updates lc' = lc_updates lc"
proof (cases "X \<noteq> [] \<and> Y = []")
  case True
  then have "update_last p lc = Done (lc\<lparr>links_last := Some p\<rparr>)"
    using store_okD(1) [OF ok] by (simp add: update_last_def deref_def is_first_chunk_def is_last_chunk_def)
  with that [of "lc\<lparr>links_last := Some p\<rparr>"] ok True show thesis by simp
next
  case False
  then have "update_last p lc = Done lc"
    using store_okD(1) [OF ok]
    by (auto simp: update_last_def deref_def is_first_chunk_def is_last_chunk_def head_addr_def split: list.splits)
  with that [of lc] ok ptr False show thesis by blast
qed

text \<open>The end of \<open>insert_items_at\<close>: the chunk the last items went to becomes the last one if it has no
  successor.\<close>

lemma insert_finish:
  assumes rel: "lc_rel cap lc (A @ (a, i, Items ys) # B)"
    and ok: "store_ok lc1 ((A @ bs) @ (p, j, d) # B)" and hd: "fst (hd (bs @ [(p, j, d)])) = a"
    and links: "same_links lc lc1" and log: "logged us lc lc1"
    and step: "lc_step cap (map snd (A @ (a, i, Items ys) # B), generator lc)
      (OpInsertItems items pos) us (map snd ((A @ bs) @ (p, j, d) # B), generator lc1)"
    and len: "length (items_of (map snd ((A @ bs) @ (p, j, d) # B))) =
      length (items_of (map snd (A @ (a, i, Items ys) # B))) + length items"
  shows "\<exists>lc'. run_bind (update_last p lc1)
      (\<lambda>lc. Done (Inr (), lc\<lparr>lc_length := lc_length lc + length items\<rparr>)) = Done (Inr (), lc') \<and>
    step_ok cap (OpInsertItems items pos) lc (A @ (a, i, Items ys) # B) lc'"
proof -
  have ptr: "latest_chunk_ptr lc1 = fst (last ((A @ bs) @ (p, j, d) # B))" if "B \<noteq> [] \<or> A @ bs = []"
    using that lc_rel_last [OF rel] latest_chunk_ptr_same [OF links] hd by (cases "B = []") auto
  obtain lc2 where u: "update_last p lc1 = Done lc2" "store_ok lc2 ((A @ bs) @ (p, j, d) # B)"
    "latest_chunk_ptr lc2 = fst (last ((A @ bs) @ (p, j, d) # B))" "links_first lc2 = links_first lc1"
    "lc_length lc2 = lc_length lc1" "generator lc2 = generator lc1" "lc_updates lc2 = lc_updates lc1"
    by (rule update_last_ok [OF ok ptr])
  let ?lc' = "lc2\<lparr>lc_length := lc_length lc2 + length items\<rparr>"
  have "step_ok cap (OpInsertItems items pos) lc (A @ (a, i, Items ys) # B) ?lc'"
  proof (rule step_okI [OF rel, where xs' = "(A @ bs) @ (p, j, d) # B"])
    show "links_first ?lc' = fst (hd ((A @ bs) @ (p, j, d) # B))"
      using lc_rel_first [OF rel] u(4) links hd by (cases A; cases bs) (auto simp: same_links_def)
    show "lc_length ?lc' = length (items_of (map snd ((A @ bs) @ (p, j, d) # B)))"
      using lc_rel_length [OF rel] u(5) links len by (simp add: same_links_def)
  qed (use u step log in \<open>auto simp: logged_def\<close>)
  with u(1) show ?thesis by auto
qed

lemma insert_items_at_step:
  assumes rel: "lc_rel cap lc (A @ (a, i, Items ys) # B)" and cap: "0 < cap" and "k \<le> length ys"
    and gen: "unat (generator lc) + length items + cap + 4 \<le> 2 ^ 64"
  shows "\<exists>lc'. insert_items_at cap items (Position i k) lc = Done (Inr (), lc') \<and>
    step_ok cap (OpInsertItems items (Position i k)) lc (A @ (a, i, Items ys) # B) lc'"
proof (cases "k = length ys")
  case True
  note D = lc_relD [OF rel]
  have gen': "unat (generator lc) + length items + 2 \<le> 2 ^ 64" using gen by simp
  obtain p lc1 bs j d us where r: "push_items cap a items lc = Done (p, lc1)"
    "pushes cap (head_id (map snd B)) (generator lc) (i, Items ys) items (map snd (bs @ [(p, j, d)])) us (generator lc1)"
    "store_ok lc1 ((A @ bs) @ (p, j, d) # B)" "fst (hd (bs @ [(p, j, d)])) = a"
    "logged us lc lc1" "same_links lc lc1"
    by (rule push_itemsE [OF cap D(1) gen'])
  have "insert_items_at cap items (Position i k) lc =
      run_bind (update_last p lc1) (\<lambda>lc. Done (Inr (), lc\<lparr>lc_length := lc_length lc + length items\<rparr>))"
    using D(3,4) r(1) True by (simp add: insert_items_at_def deref_def)
  moreover have "lc_step cap (map snd (A @ (a, i, Items ys) # B), generator lc)
      (OpInsertItems items (Position i k)) us (map snd ((A @ bs) @ (p, j, d) # B), generator lc1)"
    using lc_step.insert_end [OF r(2) True, of "map snd A"] by simp
  moreover have "length (items_of (map snd ((A @ bs) @ (p, j, d) # B))) =
      length (items_of (map snd (A @ (a, i, Items ys) # B))) + length items"
    using pushes_length [OF r(2)] by simp
  ultimately show ?thesis using insert_finish [OF rel r(3,4,6,5)] by simp
next
  case False
  with assms(3) have k: "k < length ys" by simp
  note D = lc_relD [OF rel]
  let ?lc = "push_update (DetachLastItems (Position i k)) lc"
  obtain lc0 where m: "modify a (\<lambda>x. x\<lparr>content := Items (take k ys)\<rparr>) ?lc = Done lc0"
    "store_ok lc0 (A @ (a, i, Items (take k ys)) # B)" "same_links ?lc lc0" "lc_updates lc0 = lc_updates ?lc"
    "generator lc0 = generator ?lc"
    using store_ok_set_content [of ?lc A a i "Items ys" B] D(1) by auto
  have gen0: "unat (generator lc0) + length items + 2 \<le> 2 ^ 64" using gen m(5) by simp
  obtain p lc1 bs j d us where r: "push_items cap a items lc0 = Done (p, lc1)"
    "pushes cap (head_id (map snd B)) (generator lc0) (i, Items (take k ys)) items (map snd (bs @ [(p, j, d)]))
       us (generator lc1)"
    "store_ok lc1 ((A @ bs) @ (p, j, d) # B)" "fst (hd (bs @ [(p, j, d)])) = a"
    "logged us lc0 lc1" "same_links lc0 lc1"
    by (rule push_itemsE [OF cap m(2) gen0])
  let ?lc1 = "push_update StartReattachItems lc1"
  have "length ys \<le> cap" using D(2) by (simp add: chunks_wf_def)
  then have gen1: "unat (generator ?lc1) + length (drop k ys) + 2 \<le> 2 ^ 64"
    using gen pushes_gen_le [OF r(2) cap] m(5) by simp
  have ok1: "store_ok ?lc1 ((A @ bs) @ (p, j, d) # B)" using r(3) by simp
  obtain q lc2 ds e f vs where t: "push_items cap p (drop k ys) ?lc1 = Done (q, lc2)"
    "pushes cap (head_id (map snd B)) (generator ?lc1) (j, d) (drop k ys) (map snd (ds @ [(q, e, f)]))
       vs (generator lc2)"
    "store_ok lc2 (((A @ bs) @ ds) @ (q, e, f) # B)" "fst (hd (ds @ [(q, e, f)])) = p"
    "logged vs ?lc1 lc2" "same_links ?lc1 lc2"
    by (rule push_itemsE [OF cap ok1 gen1])
  let ?us = "DetachLastItems (Position i k) # us @ StartReattachItems # vs @ [EndReattachItems]"
  let ?lc2 = "push_update EndReattachItems lc2"
  have "insert_items_at cap items (Position i k) lc =
      run_bind (update_last q ?lc2) (\<lambda>lc. Done (Inr (), lc\<lparr>lc_length := lc_length lc + length items\<rparr>))"
    using D(3,4) m(1) r(1) t(1) k by (simp add: insert_items_at_def deref_def Let_def)
  moreover have "lc_step cap (map snd (A @ (a, i, Items ys) # B), generator lc)
      (OpInsertItems items (Position i k)) ?us (map snd ((A @ bs @ ds) @ (q, e, f) # B), generator ?lc2)"
    using lc_step.insert_mid [OF k, of cap "map snd B" "generator lc" i items "map snd bs" "(j, d)" us
        "generator lc1" "map snd (ds @ [(q, e, f)])" vs "generator lc2" "map snd A"] r(2) t(2) m(5) by simp
  moreover have "length (items_of (map snd ((A @ bs @ ds) @ (q, e, f) # B))) =
      length (items_of (map snd (A @ (a, i, Items ys) # B))) + length items"
    using pushes_length [OF r(2)] pushes_length [OF t(2)] k by simp
  moreover have "logged ?us lc ?lc2"
    using m(4) r(5) t(5) by (simp add: logged_def option.map_comp comp_def)
  moreover have "same_links lc ?lc2" using m(3) r(6) t(6) by (simp add: same_links_def)
  moreover have "fst (hd ((bs @ ds) @ [(q, e, f)])) = a" using r(4) t(4) by (cases bs) auto
  moreover have "store_ok ?lc2 ((A @ bs @ ds) @ (q, e, f) # B)" using t(3) by simp
  ultimately show ?thesis using insert_finish [OF rel, of ?lc2 "bs @ ds" q e f ?us items "Position i k"] by simp
qed

section \<open>Removing an item\<close>

lemma remove_item_at_keep:
  assumes rel: "lc_rel cap lc (A @ (a, i, Items ys) # B)" and k: "k < length ys"
    and ys': "ys' = take k ys @ drop (Suc k) ys" and keep: "ys' \<noteq> [] \<or> A = []"
  shows "\<exists>lc'. remove_item_at (Position i k) lc = Done (Inr (ys ! k), lc') \<and>
    step_ok cap (OpRemoveItem (Position i k)) lc (A @ (a, i, Items ys) # B) lc'"
proof -
  note D = lc_relD [OF rel]
  obtain lc0 where m: "modify a (\<lambda>x. x\<lparr>content := Items ys'\<rparr>) lc = Done lc0"
    "store_ok lc0 (A @ (a, i, Items ys') # B)" "same_links lc lc0" "lc_updates lc0 = lc_updates lc"
    "generator lc0 = generator lc"
    using store_ok_set_content [OF D(1)] by blast
  let ?lc1 = "push_update (RemoveItem (Position i k)) lc0"
  let ?lc' = "?lc1\<lparr>lc_length := lc_length ?lc1 - 1\<rparr>"
  have len: "lc_length ?lc1 = length (items_of (map snd A)) + length ys + length (items_of (map snd B))"
    using lc_rel_length [OF rel] m(3) by (simp add: same_links_def)
  have "lc_length lc0 \<noteq> 0" using len k by auto
  then have "remove_item_at (Position i k) lc = Done (Inr (ys ! k), ?lc')"
    using D(3,4) m(1) k keep unfolding remove_item_at_def Let_def
    by (auto simp: deref_def is_first_chunk_def simp flip: ys' simp del: run_bind_Done_iff append_is_Nil_conv)
  moreover have "step_ok cap (OpRemoveItem (Position i k)) lc (A @ (a, i, Items ys) # B) ?lc'"
  proof (rule step_okI [OF rel, where xs' = "A @ (a, i, Items ys') # B"])
    show "links_first ?lc' = fst (hd (A @ (a, i, Items ys') # B))"
      using lc_rel_first [OF rel] m(3) by (cases A) (auto simp: same_links_def)
    show "latest_chunk_ptr ?lc' = fst (last (A @ (a, i, Items ys') # B))"
      using lc_rel_last [OF rel] latest_chunk_ptr_same [OF m(3)] by (cases B) auto
    show "lc_step cap (map snd (A @ (a, i, Items ys) # B), generator lc) (OpRemoveItem (Position i k))
        [RemoveItem (Position i k)] (map snd (A @ (a, i, Items ys') # B), generator ?lc')"
      using lc_step.remove_keep [OF k ys', of "map snd A"] keep m(5) by simp
    show "lc_length ?lc' = length (items_of (map snd (A @ (a, i, Items ys') # B)))"
      using len k ys' by simp
  qed (use m in \<open>auto simp: logged_def\<close>)
  ultimately show ?thesis by blast
qed

lemma remove_item_at_unlink:
  assumes rel: "lc_rel cap lc (A @ (a, i, Items [y]) # B)" and A: "A \<noteq> []"
  shows "\<exists>lc'. remove_item_at (Position i 0) lc = Done (Inr y, lc') \<and>
    step_ok cap (OpRemoveItem (Position i 0)) lc (A @ (a, i, Items [y]) # B) lc'"
proof -
  note D = lc_relD [OF rel]
  obtain lc0 where m: "modify a (\<lambda>x. x\<lparr>content := Items []\<rparr>) lc = Done lc0"
    "store_ok lc0 (A @ (a, i, Items []) # B)" "same_links lc lc0" "lc_updates lc0 = lc_updates lc"
    "generator lc0 = generator lc"
    using store_ok_set_content [OF D(1)] by blast
  let ?lc1 = "push_update (RemoveItem (Position i 0)) lc0"
  have ok1: "store_ok ?lc1 (A @ (a, i, Items []) # B)" using m(2) by simp
  obtain lc2 where u: "unlink a ?lc1 = Done lc2" "heap lc2 a = heap ?lc1 a"
    "store_ok (lc2\<lparr>heap := (heap lc2)(a := None)\<rparr>) (A @ B)" "logged [RemoveChunk i] ?lc1 lc2"
    "same_links ?lc1 lc2" "generator lc2 = generator ?lc1"
    by (rule unlink_chunk [OF ok1 A])
  have cell: "heap lc2 a = Some \<lparr>previous = last_addr A None, next_chunk = head_addr B None,
      ident = i, content = Items []\<rparr>"
    using store_okD(1) [OF ok1] u(2) by simp
  let ?lc3 = "if B = [] then lc2\<lparr>links_last := last_addr A None\<rparr> else lc2"
  let ?lc' = "?lc3\<lparr>lc_length := lc_length lc2 - 1, heap := (heap lc2)(a := None)\<rparr>"
  have len: "lc_length lc2 = Suc (length (items_of (map snd A)) + length (items_of (map snd B)))"
    using lc_rel_length [OF rel] m(3) u(5) by (simp add: same_links_def)
  have "remove_item_at (Position i 0) lc = Done (Inr y, ?lc')"
    using D(3,4) m(1) A len cell u(1)
    by (cases B) (simp_all add: remove_item_at_def deref_def Let_def is_first_chunk_def is_last_chunk_def
        reclaim_def del: run_bind_Done_iff)
  moreover have "step_ok cap (OpRemoveItem (Position i 0)) lc (A @ (a, i, Items [y]) # B) ?lc'"
  proof (rule step_okI [OF rel, where xs' = "A @ B"])
    show "store_ok ?lc' (A @ B)" using u(3) by (simp add: store_ok_def)
    show "links_first ?lc' = fst (hd (A @ B))"
      using lc_rel_first [OF rel] m(3) u(5) A by (simp add: same_links_def)
    show "latest_chunk_ptr ?lc' = fst (last (A @ B))"
      using lc_rel_last [OF rel] latest_chunk_ptr_same [OF m(3)] latest_chunk_ptr_same [OF u(5)] A
      by (simp add: last_addr_def)
    show "lc_step cap (map snd (A @ (a, i, Items [y]) # B), generator lc) (OpRemoveItem (Position i 0))
        [RemoveItem (Position i 0), RemoveChunk i] (map snd (A @ B), generator ?lc')"
      using lc_step.remove_unlink [of "map snd A" cap i y "map snd B" "generator lc"] A m(5) u(6)
      by (cases B) simp_all
    show "lc_length ?lc' = length (items_of (map snd (A @ B)))" using len by simp
    show "logged [RemoveItem (Position i 0), RemoveChunk i] lc ?lc'"
      using u(4) m(4) by (simp add: logged_def option.map_comp comp_def)
  qed
  ultimately show ?thesis by blast
qed

lemma remove_item_at_step:
  assumes rel: "lc_rel cap lc (A @ (a, i, Items ys) # B)" and k: "k < length ys"
  shows "\<exists>lc'. remove_item_at (Position i k) lc = Done (Inr (ys ! k), lc') \<and>
    step_ok cap (OpRemoveItem (Position i k)) lc (A @ (a, i, Items ys) # B) lc'"
proof (cases "take k ys @ drop (Suc k) ys \<noteq> [] \<or> A = []")
  case True
  then show ?thesis by (rule remove_item_at_keep [OF rel k refl])
next
  case False
  with k obtain y where "ys = [y]" "k = 0" by (cases ys; cases k) auto
  with remove_item_at_unlink [of cap lc A a i y B] rel False show ?thesis by simp
qed

section \<open>Inserting and replacing gaps\<close>

lemma insert_gap_at_before:
  assumes rel: "lc_rel cap lc (A @ (b, j, d) # (a, i, Items ys) # B)" and gen: "generator lc \<noteq> - 1"
  shows "\<exists>lc'. insert_gap_at cap x (Position i 0) lc = Done (Inr (), lc') \<and>
    step_ok cap (OpInsertGap x (Position i 0)) lc (A @ (b, j, d) # (a, i, Items ys) # B) lc'"
proof -
  note D = lc_relD [of cap lc "A @ [(b, j, d)]" a i "Items ys" B, simplified append_assoc append_Cons append_Nil,
      OF rel]
  note E = lc_relD [OF rel]
  obtain p lc1 lc2 where r: "generator_next lc = Done (generator lc + 1, lc\<lparr>generator := generator lc + 1\<rparr>)"
    "new_gap_leaked (generator lc + 1) x (lc\<lparr>generator := generator lc + 1\<rparr>) = (p, lc1)"
    "insert_next b p lc1 = Done (p, lc2)"
    "store_ok lc2 ((A @ [(b, j, d)]) @ (p, generator lc + 1, Gap x) # (a, i, Items ys) # B)"
    "logged [NewGapChunk (Some j) (generator lc + 1) (head_id (map snd ((a, i, Items ys) # B))) x] lc lc2"
    "same_links lc lc2" "generator lc2 = generator lc + 1"
    by (rule insert_new_gap [OF E(1) gen, where g = x])
  have "insert_gap_at cap x (Position i 0) lc = Done (Inr (), lc2)"
    using D(3,4) r(1-3)
    by (simp add: insert_gap_at_def deref_def Let_def is_items_def is_gap_def del: run_bind_Done_iff)
  moreover have "step_ok cap (OpInsertGap x (Position i 0)) lc (A @ (b, j, d) # (a, i, Items ys) # B) lc2"
  proof (rule step_okI [OF rel, where xs' = "A @ (b, j, d) # (p, generator lc + 1, Gap x) # (a, i, Items ys) # B"])
    show "links_first lc2 = fst (hd (A @ (b, j, d) # (p, generator lc + 1, Gap x) # (a, i, Items ys) # B))"
      using lc_rel_first [OF rel] r(6) by (cases A) (auto simp: same_links_def)
    show "latest_chunk_ptr lc2 = fst (last (A @ (b, j, d) # (p, generator lc + 1, Gap x) # (a, i, Items ys) # B))"
      using lc_rel_last [OF rel] latest_chunk_ptr_same [OF r(6)] by simp
    show "lc_step cap (map snd (A @ (b, j, d) # (a, i, Items ys) # B), generator lc) (OpInsertGap x (Position i 0))
        [NewGapChunk (Some j) (generator lc + 1) (Some i) x]
        (map snd (A @ (b, j, d) # (p, generator lc + 1, Gap x) # (a, i, Items ys) # B), generator lc2)"
      using lc_step.gap_before [OF gen, of cap "map snd A" j d i ys "map snd B" x] r(7) by simp
    show "lc_length lc2 =
        length (items_of (map snd (A @ (b, j, d) # (p, generator lc + 1, Gap x) # (a, i, Items ys) # B)))"
      using lc_rel_length [OF rel] r(6) by (simp add: same_links_def)
  qed (use r in auto)
  ultimately show ?thesis by blast
qed

lemma insert_gap_at_split:
  assumes rel: "lc_rel cap lc (A @ (a, i, Items ys) # B)" and cap: "0 < cap"
    and k: "0 < k \<or> A = []" "k < length ys" and gen: "unat (generator lc) + cap + 4 \<le> 2 ^ 64"
  shows "\<exists>lc'. insert_gap_at cap x (Position i k) lc = Done (Inr (), lc') \<and>
    step_ok cap (OpInsertGap x (Position i k)) lc (A @ (a, i, Items ys) # B) lc'"
proof -
  note D = lc_relD [OF rel]
  let ?g = "generator lc"
  have g: "?g \<noteq> - 1" using gen by (intro not_max_word_if_unat [where n = 1]) simp_all
  then have g': "?g + 1 \<noteq> - 1" using gen by (intro not_max_word_if_unat [where n = 1]) (simp_all add: unat_plus_one_word)
  let ?lc = "push_update (DetachLastItems (Position i k)) lc"
  obtain lc0 where m: "modify a (\<lambda>x. x\<lparr>content := Items (take k ys)\<rparr>) ?lc = Done lc0"
    "store_ok lc0 (A @ (a, i, Items (take k ys)) # B)" "same_links ?lc lc0" "lc_updates lc0 = lc_updates ?lc"
    "generator lc0 = generator ?lc"
    using store_ok_set_content [of ?lc A a i "Items ys" B] D(1) by auto
  have g0: "generator lc0 \<noteq> - 1" "generator lc0 = ?g" using g m(5) by simp_all
  obtain p lc1 lc2 where r: "generator_next lc0 = Done (generator lc0 + 1, lc0\<lparr>generator := generator lc0 + 1\<rparr>)"
    "new_gap_leaked (generator lc0 + 1) x (lc0\<lparr>generator := generator lc0 + 1\<rparr>) = (p, lc1)"
    "insert_next a p lc1 = Done (p, lc2)"
    "store_ok lc2 ((A @ [(a, i, Items (take k ys))]) @ (p, generator lc0 + 1, Gap x) # B)"
    "logged [NewGapChunk (Some i) (generator lc0 + 1) (head_id (map snd B)) x] lc0 lc2"
    "same_links lc0 lc2" "generator lc2 = generator lc0 + 1"
    by (rule insert_new_gap [OF m(2) g0(1), where g = x])
  let ?lc2 = "push_update StartReattachItems lc2"
  have ok2: "store_ok ?lc2 ((A @ [(a, i, Items (take k ys))]) @ (p, generator lc0 + 1, Gap x) # B)"
    and g2: "generator ?lc2 \<noteq> - 1" "generator ?lc2 = ?g + 1"
    using r(4,7) g' g0(2) by simp_all
  obtain q lc3 lc4 where t: "generator_next ?lc2 = Done (generator ?lc2 + 1, ?lc2\<lparr>generator := generator ?lc2 + 1\<rparr>)"
    "new_items_leaked (generator ?lc2 + 1) (?lc2\<lparr>generator := generator ?lc2 + 1\<rparr>) = (q, lc3)"
    "insert_next p q lc3 = Done (q, lc4)"
    "store_ok lc4 (((A @ [(a, i, Items (take k ys))]) @ [(p, generator lc0 + 1, Gap x)])
       @ (q, generator ?lc2 + 1, Items []) # B)"
    "logged [NewItemsChunk (Some (generator lc0 + 1)) (generator ?lc2 + 1) (head_id (map snd B))] ?lc2 lc4"
    "same_links ?lc2 lc4" "generator lc4 = generator ?lc2 + 1"
    by (rule insert_new_items [OF ok2 g2(1)])
  have "length ys \<le> cap" using D(2) by (simp add: chunks_wf_def)
  then have gen4: "unat (generator lc4) + length (drop k ys) + 2 \<le> 2 ^ 64"
    using gen unat_plus_one_word [OF g] unat_plus_one_word [OF g'] g2(2) t(7) by simp
  let ?A = "A @ [(a, i, Items (take k ys)), (p, ?g + 1, Gap x)]"
  obtain u lc5 ds e f vs where w: "push_items cap q (drop k ys) lc4 = Done (u, lc5)"
    "pushes cap (head_id (map snd B)) (generator lc4) (generator ?lc2 + 1, Items []) (drop k ys)
       (map snd (ds @ [(u, e, f)])) vs (generator lc5)"
    "store_ok lc5 ((((A @ [(a, i, Items (take k ys))]) @ [(p, generator lc0 + 1, Gap x)]) @ ds) @ (u, e, f) # B)"
    "fst (hd (ds @ [(u, e, f)])) = q" "logged vs lc4 lc5" "same_links lc4 lc5"
    by (rule push_itemsE [OF cap t(4) gen4])
  let ?lc5 = "push_update EndReattachItems lc5"
  let ?xs = "(?A @ ds) @ (u, e, f) # B"
  have ok5: "store_ok ?lc5 ?xs" using w(3) g0(2) by simp
  have links: "same_links lc ?lc5" using m(3) r(6) t(6) w(6) by (simp add: same_links_def)
  have ptr: "latest_chunk_ptr ?lc5 = fst (last ?xs)" if "B \<noteq> [] \<or> ?A @ ds = []"
    using that lc_rel_last [OF rel] latest_chunk_ptr_same [OF links] by auto
  obtain lc6 where l: "update_last u ?lc5 = Done lc6" "store_ok lc6 ?xs" "latest_chunk_ptr lc6 = fst (last ?xs)"
    "links_first lc6 = links_first ?lc5" "lc_length lc6 = lc_length ?lc5" "generator lc6 = generator ?lc5"
    "lc_updates lc6 = lc_updates ?lc5"
    by (rule update_last_ok [OF ok5 ptr])
  let ?us = "[DetachLastItems (Position i k), NewGapChunk (Some i) (?g + 1) (head_id (map snd B)) x,
     StartReattachItems, NewItemsChunk (Some (?g + 1)) (?g + 1 + 1) (head_id (map snd B))]
     @ vs @ [EndReattachItems]"
  have "insert_gap_at cap x (Position i k) lc = Done (Inr (), lc6)"
    using D(3,4) m(1) r(1-3) t(1-3) w(1) l(1) k
    by (auto simp: insert_gap_at_def deref_def Let_def is_items_def is_gap_def simp del: run_bind_Done_iff)
  moreover have "step_ok cap (OpInsertGap x (Position i k)) lc (A @ (a, i, Items ys) # B) lc6"
  proof (rule step_okI [OF rel l(2) _ l(3)])
    show "links_first lc6 = fst (hd ?xs)"
      using lc_rel_first [OF rel] links l(4) by (cases A) (auto simp: same_links_def)
    show "lc_step cap (map snd (A @ (a, i, Items ys) # B), ?g) (OpInsertGap x (Position i k)) ?us
        (map snd ?xs, generator lc6)"
      using lc_step.gap_split [of k "map snd A" ys ?g cap "map snd B" "map snd (ds @ [(u, e, f)])" vs
          "generator lc5" i x] k g g' w(2) t(7) g2(2) l(6) by simp
    show "lc_length lc6 = length (items_of (map snd ?xs))"
      using lc_rel_length [OF rel] links l(5) pushes_length [OF w(2)] k(2) by (simp add: same_links_def)
    show "logged ?us lc lc6"
      using m(4) r(5) t(5) w(5) l(7) g0(2) g2(2) by (simp add: logged_def option.map_comp comp_def)
  qed
  ultimately show ?thesis by blast
qed

lemma insert_gap_at_step:
  assumes rel: "lc_rel cap lc (A @ (a, i, Items ys) # B)" and cap: "0 < cap"
    and k: "k = 0 \<and> A \<noteq> [] \<or> k < length ys" and gen: "unat (generator lc) + cap + 4 \<le> 2 ^ 64"
  shows "\<exists>lc'. insert_gap_at cap x (Position i k) lc = Done (Inr (), lc') \<and>
    step_ok cap (OpInsertGap x (Position i k)) lc (A @ (a, i, Items ys) # B) lc'"
proof (cases "k = 0 \<and> A \<noteq> []")
  case True
  then obtain C b j d where A: "A = C @ [(b, j, d)]" by (cases A rule: rev_cases) auto
  have "generator lc \<noteq> - 1" using gen by (intro not_max_word_if_unat [where n = 1]) simp_all
  then show ?thesis using insert_gap_at_before [of cap lc C b j d a i ys B x] rel A True by simp
next
  case False
  with k have "0 < k \<or> A = []" "k < length ys" by auto
  with insert_gap_at_split [OF rel cap _ _ gen] show ?thesis by blast
qed

lemma replace_gap_at_nodes:
  assumes rel: "lc_rel cap lc (A @ (a, i, Gap x) # B)" and cap: "0 < cap" and A: "A \<noteq> []"
    and gen: "unat (generator lc) + length items + 3 \<le> 2 ^ 64"
  shows "\<exists>p lc' ws us vs. replace_gap_at cap items i lc = Done (Inr p, lc') \<and> lc_rel cap lc' (A @ ws @ B) \<and>
    ws \<noteq> [] \<and> fst (hd ws) = p \<and> logged vs lc lc' \<and>
    pushes cap (head_id (map snd B)) (generator lc + 1) (generator lc + 1, Items []) items (map snd ws) us (generator lc') \<and>
    lc_step cap (map snd (A @ (a, i, Gap x) # B), generator lc) (OpReplaceGap items i) vs (map snd (A @ ws @ B), generator lc')"
proof -
  note D = lc_relD [OF rel]
  have g: "generator lc \<noteq> - 1" using gen by (intro not_max_word_if_unat [where n = 1]) simp_all
  obtain p lc1 lc2 where r: "generator_next lc = Done (generator lc + 1, lc\<lparr>generator := generator lc + 1\<rparr>)"
    "new_items_leaked (generator lc + 1) (lc\<lparr>generator := generator lc + 1\<rparr>) = (p, lc1)"
    "insert_next a p lc1 = Done (p, lc2)"
    "store_ok lc2 ((A @ [(a, i, Gap x)]) @ (p, generator lc + 1, Items []) # B)"
    "logged [NewItemsChunk (Some i) (generator lc + 1) (head_id (map snd B))] lc lc2"
    "same_links lc lc2" "generator lc2 = generator lc + 1"
    by (rule insert_new_items [OF D(1) g])
  have gen2: "unat (generator lc2) + length items + 2 \<le> 2 ^ 64"
    using gen r(7) unat_plus_one_word [OF g] by simp
  obtain q lc3 bs j d us where t: "push_items cap p items lc2 = Done (q, lc3)"
    "pushes cap (head_id (map snd B)) (generator lc2) (generator lc + 1, Items []) items
       (map snd (bs @ [(q, j, d)])) us (generator lc3)"
    "store_ok lc3 (((A @ [(a, i, Gap x)]) @ bs) @ (q, j, d) # B)" "fst (hd (bs @ [(q, j, d)])) = p"
    "logged us lc2 lc3" "same_links lc2 lc3"
    by (rule push_itemsE [OF cap r(4) gen2])
  let ?ws = "bs @ (q, j, d) # B"
  have ok3: "store_ok lc3 (A @ (a, i, Gap x) # ?ws)" using t(3) by simp
  have cell: "heap lc3 a = Some \<lparr>previous = last_addr A None, next_chunk = Some p, ident = i, content = Gap x\<rparr>"
    using store_okD(1) [OF ok3] t(4) by (cases bs) simp_all
  have cellq: "\<exists>pr. heap lc3 q = Some \<lparr>previous = pr, next_chunk = head_addr B None, ident = j, content = d\<rparr>"
    using store_okD(1) [OF t(3)] by blast
  obtain lc4 where u: "unlink a lc3 = Done lc4" "heap lc4 a = heap lc3 a"
    "store_ok (lc4\<lparr>heap := (heap lc4)(a := None)\<rparr>) (A @ ?ws)" "logged [RemoveChunk i] lc3 lc4"
    "same_links lc3 lc4" "generator lc4 = generator lc3"
    by (rule unlink_chunk [OF ok3 A])
  let ?lc5 = "if B = [] then lc4\<lparr>links_last := Some q\<rparr> else lc4"
  let ?lc' = "?lc5\<lparr>lc_length := lc_length lc4 + length items, heap := (heap lc4)(a := None)\<rparr>"
  have links: "same_links lc lc4" using r(6) t(6) u(5) by (simp add: same_links_def)
  have "replace_gap_at cap items i lc = Done (Inr p, ?lc')"
    using D(3,4) r(1-3) t(1) A cell cellq u(1,2)
    by (cases B) (auto simp: replace_gap_at_def deref_def Let_def is_first_chunk_def is_last_chunk_def
        reclaim_def debug_assert_def simp del: run_bind_Done_iff)
  moreover have st: "lc_step cap (map snd (A @ (a, i, Gap x) # B), generator lc) (OpReplaceGap items i)
        (NewItemsChunk (Some i) (generator lc + 1) (head_id (map snd B)) # us @ [RemoveChunk i])
        (map snd (A @ ?ws), generator ?lc')"
      using lc_step.replace_gap [of "map snd A" "generator lc" cap "map snd B" items
          "map snd (bs @ [(q, j, d)])" us "generator lc3" i x] A g t(2) r(7) u(6) by (cases B) simp_all
  moreover have lg: "logged (NewItemsChunk (Some i) (generator lc + 1) (head_id (map snd B)) # us @ [RemoveChunk i]) lc ?lc'"
      using r(5) t(5) u(4) by (simp add: logged_def option.map_comp comp_def)
  moreover have "lc_rel cap ?lc' (A @ ?ws)"
  proof (rule step_relI [OF rel _ _ _ _ st lg])
    show "store_ok ?lc' (A @ ?ws)" using u(3) by (simp add: store_ok_def)
    show "links_first ?lc' = fst (hd (A @ ?ws))"
      using lc_rel_first [OF rel] links A by (simp add: same_links_def)
    show "latest_chunk_ptr ?lc' = fst (last (A @ ?ws))"
      using lc_rel_last [OF rel] latest_chunk_ptr_same [OF links] by simp
    show "lc_length ?lc' = length (items_of (map snd (A @ ?ws)))"
      using lc_rel_length [OF rel] links pushes_length [OF t(2)] by (simp add: same_links_def)
  qed
  moreover have "pushes cap (head_id (map snd B)) (generator lc + 1) (generator lc + 1, Items []) items
      (map snd (bs @ [(q, j, d)])) us (generator ?lc')"
    using t(2) r(7) u(6) by (cases B) simp_all
  ultimately show ?thesis using t(4)
    by (intro exI [of _ p] exI [of _ ?lc'] exI [of _ "bs @ [(q, j, d)]"] exI conjI) (assumption | simp)+
qed

lemma replace_gap_at_step:
  assumes "lc_rel cap lc (A @ (a, i, Gap x) # B)" "0 < cap" "A \<noteq> []"
    and "unat (generator lc) + length items + 3 \<le> 2 ^ 64"
  shows "\<exists>p lc'. replace_gap_at cap items i lc = Done (Inr p, lc') \<and>
    step_ok cap (OpReplaceGap items i) lc (A @ (a, i, Gap x) # B) lc'"
  using replace_gap_at_nodes [OF assms] unfolding step_ok_def by blast

section \<open>Errors and panics\<close>

text \<open>A call that is refused changes nothing: not the chunks, the length, the identifiers or the log.\<close>

fun exec_op ::
  "nat \<Rightarrow> ('i, 'g) lc_op \<Rightarrow> ('i, 'g) linked_chunk \<Rightarrow> ((lc_error + unit) \<times> ('i, 'g) linked_chunk) run" where
  "exec_op cap (OpPushItems items) lc = run_bind (push_items_back cap items lc) (\<lambda>lc. Done (Inr (), lc))"
| "exec_op cap (OpPushGap x) lc = run_bind (push_gap_back x lc) (\<lambda>lc. Done (Inr (), lc))"
| "exec_op cap (OpInsertItems items p) lc = insert_items_at cap items p lc"
| "exec_op cap (OpRemoveItem p) lc =
     run_bind (remove_item_at p lc) (\<lambda>(r, lc). Done (map_sum id (\<lambda>_. ()) r, lc))"
| "exec_op cap (OpInsertGap x p) lc = insert_gap_at cap x p lc"
| "exec_op cap (OpReplaceGap items i) lc =
     run_bind (replace_gap_at cap items i lc) (\<lambda>(r, lc). Done (map_sum id (\<lambda>_. ()) r, lc))"

fun op_size :: "('i, 'g) lc_op \<Rightarrow> nat" where
  "op_size (OpPushItems items) = length items"
| "op_size (OpInsertItems items p) = length items"
| "op_size (OpReplaceGap items i) = length items"
| "op_size _ = 0"

definition meets ::
  "nat \<Rightarrow> ('i, 'g) lc_op \<Rightarrow> ('i, 'g) linked_chunk \<Rightarrow> ('i, 'g) node list \<Rightarrow> op_result
   \<Rightarrow> ((lc_error + unit) \<times> ('i, 'g) linked_chunk) run \<Rightarrow> bool" where
  "meets cap op lc xs out r \<longleftrightarrow>
     (case out of
        Ok_op \<Rightarrow> (\<exists>lc'. r = Done (Inr (), lc') \<and> step_ok cap op lc xs lc')
      | Err_op e \<Rightarrow> r = Done (Inl e, lc)
      | Panic_op \<Rightarrow> r = Panic)"

lemma hd_nodes: "lc_rel cap lc (A @ (a, i, c) # B) \<Longrightarrow> fst (hd (map snd (A @ (a, i, c) # B))) = i \<longleftrightarrow> A = []"
  using lc_relD(2) [of cap lc A a i c B] by (cases A) (auto simp: chunks_wf_def)

lemmas op_defs = insert_items_at_def remove_item_at_def insert_gap_at_def replace_gap_at_def
  Let_def deref_def is_items_def is_gap_def is_first_chunk_def debug_assert_def

lemma exec_missing:
  assumes "lc_rel cap lc xs"
  shows "map_of (map snd xs) (position_chunk p) = None \<Longrightarrow>
      exec_op cap (OpInsertItems items p) lc = Done (Inl (InvalidChunkIdentifier (position_chunk p)), lc)"
    and "map_of (map snd xs) (position_chunk p) = None \<Longrightarrow>
      exec_op cap (OpRemoveItem p) lc = Done (Inl (InvalidChunkIdentifier (position_chunk p)), lc)"
    and "map_of (map snd xs) (position_chunk p) = None \<Longrightarrow>
      exec_op cap (OpInsertGap x p) lc = Done (Inl (InvalidChunkIdentifier (position_chunk p)), lc)"
    and "map_of (map snd xs) i = None \<Longrightarrow>
      exec_op cap (OpReplaceGap items i) lc = Done (Inl (InvalidChunkIdentifier i), lc)"
  using chunk_mut_missing [OF assms]
  by (simp_all add: op_defs del: run_bind_Done_iff)

lemma exec_insert_items:
  assumes rel: "lc_rel cap lc xs" and cap: "0 < cap"
    and gen: "unat (generator lc) + length items + cap + 4 \<le> 2 ^ 64"
  shows "meets cap (OpInsertItems items p) lc xs (op_outcome (map snd xs) (OpInsertItems items p))
    (exec_op cap (OpInsertItems items p) lc)"
proof (cases "map_of (map snd xs) (position_chunk p)")
  case None
  then show ?thesis using exec_missing(1) [OF rel] by (simp add: meets_def)
next
  case (Some c)
  then obtain A a B where xs: "xs = A @ (a, position_chunk p, c) # B" by (rule map_of_nodes)
  note D = lc_relD [OF rel [unfolded xs]]
  show ?thesis
  proof (cases "\<exists>ys. c = Items ys \<and> position_index p \<le> length ys")
    case True
    then obtain ys where c: "c = Items ys" "position_index p \<le> length ys" by blast
    with insert_items_at_step [of cap lc A a "position_chunk p" ys B "position_index p" items] rel cap gen Some xs
    show ?thesis by (simp add: meets_def)
  next
    case False
    with D(3,4) Some show ?thesis
      by (cases c) (auto simp: meets_def op_defs simp del: run_bind_Done_iff)
  qed
qed

lemma exec_remove_item:
  assumes rel: "lc_rel cap lc xs"
  shows "meets cap (OpRemoveItem p) lc xs (op_outcome (map snd xs) (OpRemoveItem p))
    (exec_op cap (OpRemoveItem p) lc)"
proof (cases "map_of (map snd xs) (position_chunk p)")
  case None
  then show ?thesis using exec_missing(2) [OF rel] by (simp add: meets_def)
next
  case (Some c)
  then obtain A a B where xs: "xs = A @ (a, position_chunk p, c) # B" by (rule map_of_nodes)
  note D = lc_relD [OF rel [unfolded xs]]
  show ?thesis
  proof (cases "\<exists>ys. c = Items ys \<and> position_index p < length ys")
    case True
    then obtain ys where c: "c = Items ys" "position_index p < length ys" by blast
    with remove_item_at_step [of cap lc A a "position_chunk p" ys B "position_index p"] rel Some xs
    obtain lc' where "remove_item_at p lc = Done (Inr (ys ! position_index p), lc')"
      "step_ok cap (OpRemoveItem p) lc xs lc'" by auto
    with Some c show ?thesis by (auto simp: meets_def simp del: run_bind_Done_iff)
  next
    case False
    with D(3,4) Some show ?thesis
      by (cases c) (auto simp: meets_def op_defs simp del: run_bind_Done_iff)
  qed
qed

lemma exec_insert_gap:
  assumes rel: "lc_rel cap lc xs" and cap: "0 < cap" and gen: "unat (generator lc) + cap + 4 \<le> 2 ^ 64"
  shows "meets cap (OpInsertGap x p) lc xs (op_outcome (map snd xs) (OpInsertGap x p))
    (exec_op cap (OpInsertGap x p) lc)"
proof (cases "map_of (map snd xs) (position_chunk p)")
  case None
  then show ?thesis using exec_missing(3) [OF rel] by (simp add: meets_def)
next
  case (Some c)
  then obtain A a B where xs: "xs = A @ (a, position_chunk p, c) # B" by (rule map_of_nodes)
  note D = lc_relD [OF rel [unfolded xs]]
  have first: "fst (hd (map snd xs)) = position_chunk p \<longleftrightarrow> A = []"
    using hd_nodes [OF rel [unfolded xs]] xs by simp
  show ?thesis
  proof (cases "\<exists>ys. c = Items ys \<and> (position_index p = 0 \<and> A \<noteq> [] \<or> position_index p < length ys)")
    case True
    then obtain ys where c: "c = Items ys" "position_index p = 0 \<and> A \<noteq> [] \<or> position_index p < length ys" by blast
    with insert_gap_at_step [of cap lc A a "position_chunk p" ys B "position_index p" x] rel cap gen xs
    have "\<exists>lc'. insert_gap_at cap x p lc = Done (Inr (), lc') \<and> step_ok cap (OpInsertGap x p) lc xs lc'" by simp
    moreover have "op_outcome (map snd xs) (OpInsertGap x p) = Ok_op" using Some c first by auto
    ultimately show ?thesis by (simp add: meets_def)
  next
    case False
    with D(3,4) Some first show ?thesis
      by (cases c) (auto simp: meets_def op_defs simp del: run_bind_Done_iff)
  qed
qed

lemma exec_replace_gap:
  assumes rel: "lc_rel cap lc xs" and cap: "0 < cap"
    and gen: "unat (generator lc) + length items + cap + 4 \<le> 2 ^ 64"
  shows "meets cap (OpReplaceGap items i) lc xs (op_outcome (map snd xs) (OpReplaceGap items i))
    (exec_op cap (OpReplaceGap items i) lc)"
proof (cases "map_of (map snd xs) i")
  case None
  then show ?thesis using exec_missing(4) [OF rel] by (simp add: meets_def)
next
  case (Some c)
  then obtain A a B where xs: "xs = A @ (a, i, c) # B" by (rule map_of_nodes)
  note D = lc_relD [OF rel [unfolded xs]]
  have first: "fst (hd (map snd xs)) = i \<longleftrightarrow> A = []" using hd_nodes [OF rel [unfolded xs]] xs by simp
  show ?thesis
  proof (cases "A \<noteq> [] \<and> (\<exists>x. c = Gap x)")
    case True
    then obtain x where c: "c = Gap x" by blast
    with replace_gap_at_step [of cap lc A a i x B items] rel cap gen xs True
    obtain q lc' where "replace_gap_at cap items i lc = Done (Inr q, lc')"
      "step_ok cap (OpReplaceGap items i) lc xs lc'" by auto
    with Some c first True show ?thesis by (auto simp: meets_def simp del: run_bind_Done_iff)
  next
    case False
    with D(3,4) Some first show ?thesis
      by (cases c) (auto simp: meets_def op_defs simp del: run_bind_Done_iff)
  qed
qed

lemma exec_op_meets:
  assumes rel: "lc_rel cap lc xs" and cap: "0 < cap"
    and gen: "unat (generator lc) + op_size op + cap + 4 \<le> 2 ^ 64"
  shows "meets cap op lc xs (op_outcome (map snd xs) op) (exec_op cap op lc)"
proof (cases op)
  case (OpPushItems items)
  with push_items_back_step [OF rel cap, of items] gen show ?thesis by (auto simp: meets_def)
next
  case (OpPushGap x)
  have "generator lc \<noteq> - 1" using gen by (intro not_max_word_if_unat [where n = 1]) simp_all
  with push_gap_back_step [OF rel, of x] OpPushGap show ?thesis by (auto simp: meets_def)
qed (use assms in \<open>auto simp del: exec_op.simps op_outcome.simps
    intro!: exec_insert_items exec_remove_item exec_insert_gap exec_replace_gap\<close>)

end
