(* ===== verification/Linked_Chunk_Traces.thy ===== *)
theory Linked_Chunk_Traces
  imports Linked_Chunk_Refinement
begin

text \<open>
  Whole lives of a linked chunk: construction, any sequence of operations, iteration and \<open>Drop\<close>.
  The iterators yield the represented chunks and items with their positions, dropping frees every
  cell, and a sequence of operations within the identifier budget never reaches undefined behaviour
  and never loops.
\<close>

section \<open>Iteration\<close>

definition view :: "('i, 'g) chunk \<Rightarrow> ('i, 'g) achunk" where
  "view c = (ident c, content c)"

lemma view_cell [simp]: "view \<lparr>previous = p, next_chunk = n, ident = i, content = c\<rparr> = (i, c)"
  by (simp add: view_def)

definition positions_of :: "('i, 'g) achunk list \<Rightarrow> (position \<times> 'i) list" where
  "positions_of cs = concat (map (\<lambda>(i, c). enumerate_items i c) cs)"

lemma positions_of_simps [simp]:
  "positions_of [] = []" "positions_of ((i, c) # cs) = enumerate_items i c @ positions_of cs"
  "positions_of (cs @ ds) = positions_of cs @ positions_of ds"
  by (simp_all add: positions_of_def)

lemma enumerate_items_simps [simp]:
  "enumerate_items i (Gap g) = []"
  "enumerate_items i (Items xs) = map (\<lambda>(k, x). (Position i k, x)) (enumerate 0 xs)"
  by (simp_all add: enumerate_items_def)

lemma map_snd_enumerate_items [simp]: "map snd (enumerate_items i c) = content_items c"
  by (cases c) (simp_all add: case_prod_unfold comp_def)

lemma length_enumerate_items [simp]: "length (enumerate_items i c) = length (content_items c)"
  using map_snd_enumerate_items [of i c] by (metis length_map)

lemma map_snd_positions_of [simp]: "map snd (positions_of cs) = items_of cs"
  by (induction cs) auto

lemma iter_forward_dll:
  assumes "dll (heap lc) p xs None" and "length xs \<le> fuel"
  shows "\<exists>cs. iter_forward fuel (head_addr xs None) lc = Done cs \<and> map view cs = map snd xs"
  using assms
proof (induction xs arbitrary: p fuel)
  case (Cons x xs)
  then obtain f where f: "fuel = Suc f" "length xs \<le> f" by (cases fuel) auto
  obtain cs where "iter_forward f (head_addr xs None) lc = Done cs" "map view cs = map snd xs"
    using Cons.IH [of "Some (fst x)" f] Cons.prems(1) f(2) by auto
  with Cons.prems(1) f show ?case
    by (auto simp: deref_def simp del: run_bind_Done_iff)
qed simp

lemma iter_backward_dll:
  assumes "dll (heap lc) None xs n" and "length xs \<le> fuel"
  shows "\<exists>cs. iter_backward fuel (last_addr xs None) lc = Done cs \<and> map view cs = rev (map snd xs)"
  using assms
proof (induction xs arbitrary: n fuel rule: rev_induct)
  case (snoc x xs)
  then obtain f where f: "fuel = Suc f" "length xs \<le> f" by (cases fuel) auto
  obtain cs where "iter_backward f (last_addr xs None) lc = Done cs" "map view cs = rev (map snd xs)"
    using snoc.IH [of "head_addr [x] n" f] snoc.prems(1) f(2) by auto
  with snoc.prems(1) f show ?case
    by (auto simp: deref_def simp del: run_bind_Done_iff)
qed (simp add: last_addr_def)

lemma concat_views:
  "map view cs = ds \<Longrightarrow> concat (map (\<lambda>c. enumerate_items (ident c) (content c)) cs) = positions_of ds"
  by (induction cs arbitrary: ds) (auto simp: view_def)

lemma concat_rev_views:
  "map view cs = rev ds \<Longrightarrow>
   concat (map (\<lambda>c. rev (enumerate_items (ident c) (content c))) cs) = rev (positions_of ds)"
proof (induction cs arbitrary: ds)
  case (Cons c cs)
  then obtain es where "ds = es @ [view c]" "map view cs = rev es"
    by (cases ds rule: rev_cases) auto
  with Cons.IH [of es] show ?case by (simp add: view_def [of c])
qed simp

lemma store_ok_chunks:
  assumes "lc_rel cap lc xs"
  obtains cs where "chunks lc = Done cs" "map view cs = map snd xs"
proof -
  have ok: "store_ok lc xs" by (rule lc_rel_store [OF assms])
  have "head_addr xs None = Some (links_first lc)"
    using lc_rel_first [OF assms] lc_rel_nonempty [OF assms] by (cases xs) auto
  moreover obtain cs where "iter_forward (brk lc) (head_addr xs None) lc = Done cs" "map view cs = map snd xs"
    using iter_forward_dll [of lc None xs "brk lc"] ok store_ok_length [OF ok] by (auto simp: store_ok_def)
  ultimately show thesis using that by (simp add: chunks_def)
qed

lemma store_ok_rchunks:
  assumes "lc_rel cap lc xs"
  obtains cs where "rchunks lc = Done cs" "map view cs = rev (map snd xs)"
proof -
  have ok: "store_ok lc xs" by (rule lc_rel_store [OF assms])
  have "last_addr xs None = Some (latest_chunk_ptr lc)"
    using lc_rel_last [OF assms] lc_rel_nonempty [OF assms] by (simp add: last_addr_def)
  moreover obtain cs where "iter_backward (brk lc) (last_addr xs None) lc = Done cs"
      "map view cs = rev (map snd xs)"
    using iter_backward_dll [of lc xs None "brk lc"] ok store_ok_length [OF ok] by (auto simp: store_ok_def)
  ultimately show thesis using that by (simp add: rchunks_def)
qed

lemma chunks_from_found:
  assumes "lc_rel cap lc (A @ (a, i, c) # B)"
  obtains cs where "chunks_from i lc = Done (Inr cs)" "map view cs = map snd ((a, i, c) # B)"
proof -
  note D = lc_relD [OF assms]
  have "dll (heap lc) (last_addr A None) ((a, i, c) # B) None" using D(1) by (auto simp: store_ok_def)
  moreover have "length ((a, i, c) # B) \<le> brk lc" using store_ok_length [OF D(1)] by simp
  ultimately obtain cs where "iter_forward (brk lc) (head_addr ((a, i, c) # B) None) lc = Done cs"
      "map view cs = map snd ((a, i, c) # B)"
    using iter_forward_dll by blast
  with that D(4) show thesis by (simp add: chunks_from_def del: run_bind_Done_iff)
qed

lemma rchunks_from_found:
  assumes "lc_rel cap lc (A @ (a, i, c) # B)"
  obtains cs where "rchunks_from i lc = Done (Inr cs)" "map view cs = rev (map snd (A @ [(a, i, c)]))"
proof -
  note D = lc_relD [OF assms]
  have "dll (heap lc) None (A @ [(a, i, c)]) (head_addr B None)" using D(1) by (auto simp: store_ok_def)
  moreover have "length (A @ [(a, i, c)]) \<le> brk lc" using store_ok_length [OF D(1)] by simp
  ultimately obtain cs where "iter_backward (brk lc) (last_addr (A @ [(a, i, c)]) None) lc = Done cs"
      "map view cs = rev (map snd (A @ [(a, i, c)]))"
    using iter_backward_dll by blast
  with that D(4) show thesis by (simp add: rchunks_from_def del: run_bind_Done_iff)
qed

lemma items_from_found:
  assumes "lc_rel cap lc (A @ (a, i, c) # B)"
  shows "items_from (Position i k) lc = Done (Inr (drop k (positions_of (map snd ((a, i, c) # B)))))"
proof -
  obtain cs where "chunks_from i lc = Done (Inr cs)" "map view cs = map snd ((a, i, c) # B)"
    using chunks_from_found [OF assms] .
  with concat_views [OF this(2)] show ?thesis by (simp add: items_from_def del: run_bind_Done_iff)
qed

lemma ritems_from_found:
  assumes "lc_rel cap lc (A @ (a, i, c) # B)"
  shows "ritems_from (Position i k) lc =
    Done (Inr (dropWhile (\<lambda>(p, _). position_index p \<noteq> k) (rev (positions_of (map snd (A @ [(a, i, c)]))))))"
proof -
  obtain cs where "rchunks_from i lc = Done (Inr cs)" "map view cs = rev (map snd (A @ [(a, i, c)]))"
    using rchunks_from_found [OF assms] .
  with concat_rev_views [OF this(2)] show ?thesis by (simp add: ritems_from_def del: run_bind_Done_iff)
qed

lemma lc_items_positions:
  assumes rel: "lc_rel cap lc xs"
  shows "lc_items lc = Done (positions_of (map snd xs))"
proof -
  obtain a i c B where xs: "xs = [] @ (a, i, c) # B" using lc_rel_nonempty [OF rel] by (cases xs) auto
  note rel' = rel [unfolded xs]
  have "first_chunk lc = Done \<lparr>previous = None, next_chunk = head_addr B None, ident = i, content = c\<rparr>"
    using lc_rel_first [OF rel] lc_relD(3) [OF rel'] xs by (simp add: first_chunk_def deref_def)
  with items_from_found [OF rel', of 0] xs show ?thesis
    by (simp add: lc_items_def first_position_def expect_ok_def del: run_bind_Done_iff)
qed

lemma ritems_dropWhile:
  assumes rel: "lc_rel cap lc xs" and xs: "xs = A @ [(a, i, c)]"
  shows "ritems lc = Done (dropWhile (\<lambda>(p, _). position_index p \<noteq> length (content_items c) - 1)
    (rev (positions_of (map snd xs))))"
proof -
  note rel' = rel [unfolded xs]
  have "latest_chunk lc = Done \<lparr>previous = last_addr A None, next_chunk = None, ident = i, content = c\<rparr>"
    using lc_rel_last [OF rel] lc_relD(3) [OF rel'] xs by (simp add: latest_chunk_def deref_def)
  with ritems_from_found [OF rel', of "length (content_items c) - 1"] xs show ?thesis
    by (cases c) (simp_all add: ritems_def last_position_def expect_ok_def del: run_bind_Done_iff)
qed

lemma ritems_positions:
  assumes rel: "lc_rel cap lc xs" and last: "snd (snd (last xs)) = Items ys" "ys \<noteq> []"
  shows "ritems lc = Done (rev (positions_of (map snd xs)))"
proof -
  obtain A a i where xs: "xs = A @ [(a, i, Items ys)]"
    using lc_rel_nonempty [OF rel] last(1) by (cases xs rule: rev_cases) auto
  obtain zs z where "ys = zs @ [z]" using last(2) by (cases ys rule: rev_cases) auto
  then show ?thesis using ritems_dropWhile [OF rel xs] xs by (simp add: enumerate_append_eq)
qed

section \<open>Drop\<close>

lemma drop_loop_frees:
  assumes "dll (heap lc) None xs None" and "distinct_addrs xs" and "dom (heap lc) = addrs xs"
    and "length xs \<le> fuel"
  shows "\<exists>lc'. drop_loop fuel (last_addr xs None) lc = Done lc' \<and> heap lc' = Map.empty"
  using assms
proof (induction xs arbitrary: lc fuel rule: rev_induct)
  case (snoc x xs)
  then obtain f where f: "fuel = Suc f" "length xs \<le> f" by (cases fuel) auto
  have hx: "heap lc (fst x) = Some \<lparr>previous = last_addr xs None, next_chunk = None,
      ident = fst (snd x), content = snd (snd x)\<rparr>"
    using snoc.prems(1) by simp
  show ?case
  proof (cases xs rule: rev_cases)
    case Nil
    with snoc.prems hx f have "heap lc = [fst x \<mapsto> \<lparr>previous = None, next_chunk = None,
        ident = fst (snd x), content = snd (snd x)\<rparr>]"
      by (auto simp: fun_eq_iff dom_def)
    with hx f Nil show ?thesis by (simp add: deref_def reclaim_def last_addr_def del: run_bind_Done_iff)
  next
    case (snoc ys y)
    obtain yc where hy: "heap lc (fst y) = Some yc" "yc = \<lparr>previous = last_addr ys None,
        next_chunk = Some (fst x), ident = fst (snd y), content = snd (snd y)\<rparr>"
      using snoc.prems(1) snoc by simp
    let ?lc = "lc\<lparr>heap := ((heap lc)(fst y \<mapsto> yc\<lparr>next_chunk := None\<rparr>))(fst x := None)\<rparr>"
    have ne: "fst x \<noteq> fst y" "fst x \<notin> addrs xs" "fst y \<notin> addrs ys" "fst x \<notin> addrs ys"
      using snoc.prems(2) snoc by auto
    have dl: "dll (heap ?lc) None xs None" using snoc.prems(1) snoc hy ne by auto
    have dm: "dom (heap ?lc) = addrs xs" using snoc.prems(3) snoc ne by auto
    obtain lc' where "drop_loop f (last_addr xs None) ?lc = Done lc'" "heap lc' = Map.empty"
      using snoc.IH [OF dl _ dm f(2)] snoc.prems(2) by auto
    with hx hy ne f snoc show ?thesis
      by (auto simp: deref_def modify_def reclaim_def simp del: run_bind_Done_iff)
  qed
qed (auto simp: last_addr_def)

lemma drop_frees:
  assumes "lc_rel cap lc xs"
  shows "\<exists>lc'. drop_linked_chunk lc = Done lc' \<and> heap lc' = Map.empty"
proof -
  have ok: "store_ok lc xs" by (rule lc_rel_store [OF assms])
  have "last_addr xs None = Some (latest_chunk_ptr lc)"
    using lc_rel_last [OF assms] lc_rel_nonempty [OF assms] by (simp add: last_addr_def)
  with drop_loop_frees [of lc xs "brk lc"] ok store_ok_length [OF ok] show ?thesis
    by (auto simp: store_ok_def drop_linked_chunk_def)
qed

section \<open>Sequences of operations\<close>

lemma lc_new_rel: "lc_rel cap lc_new [(0, FIRST_IDENTIFIER, Items [])]"
  by (auto simp: lc_rel_def lc_new_def new_items_leaked_def leak_def chunk_new_def store_ok_def
      latest_chunk_ptr_def chunks_wf_def is_items_chunk_def new_from_scratch_def FIRST_IDENTIFIER_def)

lemma new_with_update_history_rel:
  "lc_rel cap new_with_update_history [(0, FIRST_IDENTIFIER, Items [])]"
  by (auto simp: lc_rel_def new_with_update_history_def new_items_leaked_def leak_def chunk_new_def store_ok_def
      latest_chunk_ptr_def chunks_wf_def is_items_chunk_def new_from_scratch_def FIRST_IDENTIFIER_def)

definition op_cost :: "nat \<Rightarrow> ('i, 'g) lc_op \<Rightarrow> nat" where
  "op_cost cap op = op_size op + cap + 2"

lemma lc_step_gen:
  assumes "lc_step cap (cs, g) op us (cs', g')" and "chunks_wf cap g cs" and cap: "0 < cap"
  shows "unat g' \<le> unat g + op_cost cap op"
  using assms(1)
proof cases
  case (push_back c items zs A)
  then show ?thesis using pushes_gen_le [OF push_back(4) cap] by (simp add: op_cost_def)
next
  case (insert_end B i ys items zs k A)
  then show ?thesis using pushes_gen_le [OF insert_end(4) cap] by (simp add: op_cost_def)
next
  case (insert_mid k ys B i items zs z us1 g1 ws us2 A)
  have "length ys \<le> cap" using assms(2) insert_mid(1) by (simp add: chunks_wf_def)
  then show ?thesis
    using insert_mid pushes_gen_le [OF insert_mid(6) cap] pushes_gen_le [OF insert_mid(7) cap]
    by (simp add: op_cost_def)
next
  case (gap_split k A ys B ws us1 i x)
  have "length ys \<le> cap" using assms(2) gap_split(1) by (simp add: chunks_wf_def)
  then show ?thesis
    using gap_split pushes_gen [OF gap_split(9) cap] cap unat_plus_one_word [of g] unat_plus_one_word [of "g + 1"]
    by (simp add: op_cost_def)
next
  case (replace_gap A B items ws us1 i x)
  then show ?thesis using pushes_gen_le [OF replace_gap(7) cap] cap
    by (simp add: op_cost_def unat_plus_one_word)
qed (auto simp: op_cost_def unat_plus_one_word)

fun exec_ops ::
  "nat \<Rightarrow> ('i, 'g) lc_op list \<Rightarrow> ('i, 'g) linked_chunk \<Rightarrow> ('i, 'g) linked_chunk run" where
  "exec_ops cap [] lc = Done lc"
| "exec_ops cap (op # ops) lc = run_bind (exec_op cap op lc) (\<lambda>(_, lc). exec_ops cap ops lc)"

lemma exec_ops_append:
  "exec_ops cap (xs @ ys) lc = run_bind (exec_ops cap xs lc) (exec_ops cap ys)"
  by (induction xs arbitrary: lc) (auto simp: run_bind_assoc case_prod_unfold)

lemma exec_op_cases:
  assumes "lc_rel cap lc xs" "0 < cap" "unat (generator lc) + op_size op + cap + 4 \<le> 2 ^ 64"
  obtains (ok) lc' xs' us where "op_outcome (map snd xs) op = Ok_op" "exec_op cap op lc = Done (Inr (), lc')"
      "lc_rel cap lc' xs'" "items_of (map snd xs') = op_items (map snd xs) op" "logged us lc lc'"
      "lc_step cap (map snd xs, generator lc) op us (map snd xs', generator lc')"
  | (err) e where "op_outcome (map snd xs) op = Err_op e" "exec_op cap op lc = Done (Inl e, lc)"
  | (panic) "op_outcome (map snd xs) op = Panic_op" "exec_op cap op lc = Panic"
proof (cases "op_outcome (map snd xs) op")
  case Ok_op
  with exec_op_meets [OF assms] obtain lc' xs' us where r: "exec_op cap op lc = Done (Inr (), lc')"
    "lc_rel cap lc' xs'" "logged us lc lc'"
    "lc_step cap (map snd xs, generator lc) op us (map snd xs', generator lc')"
    by (auto simp: meets_def step_ok_def)
  from ok [OF Ok_op r(1,2) lc_step_items [OF r(4) lc_rel_wf [OF assms(1)]] r(3,4)] show thesis .
next
  case (Err_op e)
  with exec_op_meets [OF assms] err show thesis by (simp add: meets_def)
next
  case Panic_op
  with exec_op_meets [OF assms] panic show thesis by (simp add: meets_def)
qed

text \<open>Some operation of the sequence meets a state in which it is specified to panic.\<close>

definition panics_as_specified :: "nat \<Rightarrow> ('i, 'g) lc_op list \<Rightarrow> ('i, 'g) linked_chunk \<Rightarrow> bool" where
  "panics_as_specified cap ops lc \<longleftrightarrow>
     (\<exists>pre op post lc' xs. ops = pre @ op # post \<and> exec_ops cap pre lc = Done lc' \<and>
        lc_rel cap lc' xs \<and> op_outcome (map snd xs) op = Panic_op)"

lemma panics_later:
  assumes "exec_op cap op lc = Done (r, lc')" "panics_as_specified cap ops lc'"
  shows "panics_as_specified cap (op # ops) lc"
proof -
  from assms(2) obtain pre o' post l xs where *: "ops = pre @ o' # post" "exec_ops cap pre lc' = Done l"
    "lc_rel cap l xs" "op_outcome (map snd xs) o' = Panic_op" by (auto simp: panics_as_specified_def)
  then have "op # ops = (op # pre) @ o' # post" "exec_ops cap (op # pre) lc = Done l" using assms(1) by simp_all
  with *(3,4) show ?thesis unfolding panics_as_specified_def by blast
qed

lemma panics_now:
  "lc_rel cap lc xs \<Longrightarrow> op_outcome (map snd xs) op = Panic_op \<Longrightarrow> panics_as_specified cap (op # ops) lc"
  unfolding panics_as_specified_def by (rule exI [of _ "[]"]) auto

lemma exec_ops_safe:
  assumes "lc_rel cap lc xs" "0 < cap"
    and "unat (generator lc) + sum_list (map (op_cost cap) ops) + 2 \<le> 2 ^ 64"
  shows "panics_as_specified cap ops lc \<and> exec_ops cap ops lc = Panic \<or>
    (\<exists>lc' xs'. exec_ops cap ops lc = Done lc' \<and> lc_rel cap lc' xs')"
  using assms
proof (induction ops arbitrary: lc xs)
  case (Cons op ops)
  have "unat (generator lc) + op_size op + cap + 4 \<le> 2 ^ 64" using Cons.prems(3) by (simp add: op_cost_def)
  with Cons.prems(1,2) show ?case
  proof (cases rule: exec_op_cases)
    case (ok lc' xs' us)
    then show ?thesis
      using Cons.IH [OF ok(3) Cons.prems(2)] Cons.prems(3)
        lc_step_gen [OF ok(6) lc_rel_wf [OF Cons.prems(1)] Cons.prems(2)] panics_later [OF ok(2)] by auto
  next
    case err
    then show ?thesis
      using Cons.IH [OF Cons.prems(1,2)] Cons.prems(3) panics_later [OF err(2)] by auto
  next
    case panic
    then show ?thesis using panics_now [OF Cons.prems(1)] by simp
  qed
qed auto

text \<open>The state a concrete sequence of operations reaches, with the chunks it represents.\<close>

lemma lc_new_reaches:
  fixes ops :: "('i, 'g) lc_op list"
  assumes "run_bind (exec_ops cap ops lc_new) (\<lambda>lc. run_bind (chunks lc) (\<lambda>cs. Done (map view cs))) = Done ds"
    and "0 < cap" and "sum_list (map (op_cost cap) ops) + 2 \<le> 2 ^ 64"
  obtains lc xs where "exec_ops cap ops lc_new = Done lc" "lc_rel cap lc xs" "map snd xs = ds"
proof -
  have "generator (lc_new :: ('i, 'g) linked_chunk) = 0"
    by (simp add: lc_new_def new_items_leaked_def leak_def new_from_scratch_def FIRST_IDENTIFIER_def)
  with exec_ops_safe [OF lc_new_rel assms(2), of ops] assms(1,3)
  obtain lc xs where r: "exec_ops cap ops lc_new = Done lc" "lc_rel cap lc xs" by auto
  obtain cs where "chunks lc = Done cs" "map view cs = map snd xs" using store_ok_chunks [OF r(2)] .
  with that [OF r] r(1) assms(1) show thesis by simp
qed

section \<open>Properties\<close>

text \<open>C1. On a heap that represents a list of chunks, each of the six mutating
  operations returns. When the specification accepts the call, the new heap represents a list of
  chunks whose items are exactly the specified ones (insertion, removal or nothing at the given
  offset), which keeps the data invariant, the cached length and the link to the last chunk, and the
  logged updates are those of the specified step; when it refuses the call, the specified error comes
  back and nothing at all has changed; the only panics are the two specified ones.\<close>

theorem exec_op_refines:
  assumes "lc_rel cap lc xs" and "0 < cap"
    and "unat (generator lc) + op_size op + cap + 4 \<le> 2 ^ 64"
  shows "case op_outcome (map snd xs) op of
      Ok_op \<Rightarrow> \<exists>lc' xs' us. exec_op cap op lc = Done (Inr (), lc') \<and> lc_rel cap lc' xs' \<and>
        items_of (map snd xs') = op_items (map snd xs) op \<and> logged us lc lc' \<and>
        lc_step cap (map snd xs, generator lc) op us (map snd xs', generator lc')
    | Err_op e \<Rightarrow> exec_op cap op lc = Done (Inl e, lc)
    | Panic_op \<Rightarrow> exec_op cap op lc = Panic"
  using assms
proof (cases rule: exec_op_cases)
  case (ok lc' xs' us)
  then show ?thesis by (simp del: exec_op.simps) blast
qed simp_all

theorem exec_op_refines_witness:
  "\<exists>lc' xs' us. exec_op 3 (OpPushItems [10, 11, 12, 13 :: nat]) (lc_new :: (nat, nat) linked_chunk) = Done (Inr (), lc')
     \<and> lc_rel 3 lc' xs' \<and> items_of (map snd xs') = [10, 11, 12, 13] \<and> logged us lc_new lc'"
  using exec_op_refines [OF lc_new_rel, of 3 "OpPushItems [10, 11, 12, 13 :: nat]"]
  by (auto simp: lc_new_def new_items_leaked_def leak_def new_from_scratch_def FIRST_IDENTIFIER_def
      simp del: exec_op.simps)

text \<open>C2. From a new linked chunk, with or without update history, any sequence
  of operations whose identifiers fit the counter runs without undefined behaviour and every loop
  ends: either an operation panics where the specification says so, or the final heap represents a list of chunks and holds no other
  cell, iterating forwards yields exactly those chunks, and dropping the linked chunk frees every
  cell.\<close>

theorem linked_chunk_lifecycle:
  assumes "0 < cap" and "sum_list (map (op_cost cap) ops) + 2 \<le> 2 ^ 64"
    and "lc \<in> {lc_new, new_with_update_history}"
  shows "panics_as_specified cap ops lc \<and> exec_ops cap ops lc = Panic \<or>
    (\<exists>lc' xs' cs lc''. exec_ops cap ops lc = Done lc' \<and> lc_rel cap lc' xs' \<and>
       chunks lc' = Done cs \<and> map view cs = map snd xs' \<and>
       drop_linked_chunk lc' = Done lc'' \<and> heap lc'' = Map.empty)"
proof -
  have "lc_rel cap lc [(0, FIRST_IDENTIFIER, Items [])]"
    using assms(3) lc_new_rel new_with_update_history_rel by blast
  moreover have "generator lc = 0"
    using assms(3) by (auto simp: lc_new_def new_with_update_history_def new_items_leaked_def leak_def
        new_from_scratch_def FIRST_IDENTIFIER_def)
  ultimately have "panics_as_specified cap ops lc \<and> exec_ops cap ops lc = Panic \<or>
      (\<exists>lc' xs'. exec_ops cap ops lc = Done lc' \<and> lc_rel cap lc' xs')"
    using exec_ops_safe [of cap lc _ ops] assms(1,2) by simp
  then show ?thesis using store_ok_chunks drop_frees by metis
qed

theorem linked_chunk_lifecycle_witness:
  "\<exists>lc' xs' cs lc''. exec_ops 3 [OpPushItems ''abcde'', OpPushGap (), OpRemoveItem (Position 0 1)] lc_new = Done lc' \<and>
     lc_rel 3 lc' xs' \<and> chunks lc' = Done cs \<and> map view cs = map snd xs' \<and>
     drop_linked_chunk lc' = Done lc'' \<and> heap lc'' = Map.empty"
proof -
  let ?ops = "[OpPushItems ''abcde'', OpPushGap (), OpRemoveItem (Position 0 1)]"
  have "run_bind (exec_ops 3 ?ops lc_new) lc_items =
      Done [(Position 0 0, CHR ''a''), (Position 0 1, CHR ''c''), (Position 1 0, CHR ''d''), (Position 1 1, CHR ''e'')]"
    by code_simp
  then have "exec_ops 3 ?ops lc_new \<noteq> Panic" by auto
  with linked_chunk_lifecycle [of 3 ?ops lc_new] show ?thesis by (simp add: op_cost_def)
qed

text \<open>C27. \<open>items\<close> yields every item in order with its position, and
  \<open>items_from\<close> yields the items from a position on, or the error for an unknown chunk.\<close>

theorem items_with_positions:
  assumes "lc_rel cap lc xs"
  shows "lc_items lc = Done (positions_of (map snd xs)) \<and>
    items_from p lc = Done (case item_offset (map snd xs) p of
        None \<Rightarrow> Inl (InvalidChunkIdentifier (position_chunk p))
      | Some n \<Rightarrow> Inr (drop n (positions_of (map snd xs))))"
proof
  show "lc_items lc = Done (positions_of (map snd xs))" by (rule lc_items_positions [OF assms])
next
  have d: "distinct (map fst (map snd xs))" using lc_rel_wf [OF assms] by (simp add: chunks_wf_def)
  show "items_from p lc = Done (case item_offset (map snd xs) p of
        None \<Rightarrow> Inl (InvalidChunkIdentifier (position_chunk p))
      | Some n \<Rightarrow> Inr (drop n (positions_of (map snd xs))))"
  proof (cases "map_of (map snd xs) (position_chunk p)")
    case None
    have "item_offset cs p = None" if "map_of cs (position_chunk p) = None" for cs :: "('a, 'b) achunk list"
      using that by (induction cs) auto
    with None chunk_mut_missing [OF assms None] show ?thesis
      by (simp add: items_from_def chunks_from_def del: run_bind_Done_iff)
  next
    case (Some c)
    then obtain A a B where xs: "xs = A @ (a, position_chunk p, c) # B" by (rule map_of_nodes)
    have "length (positions_of (map snd A)) = length (items_of (map snd A))"
      by (metis map_snd_positions_of length_map)
    with items_from_found [OF assms [unfolded xs], of "position_index p"] d xs
      item_offset_here [of "map snd A" "position_chunk p" c "map snd B" "position_index p"]
    show ?thesis by simp
  qed
qed

theorem items_with_positions_witness:
  "\<exists>lc. exec_ops 2 [OpPushItems ''abc'', OpPushGap ()] lc_new = Done lc \<and>
     items_from (Position 0 1) lc = Done (Inr [(Position 0 1, CHR ''b''), (Position 1 0, CHR ''c'')]) \<and>
     items_from (Position 7 0) lc = Done (Inl (InvalidChunkIdentifier 7))"
proof -
  let ?ops = "[OpPushItems ''abc'', OpPushGap ()]"
  have "run_bind (exec_ops 2 ?ops lc_new) (\<lambda>lc. run_bind (chunks lc) (\<lambda>cs. Done (map view cs))) =
      Done [(0, Items ''ab''), (1, Items ''c''), (2, Gap ())]" by code_simp
  moreover have "sum_list (map (op_cost 2) ?ops) + 2 \<le> 2 ^ 64" by (simp add: op_cost_def)
  ultimately obtain lc xs where "exec_ops 2 ?ops lc_new = Done lc" "lc_rel 2 lc xs"
    "map snd xs = [(0, Items ''ab''), (1, Items ''c''), (2, Gap ())]"
    by (rule lc_new_reaches [where cap = 2 and ops = ?ops, OF _ zero_less_numeral])
  with items_with_positions [of 2 lc xs "Position 0 1"] items_with_positions [of 2 lc xs "Position 7 0"]
  show ?thesis by (auto simp del: exec_ops.simps)
qed

text \<open>When the last chunk holds at least one item, \<open>ritems\<close> yields every item in
  reverse order with its position, and \<open>item_position\<close> finds the last item that satisfies the
  predicate, answering \<open>None\<close> only when there is none.\<close>

theorem ritems_complete:
  assumes "lc_rel cap lc xs" and "snd (snd (last xs)) = Items ys" "ys \<noteq> []"
  shows "ritems lc = Done (rev (positions_of (map snd xs))) \<and>
    (\<exists>r. item_position P lc = Done r \<and>
       (r = None \<longleftrightarrow> (\<forall>x \<in> set (items_of (map snd xs)). \<not> P x)) \<and>
       (\<forall>p. r = Some p \<longrightarrow> (\<exists>x. (p, x) \<in> set (positions_of (map snd xs)) \<and> P x)))"
proof -
  let ?ps = "rev (positions_of (map snd xs))"
  have r: "ritems lc = Done ?ps" by (rule ritems_positions [OF assms])
  then have "item_position P lc = Done (map_option fst (List.find (\<lambda>(_, x). P x) ?ps))"
    by (simp add: item_position_def del: run_bind_Done_iff)
  moreover have "set (items_of (map snd xs)) = snd ` set ?ps"
    by (metis map_snd_positions_of list.set_map set_rev)
  ultimately show ?thesis
    using r by (auto simp: find_None_iff dest!: find_SomeD)
qed

theorem ritems_complete_witness:
  "\<exists>lc. exec_ops 2 [OpPushGap (), OpPushItems ''abc''] lc_new = Done lc \<and>
     ritems lc = Done [(Position 3 0, CHR ''c''), (Position 2 1, CHR ''b''), (Position 2 0, CHR ''a'')]"
proof -
  let ?ops = "[OpPushGap (), OpPushItems ''abc'']"
  have "run_bind (exec_ops 2 ?ops lc_new) (\<lambda>lc. run_bind (chunks lc) (\<lambda>cs. Done (map view cs))) =
      Done [(0, Items []), (1, Gap ()), (2, Items ''ab''), (3, Items ''c'')]" by code_simp
  moreover have "sum_list (map (op_cost 2) ?ops) + 2 \<le> 2 ^ 64" by (simp add: op_cost_def)
  ultimately obtain lc xs where r: "exec_ops 2 ?ops lc_new = Done lc" "lc_rel 2 lc xs"
    "map snd xs = [(0, Items []), (1, Gap ()), (2, Items ''ab''), (3, Items ''c'')]"
    by (rule lc_new_reaches [where cap = 2 and ops = ?ops, OF _ zero_less_numeral])
  have "snd (last xs) = (3, Items ''c'')" using r(3) last_map [of xs snd] by auto
  with r ritems_complete [of 2 lc xs "''c''"] show ?thesis by (auto simp del: exec_ops.simps)
qed

text \<open>When the last chunk is a gap, \<open>ritems\<close> drops items: of two items followed
  by a gap it yields only the first, so \<open>item_position\<close> does not find the second, although
  \<open>items\<close> yields both.\<close>

theorem ritems_skips_items:
  "let lc = exec_ops 3 [OpPushItems [10, 11 :: nat], OpPushGap ()] lc_new in
     run_bind lc lc_items = Done [(Position 0 0, 10), (Position 0 1, 11)] \<and>
     run_bind lc ritems = Done [(Position 0 0, 10)] \<and>
     run_bind lc (item_position (\<lambda>x. x = 11)) = Done None"
  by code_simp

text \<open>\<open>remove_item_at\<close> with an index equal to the number of items of the
  chunk panics instead of answering \<open>InvalidItemIndex\<close>, whatever the linked chunk.\<close>

theorem remove_at_length_panics:
  assumes "lc_rel cap lc (A @ (a, i, Items ys) # B)"
  shows "remove_item_at (Position i (length ys)) lc = Panic \<and>
    remove_item_at (Position i (Suc (length ys))) lc = Done (Inl (InvalidItemIndex (Suc (length ys))), lc)"
  using lc_relD(3,4) [OF assms] by (simp add: op_defs del: run_bind_Done_iff)

theorem remove_at_length_panics_witness:
  "remove_item_at (Position 0 0) (lc_new :: (nat, nat) linked_chunk) = Panic"
  using remove_at_length_panics [where lc = "lc_new :: (nat, nat) linked_chunk" and A = "[]" and B = "[]" and ys = "[]",
      simplified append_Nil, OF lc_new_rel [of 3]] by (simp add: FIRST_IDENTIFIER_def)

end
