(* ===== verification/As_Vector.thy ===== *)
theory As_Vector
  imports Linked_Chunk_Traces
begin

text \<open>
  \<open>AsVector\<close> of \<open>linked_chunk/as_vector.rs\<close>: a reader of the update history that turns the updates of
  a linked chunk into differences on a flat vector of items, keeping only the identifier and the
  length of each chunk. The lemmas show that, as long as those pairs describe the linked chunk in
  order, applying the differences to the vector yields exactly the items of the linked chunk.
\<close>

section \<open>The mapper\<close>

type_synonym pairs = "(chunk_id \<times> nat) list"

text \<open>
  The differences the mapper emits, with the meaning the consumer of the vector gives them:
  \<open>Append\<close> adds at the end, \<open>Insert\<close> needs an index of at most the length, \<open>Remove\<close> an index below it.
\<close>

datatype 'i vector_diff = Append "'i list" | Insert nat 'i | Remove nat

fun apply_diff :: "'i vector_diff \<Rightarrow> 'i list \<Rightarrow> 'i list run" where
  "apply_diff (Append ys) xs = Done (xs @ ys)"
| "apply_diff (Insert n y) xs = (if n \<le> length xs then Done (take n xs @ y # drop n xs) else Panic)"
| "apply_diff (Remove n) xs = (if n < length xs then Done (take n xs @ drop (Suc n) xs) else Panic)"

fun apply_diffs :: "'i vector_diff list \<Rightarrow> 'i list \<Rightarrow> 'i list run" where
  "apply_diffs [] xs = Done xs"
| "apply_diffs (d # ds) xs = run_bind (apply_diff d xs) (apply_diffs ds)"

definition chunk_pair :: "('i, 'g) chunk \<Rightarrow> chunk_id \<times> nat" where
  "chunk_pair c = (ident c, case content c of Gap _ \<Rightarrow> 0 | Items xs \<Rightarrow> length xs)"

definition mapper_new :: "('i, 'g) chunk list \<Rightarrow> pairs" where
  "mapper_new chunk_iterator = fold (\<lambda>c ps. chunk_pair c # ps) chunk_iterator []"

fun pair_position :: "chunk_id \<Rightarrow> pairs \<Rightarrow> nat option" where
  "pair_position i [] = None"
| "pair_position i (p # ps) = (if fst p = i then Some 0 else map_option Suc (pair_position i ps))"

fun map_to_offset_loop :: "chunk_id \<Rightarrow> nat \<Rightarrow> nat \<Rightarrow> pairs \<Rightarrow> (nat \<times> nat \<times> nat) run" where
  "map_to_offset_loop i offset chunk_index [] = Panic"
| "map_to_offset_loop i offset chunk_index ((j, len) # ps) =
     (if j = i then Done (offset, chunk_index, len)
      else map_to_offset_loop i (offset + len) (Suc chunk_index) ps)"

definition map_to_offset :: "position \<Rightarrow> pairs \<Rightarrow> (nat \<times> nat \<times> nat) run" where
  "map_to_offset p ps = map_to_offset_loop (position_chunk p) (position_index p) 0 ps"

text \<open>\<open>NewItemsChunk\<close> and \<open>NewGapChunk\<close>: where the pair of the new chunk goes.\<close>

fun map_new_chunk :: "chunk_id option \<Rightarrow> chunk_id \<Rightarrow> chunk_id option \<Rightarrow> pairs \<Rightarrow> pairs run" where
  "map_new_chunk (Some prev_id) new None ps =
     run_bind (debug_assert (ps \<noteq> [] \<and> fst (last ps) = prev_id)) (\<lambda>_. Done (ps @ [(new, 0)]))"
| "map_new_chunk None new (Some next_id) ps =
     run_bind (debug_assert (ps \<noteq> [] \<and> fst (hd ps) = next_id)) (\<lambda>_. Done ((new, 0) # ps))"
| "map_new_chunk (Some prev_id) new (Some next_id) ps =
     run_bind (run_of_option (pair_position next_id ps)) (\<lambda>k.
     run_bind (debug_assert (0 < k \<and> fst (ps ! (k - 1)) = prev_id)) (\<lambda>_.
     Done (take k ps @ (new, 0) # drop k ps)))"
| "map_new_chunk None new None ps = Panic"

definition map_remove_chunk :: "chunk_id \<Rightarrow> pairs \<Rightarrow> pairs run" where
  "map_remove_chunk i ps =
     run_bind (run_of_option (pair_position i ps)) (\<lambda>k. Done (take k ps @ drop (Suc k) ps))"

record flags =
  reattaching :: bool
  detaching :: bool

definition map_push_items ::
  "flags \<Rightarrow> position \<Rightarrow> 'i list \<Rightarrow> pairs \<Rightarrow> (pairs \<times> 'i vector_diff list) run" where
  "map_push_items fl p items ps =
     run_bind (map_to_offset p ps) (\<lambda>(offset, chunk_index, chunk_length).
     let is_pushing_back = (chunk_index + 1 = length ps \<and> chunk_length \<le> position_index p);
         ps = ps[chunk_index := (fst (ps ! chunk_index), chunk_length + length items)]
     in Done (ps,
          if reattaching fl then []
          else if is_pushing_back \<and> \<not> detaching fl then [Append items]
          else map (\<lambda>(nth, item). Insert (offset + nth) item) (enumerate 0 items)))"

definition map_remove_item ::
  "flags \<Rightarrow> position \<Rightarrow> pairs \<Rightarrow> (pairs \<times> 'i vector_diff list) run" where
  "map_remove_item fl p ps =
     run_bind (map_to_offset p ps) (\<lambda>(offset, chunk_index, chunk_length).
     if chunk_length = 0 then Panic
     else Done (ps[chunk_index := (fst (ps ! chunk_index), chunk_length - 1)],
            if reattaching fl then [] else [Remove offset]))"

definition map_detach_last_items :: "position \<Rightarrow> pairs \<Rightarrow> pairs run" where
  "map_detach_last_items p ps =
     run_bind (run_of_option (pair_position (position_chunk p) ps)) (\<lambda>k.
     Done (ps[k := (fst (ps ! k), position_index p)]))"

fun map_update ::
  "flags \<Rightarrow> pairs \<Rightarrow> ('i, 'g) update \<Rightarrow> (flags \<times> pairs \<times> 'i vector_diff list) run" where
  "map_update fl ps (NewItemsChunk prev_id new next_id) =
     run_bind (map_new_chunk prev_id new next_id ps) (\<lambda>ps. Done (fl, ps, []))"
| "map_update fl ps (NewGapChunk prev_id new next_id gap) =
     run_bind (map_new_chunk prev_id new next_id ps) (\<lambda>ps. Done (fl, ps, []))"
| "map_update fl ps (RemoveChunk i) = run_bind (map_remove_chunk i ps) (\<lambda>ps. Done (fl, ps, []))"
| "map_update fl ps (PushItems p items) =
     run_bind (map_push_items fl p items ps) (\<lambda>(ps, ds). Done (fl, ps, ds))"
| "map_update fl ps (RemoveItem p) = run_bind (map_remove_item fl p ps) (\<lambda>(ps, ds). Done (fl, ps, ds))"
| "map_update fl ps (DetachLastItems p) =
     run_bind (map_detach_last_items p ps) (\<lambda>ps. Done (fl\<lparr>detaching := True\<rparr>, ps, []))"
| "map_update fl ps StartReattachItems = Done (fl\<lparr>reattaching := True\<rparr>, ps, [])"
| "map_update fl ps EndReattachItems = Done (fl\<lparr>reattaching := False, detaching := False\<rparr>, ps, [])"

fun map_loop ::
  "flags \<Rightarrow> pairs \<Rightarrow> ('i, 'g) update list \<Rightarrow> (flags \<times> pairs \<times> 'i vector_diff list) run" where
  "map_loop fl ps [] = Done (fl, ps, [])"
| "map_loop fl ps (u # us) =
     run_bind (map_update fl ps u) (\<lambda>(fl, ps, ds).
     run_bind (map_loop fl ps us) (\<lambda>(fl, ps, es). Done (fl, ps, ds @ es)))"

definition no_flags :: flags where
  "no_flags = \<lparr>reattaching = False, detaching = False\<rparr>"

definition mapper_map ::
  "pairs \<Rightarrow> ('i, 'g) update list \<Rightarrow> (pairs \<times> 'i vector_diff list) run" where
  "mapper_map ps us = run_bind (map_loop no_flags ps us) (\<lambda>(_, ps, ds). Done (ps, ds))"

section \<open>The reader\<close>

record as_vector =
  av_token :: reader_token
  mapper :: pairs

definition as_vector_new ::
  "('i, 'g) updates_inner \<Rightarrow> reader_token \<Rightarrow> ('i, 'g) chunk list
   \<Rightarrow> (as_vector \<times> ('i, 'g) updates_inner) run" where
  "as_vector_new l token chunk_iterator =
     run_bind (take_with_token token l) (\<lambda>(_, l).
     Done (\<lparr>av_token = token, mapper = mapper_new chunk_iterator\<rparr>, l))"

definition as_vector_take ::
  "as_vector \<Rightarrow> ('i, 'g) updates_inner \<Rightarrow> ('i vector_diff list \<times> as_vector \<times> ('i, 'g) updates_inner) run" where
  "as_vector_take av l =
     run_bind (take_with_token (av_token av) l) (\<lambda>(us, l).
     run_bind (mapper_map (mapper av) us) (\<lambda>(ps, ds).
     Done (ds, av\<lparr>mapper := ps\<rparr>, l)))"

definition lc_as_vector ::
  "('i, 'g) linked_chunk \<Rightarrow> (as_vector option \<times> ('i, 'g) linked_chunk) run" where
  "lc_as_vector lc =
     (case lc_updates lc of
        None \<Rightarrow> Done (None, lc)
      | Some l \<Rightarrow>
          let (token, l) = new_reader_token l in
          run_bind (chunks lc) (\<lambda>cs.
          run_bind (as_vector_new l token cs) (\<lambda>(av, l).
          Done (Some av, lc\<lparr>lc_updates := Some l\<rparr>))))"

section \<open>The pairs of a list of chunks\<close>

definition lens :: "('i, 'g) achunk list \<Rightarrow> pairs" where
  "lens cs = map (\<lambda>(i, c). (i, length (content_items c))) cs"

lemma lens_simps [simp]:
  "lens [] = []" "lens ((i, c) # cs) = (i, length (content_items c)) # lens cs"
  "lens (cs @ ds) = lens cs @ lens ds" "length (lens cs) = length cs"
  by (simp_all add: lens_def)

lemma fst_lens [simp]: "fst ` set (lens cs) = fst ` set cs"
  by (force simp: lens_def)

lemma lens_eq_Nil [simp]: "lens cs = [] \<longleftrightarrow> cs = []"
  by (simp add: lens_def)

lemma last_lens [simp]: "cs \<noteq> [] \<Longrightarrow> fst (last (lens cs)) = fst (last cs)"
  by (simp add: lens_def last_map case_prod_unfold)

lemma pair_position_here: "i \<notin> fst ` set ps \<Longrightarrow> pair_position i (ps @ (i, n) # qs) = Some (length ps)"
  by (induction ps) auto

lemma map_to_offset_loop_here:
  "i \<notin> fst ` set cs \<Longrightarrow>
   map_to_offset_loop i off k (lens cs @ (i, n) # ps) = Done (off + length (items_of cs), k + length cs, n)"
  by (induction cs arbitrary: off k) auto

lemma map_to_offset_here:
  assumes "i \<notin> fst ` set A"
  shows "map_to_offset (Position i k) (lens (A @ (i, c) # B)) =
    Done (k + length (items_of A), length A, length (content_items c))"
  using map_to_offset_loop_here [OF assms, of k 0] by (simp add: map_to_offset_def)

section \<open>Updates of one chunk\<close>

text \<open>
  \<open>turns fl ps xs us fl' ps' ys\<close>: the mapper goes through the updates \<open>us\<close> without panicking, and the
  differences it emits turn the vector \<open>xs\<close> into \<open>ys\<close>.
\<close>

definition turns ::
  "flags \<Rightarrow> pairs \<Rightarrow> 'i list \<Rightarrow> ('i, 'g) update list \<Rightarrow> flags \<Rightarrow> pairs \<Rightarrow> 'i list \<Rightarrow> bool" where
  "turns fl ps xs us fl' ps' ys \<longleftrightarrow>
     (\<exists>ds. map_loop fl ps us = Done (fl', ps', ds) \<and> apply_diffs ds xs = Done ys)"

lemma apply_diffs_append: "apply_diffs (ds @ es) xs = run_bind (apply_diffs ds xs) (apply_diffs es)"
proof (induction ds arbitrary: xs)
  case (Cons d ds)
  then show ?case by (cases "apply_diff d xs") simp_all
qed simp

lemma turns_Nil [simp]: "turns fl ps xs [] fl' ps' ys \<longleftrightarrow> fl' = fl \<and> ps' = ps \<and> ys = xs"
  by (auto simp: turns_def)

lemma turns_Cons:
  "map_update fl ps u = Done (fl1, ps1, ds) \<Longrightarrow> apply_diffs ds xs = Done xs1 \<Longrightarrow>
   turns fl1 ps1 xs1 us fl' ps' ys \<Longrightarrow> turns fl ps xs (u # us) fl' ps' ys"
  by (auto simp: turns_def apply_diffs_append)

lemma turns_append:
  "turns fl ps xs us fl1 ps1 xs1 \<Longrightarrow> turns fl1 ps1 xs1 vs fl' ps' ys \<Longrightarrow>
   turns fl ps xs (us @ vs) fl' ps' ys"
proof (induction us arbitrary: fl ps xs)
  case (Cons u us)
  then obtain fl2 ps2 ds xs2 where u: "map_update fl ps u = Done (fl2, ps2, ds)"
    "apply_diffs ds xs = Done xs2" "turns fl2 ps2 xs2 us fl1 ps1 xs1"
    by (auto simp: turns_def apply_diffs_append)
  from turns_Cons [OF u(1,2) Cons.IH [OF u(3) Cons.prems(2)]] show ?case by simp
qed simp

lemma apply_inserts:
  "length xs = off + n \<Longrightarrow>
   apply_diffs (map (\<lambda>(nth, x). Insert (off + nth) x) (enumerate n items)) (xs @ R) = Done (xs @ items @ R)"
proof (induction items arbitrary: n xs)
  case (Cons y items)
  from Cons.IH [of "xs @ [y]" "Suc n"] Cons.prems show ?case by simp
qed simp

lemma map_new_chunk_here:
  assumes "distinct (map fst (A @ c # B))"
  shows "map_new_chunk (Some (fst c)) j (head_id B) (lens (A @ c # B)) = Done (lens (A @ [c]) @ (j, 0) # lens B)"
proof (cases B)
  case Nil
  then show ?thesis by (cases c) (simp add: debug_assert_def)
next
  case (Cons b B')
  obtain i d where c: "c = (i, d)" by (cases c)
  obtain k e where b: "b = (k, e)" by (cases b)
  have "k \<notin> fst ` set (A @ [c])" using assms Cons b by auto
  then have "pair_position k (lens (A @ [c]) @ (k, length (content_items e)) # lens B') = Some (length (lens (A @ [c])))"
    using pair_position_here [of k "lens (A @ [c])"] unfolding fst_lens by blast
  with Cons b c show ?thesis by (simp add: debug_assert_def nth_append)
qed

lemma map_remove_chunk_here:
  assumes "i \<notin> fst ` set A"
  shows "map_remove_chunk i (lens (A @ (i, c) # B)) = Done (lens (A @ B))"
  using assms pair_position_here [of i "lens A"] by (simp add: map_remove_chunk_def del: run_bind_Done_iff)

lemma map_detach_here:
  assumes "i \<notin> fst ` set A"
  shows "map_detach_last_items (Position i k) (lens (A @ (i, c) # B)) = Done (lens A @ (i, k) # lens B)"
  using assms pair_position_here [of i "lens A"]
  by (simp add: map_detach_last_items_def nth_append list_update_append del: run_bind_Done_iff)

lemma map_push_here:
  assumes "i \<notin> fst ` set A"
  shows "map_push_items fl (Position i (length ys)) items (lens (A @ (i, Items ys) # B)) =
    Done (lens (A @ (i, Items (ys @ items)) # B),
      if reattaching fl then []
      else if B = [] \<and> \<not> detaching fl then [Append items]
      else map (\<lambda>(nth, x). Insert (length (items_of A @ ys) + nth) x) (enumerate 0 items))"
  using map_to_offset_here [OF assms, of "length ys" "Items ys" B]
  by (auto simp: map_push_items_def Let_def nth_append list_update_append add.commute simp del: run_bind_Done_iff)

lemma push_turns:
  assumes "i \<notin> fst ` set A" and "detaching fl \<or> R = items_of B"
    and "if reattaching fl then zs = xs
         else xs = items_of A @ ys @ R \<and> zs = items_of A @ ys @ items @ R"
  shows "turns fl (lens (A @ (i, Items ys) # B)) xs [PushItems (Position i (length ys)) items]
    fl (lens (A @ (i, Items (ys @ items)) # B)) zs"
  unfolding turns_def
  using assms(2,3) apply_inserts [of "items_of A @ ys" "length (items_of A @ ys)" 0 items R]
    map_push_here [OF assms(1), of fl ys items B]
  by (auto split: if_splits)

section \<open>Updates of one operation\<close>

definition ids_ok :: "chunk_id \<Rightarrow> ('i, 'g) achunk list \<Rightarrow> bool" where
  "ids_ok g cs \<longleftrightarrow> distinct (map fst cs) \<and> (\<forall>c \<in> set cs. fst c \<le> g)"

lemma ids_ok_distinct: "ids_ok g (A @ (i, c) # B) \<Longrightarrow> i \<notin> fst ` set A"
  by (auto simp: ids_ok_def)

lemma chunks_wf_ids_ok: "chunks_wf cap g cs \<Longrightarrow> ids_ok g cs"
  by (auto simp: chunks_wf_def ids_ok_def)

lemma ids_ok_content: "ids_ok g (A @ (i, c) # B) \<Longrightarrow> ids_ok g (A @ (i, d) # B)"
  by (simp add: ids_ok_def)

lemma ids_ok_new:
  assumes "ids_ok g (A @ c # B)" "g \<noteq> - 1"
  shows "ids_ok (g + 1) (A @ c # (g + 1, d) # B)"
proof -
  have lt: "\<forall>t \<in> set (A @ c # B). fst t < g + 1"
    using assms(1) word_less_plus_one [OF assms(2)] by (auto simp: ids_ok_def intro: order_le_less_trans)
  then have "g + 1 \<notin> fst ` set (A @ c # B)" by fastforce
  then have "distinct (map fst (A @ c # (g + 1, d) # B))" using assms(1) by (auto simp: ids_ok_def)
  with lt show ?thesis unfolding ids_ok_def by (auto intro: order_less_imp_le)
qed

lemma new_items_turns:
  assumes "ids_ok g (A @ c # B)"
  shows "turns fl (lens (A @ c # B)) xs [NewItemsChunk (Some (fst c)) j (head_id B)]
    fl (lens (A @ c # (j, Items []) # B)) xs"
  using map_new_chunk_here [of A c B j] assms by (cases c) (auto simp: turns_def ids_ok_def)

lemma new_gap_turns:
  assumes "ids_ok g (A @ c # B)"
  shows "turns fl (lens (A @ c # B)) xs [NewGapChunk (Some (fst c)) j (head_id B) x]
    fl (lens (A @ c # (j, Gap x) # B)) xs"
  using map_new_chunk_here [of A c B j] assms by (cases c) (auto simp: turns_def ids_ok_def)

lemma detach_turns:
  assumes "ids_ok g (A @ (i, Items ys) # B)" "k \<le> length ys"
  shows "turns fl (lens (A @ (i, Items ys) # B)) xs [DetachLastItems (Position i k)]
    (fl\<lparr>detaching := True\<rparr>) (lens (A @ (i, Items (take k ys)) # B)) xs"
  using map_detach_here [OF ids_ok_distinct [OF assms(1)], of k "Items ys" B] assms(2)
  by (auto simp: turns_def min_absorb2)

lemma reattach_turns [simp]:
  "turns fl ps xs [StartReattachItems] fl' ps' ys \<longleftrightarrow> fl' = fl\<lparr>reattaching := True\<rparr> \<and> ps' = ps \<and> ys = xs"
  "turns fl ps xs [EndReattachItems] fl' ps' ys \<longleftrightarrow>
     fl' = fl\<lparr>reattaching := False, detaching := False\<rparr> \<and> ps' = ps \<and> ys = xs"
  by (auto simp: turns_def)

lemma remove_chunk_turns:
  assumes "ids_ok g (A @ (i, c) # B)"
  shows "turns fl (lens (A @ (i, c) # B)) xs [RemoveChunk i] fl (lens (A @ B)) xs"
  using map_remove_chunk_here [OF ids_ok_distinct [OF assms], of c B] by (auto simp: turns_def)

lemma remove_item_turns:
  assumes "ids_ok g (A @ (i, Items ys) # B)" "k < length ys" "\<not> reattaching fl"
  shows "turns fl (lens (A @ (i, Items ys) # B)) (items_of A @ ys @ R) [RemoveItem (Position i k)]
    fl (lens (A @ (i, Items (take k ys @ drop (Suc k) ys)) # B)) (items_of A @ take k ys @ drop (Suc k) ys @ R)"
  using map_to_offset_here [OF ids_ok_distinct [OF assms(1)], of k "Items ys" B] assms(2,3)
  by (auto simp: turns_def map_remove_item_def nth_append list_update_append Suc_diff_le add.commute)

lemma pushes_turns:
  assumes "pushes cap (head_id B) g c items zs us g'" "ids_ok g (A @ c # B)"
    and "detaching fl \<or> R = items_of B"
    and "if reattaching fl then ys = xs
         else xs = items_of A @ content_items (snd c) @ R \<and> ys = items_of A @ content_items (snd c) @ items @ R"
  shows "turns fl (lens (A @ c # B)) xs us fl (lens (A @ zs @ B)) ys"
  using assms
proof (induction g c items zs us g' arbitrary: A xs rule: pushes.induct)
  case (on_gap items g cs us g' i x)
  have "turns fl (lens ((A @ [(i, Gap x)]) @ (g + 1, Items []) # B)) xs us fl (lens ((A @ [(i, Gap x)]) @ cs @ B)) ys"
    using on_gap.prems ids_ok_new [OF on_gap.prems(1) on_gap.hyps(2)] by (intro on_gap.IH) auto
  with turns_append [OF new_items_turns [OF on_gap.prems(1), of fl xs "g + 1"]] show ?case by simp
next
  case (fits items xs' g i)
  then show ?case
    using push_turns [OF ids_ok_distinct [OF fits.prems(1)] fits.prems(2), of ys xs xs' items]
    by (simp split: if_splits)
next
  case (overflows ys' items g free cs us g' i)
  let ?push = "if 0 < free then [PushItems (Position i (length ys')) (take free items)] else []"
  let ?c = "(i, Items (ys' @ take free items))"
  let ?mid = "if reattaching fl then xs else items_of A @ ys' @ take free items @ R"
  have t1: "turns fl (lens (A @ (i, Items ys') # B)) xs ?push fl (lens (A @ ?c # B)) ?mid"
  proof (cases "0 < free")
    case True
    with push_turns [OF ids_ok_distinct [OF overflows.prems(1)] overflows.prems(2), of ?mid xs ys' "take free items"]
      overflows.prems(3)
    show ?thesis by (auto split: if_splits)
  next
    case False
    with overflows.prems(3) show ?thesis by (auto split: if_splits)
  qed
  have ok: "ids_ok g (A @ ?c # B)" by (rule ids_ok_content [OF overflows.prems(1)])
  note t2 = new_items_turns [OF ok, of fl ?mid "g + 1", unfolded fst_conv]
  have "turns fl (lens ((A @ [?c]) @ (g + 1, Items []) # B)) ?mid us fl (lens ((A @ [?c]) @ cs @ B)) ys"
    using overflows.prems(2,3) ids_ok_new [OF ok overflows.hyps(2)]
    by (intro overflows.IH) (auto split: if_splits)
  then have t3: "turns fl (lens (A @ ?c # (g + 1, Items []) # B)) ?mid us fl (lens (A @ (?c # cs) @ B)) ys"
    by simp
  from turns_append [OF t1 turns_append [OF t2 t3]] show ?case by (simp only: append_Cons append_Nil)
qed (auto split: if_splits)

lemma flags_simps [simp]:
  "\<not> reattaching no_flags" "\<not> detaching no_flags"
  "fl\<lparr>detaching := d, reattaching := r\<rparr> = \<lparr>reattaching = r, detaching = d\<rparr>"
  "fl\<lparr>reattaching := r, detaching := d\<rparr> = \<lparr>reattaching = r, detaching = d\<rparr>"
  by (simp_all add: no_flags_def)

lemma insert_mid_turns:
  assumes ok: "ids_ok g (A @ (i, Items ys) # B)" and k: "k < length ys"
    and p1: "pushes cap (head_id B) g (i, Items (take k ys)) items (zs @ [z]) us g'"
    and p2: "pushes cap (head_id B) g' z (drop k ys) ws vs g''"
    and ok': "ids_ok g' (A @ zs @ z # B)"
  shows "turns no_flags (lens (A @ (i, Items ys) # B)) (items_of (A @ (i, Items ys) # B))
    (DetachLastItems (Position i k) # us @ StartReattachItems # vs @ [EndReattachItems])
    no_flags (lens (A @ zs @ ws @ B)) (items_of (A @ zs @ ws @ B))"
proof -
  let ?x0 = "items_of A @ ys @ items_of B" and ?x1 = "items_of A @ take k ys @ items @ drop k ys @ items_of B"
  let ?d = "no_flags\<lparr>detaching := True\<rparr>"
  let ?r = "?d\<lparr>reattaching := True\<rparr>"
  have t1: "turns no_flags (lens (A @ (i, Items ys) # B)) ?x0 [DetachLastItems (Position i k)] ?d
      (lens (A @ (i, Items (take k ys)) # B)) ?x0"
    using k by (intro detach_turns [OF ok]) simp
  have t2: "turns ?d (lens (A @ (i, Items (take k ys)) # B)) ?x0 us ?d (lens (A @ (zs @ [z]) @ B)) ?x1"
    by (rule pushes_turns [OF p1 ids_ok_content [OF ok], where R = "drop k ys @ items_of B"])
      (simp_all add: no_flags_def)
  have t3: "turns ?r (lens ((A @ zs) @ z # B)) ?x1 vs ?r (lens ((A @ zs) @ ws @ B)) ?x1"
    by (rule pushes_turns [OF p2, where R = "items_of B"]) (use ok' in \<open>simp_all add: no_flags_def\<close>)
  have "turns ?d (lens (A @ (zs @ [z]) @ B)) ?x1 [StartReattachItems] ?r (lens ((A @ zs) @ z # B)) ?x1"
    and "turns ?r (lens ((A @ zs) @ ws @ B)) ?x1 [EndReattachItems] no_flags (lens ((A @ zs) @ ws @ B)) ?x1"
    by (simp_all add: no_flags_def)
  then have t: "turns no_flags (lens (A @ (i, Items ys) # B)) ?x0
      ([DetachLastItems (Position i k)] @ us @ [StartReattachItems] @ vs @ [EndReattachItems])
      no_flags (lens ((A @ zs) @ ws @ B)) ?x1"
    using t1 t2 t3 by (blast intro: turns_append)
  have e: "items_of (A @ zs @ ws @ B) = ?x1"
    using pushes_items [OF p1] pushes_items [OF p2] by simp
  show ?thesis unfolding e using t by simp
qed

lemma gap_split_turns:
  assumes ok: "ids_ok g (A @ (i, Items ys) # B)" and k: "k < length ys" and g: "g \<noteq> - 1" "g + 1 \<noteq> - 1"
    and p: "pushes cap (head_id B) (g + 1 + 1) (g + 1 + 1, Items []) (drop k ys) ws us g'"
  shows "turns no_flags (lens (A @ (i, Items ys) # B)) (items_of (A @ (i, Items ys) # B))
    ([DetachLastItems (Position i k), NewGapChunk (Some i) (g + 1) (head_id B) x,
      StartReattachItems, NewItemsChunk (Some (g + 1)) (g + 1 + 1) (head_id B)] @ us @ [EndReattachItems])
    no_flags (lens (A @ (i, Items (take k ys)) # (g + 1, Gap x) # ws @ B))
    (items_of (A @ (i, Items (take k ys)) # (g + 1, Gap x) # ws @ B))"
proof -
  let ?x0 = "items_of A @ ys @ items_of B"
  let ?d = "no_flags\<lparr>detaching := True\<rparr>"
  let ?r = "?d\<lparr>reattaching := True\<rparr>"
  let ?c = "(i, Items (take k ys))" and ?g = "(g + 1, Gap x)" and ?n = "(g + 1 + 1, Items [])"
  have ok1: "ids_ok g (A @ ?c # B)" by (rule ids_ok_content [OF ok])
  have ok2: "ids_ok (g + 1) ((A @ [?c]) @ ?g # B)" using ids_ok_new [OF ok1 g(1)] by simp
  have ok3: "ids_ok (g + 1 + 1) ((A @ [?c, ?g]) @ ?n # B)" using ids_ok_new [OF ok2 g(2)] by simp
  have t1: "turns no_flags (lens (A @ (i, Items ys) # B)) ?x0 [DetachLastItems (Position i k)] ?d (lens (A @ ?c # B)) ?x0"
    using k by (intro detach_turns [OF ok]) simp
  have t2: "turns ?d (lens (A @ ?c # B)) ?x0 [NewGapChunk (Some i) (g + 1) (head_id B) x] ?d (lens (A @ ?c # ?g # B)) ?x0"
    using new_gap_turns [OF ok1] by simp
  have t3: "turns ?d (lens (A @ ?c # ?g # B)) ?x0 [StartReattachItems] ?r (lens ((A @ [?c]) @ ?g # B)) ?x0"
    by simp
  have t4: "turns ?r (lens ((A @ [?c]) @ ?g # B)) ?x0 [NewItemsChunk (Some (g + 1)) (g + 1 + 1) (head_id B)]
      ?r (lens ((A @ [?c, ?g]) @ ?n # B)) ?x0"
    using new_items_turns [OF ok2, of ?r ?x0 "g + 1 + 1"] by simp
  have t5: "turns ?r (lens ((A @ [?c, ?g]) @ ?n # B)) ?x0 us ?r (lens ((A @ [?c, ?g]) @ ws @ B)) ?x0"
    by (rule pushes_turns [OF p ok3, where R = "items_of B"]) (simp_all add: no_flags_def)
  have t6: "turns ?r (lens ((A @ [?c, ?g]) @ ws @ B)) ?x0 [EndReattachItems] no_flags (lens ((A @ [?c, ?g]) @ ws @ B)) ?x0"
    by (simp add: no_flags_def)
  have e: "items_of (A @ ?c # ?g # ws @ B) = ?x0" using pushes_items [OF p] by simp
  show ?thesis unfolding e
    using turns_append [OF t1 turns_append [OF t2 turns_append [OF t3 turns_append [OF t4 turns_append [OF t5 t6]]]]]
    by simp
qed

lemma replace_gap_turns:
  assumes ok: "ids_ok g (A @ (i, Gap x) # B)" and g: "g \<noteq> - 1"
    and p: "pushes cap (head_id B) (g + 1) (g + 1, Items []) items ws us g'"
    and ok': "ids_ok g' (A @ (i, Gap x) # ws @ B)"
  shows "turns no_flags (lens (A @ (i, Gap x) # B)) (items_of (A @ (i, Gap x) # B))
    (NewItemsChunk (Some i) (g + 1) (head_id B) # us @ [RemoveChunk i])
    no_flags (lens (A @ ws @ B)) (items_of (A @ ws @ B))"
proof -
  let ?x0 = "items_of A @ items_of B" and ?x1 = "items_of A @ items @ items_of B"
  let ?A = "A @ [(i, Gap x)]"
  have t1: "turns no_flags (lens (A @ (i, Gap x) # B)) ?x0 [NewItemsChunk (Some i) (g + 1) (head_id B)]
      no_flags (lens (?A @ (g + 1, Items []) # B)) ?x0"
    using new_items_turns [OF ok, of no_flags ?x0 "g + 1"] by simp
  have t2: "turns no_flags (lens (?A @ (g + 1, Items []) # B)) ?x0 us no_flags (lens (?A @ ws @ B)) ?x1"
    using ids_ok_new [OF ok g, of "Items []"] by (intro pushes_turns [OF p, where R = "items_of B"]) simp_all
  have t3: "turns no_flags (lens (?A @ ws @ B)) ?x1 [RemoveChunk i] no_flags (lens (A @ ws @ B)) ?x1"
    using remove_chunk_turns [OF ok', of no_flags ?x1] by simp
  show ?thesis using turns_append [OF t1 turns_append [OF t2 t3]] pushes_items [OF p] by simp
qed

lemma lc_step_turns:
  assumes "lc_step cap (cs, g) op us (cs', g')" and wf: "chunks_wf cap g cs"
  shows "turns no_flags (lens cs) (items_of cs) us no_flags (lens cs') (items_of cs')"
proof -
  note ok = chunks_wf_ids_ok [OF wf]
  from assms(1) show ?thesis
  proof cases
    case (push_back c items zs A)
    with pushes_turns [where B = "[]" and R = "[]", of cap g c items zs us g' A no_flags] pushes_items [OF push_back(4)] ok
    show ?thesis by simp
  next
    case (push_gap A i c x)
    with new_gap_turns [of g A "(i, c)" "[]" no_flags _ "g + 1" x] ok show ?thesis by simp
  next
    case (insert_end B i ys items zs k A)
    with pushes_turns [OF insert_end(4), of A no_flags "items_of B"] pushes_items [OF insert_end(4)] ok
    show ?thesis by simp
  next
    case (insert_mid k ys B i items zs z us1 g1 ws us2 A)
    have "chunks_wf cap g1 (A @ (zs @ [z]) @ B)"
      using insert_mid wf chunks_wf_shrink [of cap g A i ys B "take k ys"]
      by (intro pushes_wf [OF insert_mid(6)]) simp
    then show ?thesis
      using insert_mid insert_mid_turns [OF _ insert_mid(5-7), of A] ok chunks_wf_ids_ok by auto
  next
    case (remove_keep k ys ys' A i B)
    with remove_item_turns [of g A i ys B k no_flags "items_of B"] ok show ?thesis by simp
  next
    case (remove_unlink A i y B)
    have "turns no_flags (lens cs) (items_of cs) [RemoveItem (Position i 0)]
        no_flags (lens (A @ (i, Items []) # B)) (items_of (A @ B))"
      using remove_item_turns [of g A i "[y]" B 0 no_flags "items_of B"] ok remove_unlink by simp
    moreover have "turns no_flags (lens (A @ (i, Items []) # B)) (items_of (A @ B)) [RemoveChunk i]
        no_flags (lens (A @ B)) (items_of (A @ B))"
      using remove_unlink ok ids_ok_content by (intro remove_chunk_turns) blast
    ultimately show ?thesis using remove_unlink turns_append by fastforce
  next
    case (gap_before A j d i ys B x)
    with new_gap_turns [of g A "(j, d)" "(i, Items ys) # B" no_flags _ "g + 1" x] ok show ?thesis by simp
  next
    case (gap_split k A ys B ws us1 i x)
    with gap_split_turns [of g A i ys B k cap ws us1 g' x] ok show ?thesis by simp
  next
    case (replace_gap A B items ws us1 i x)
    have "chunks_wf cap (g + 1) ((A @ [(i, Gap x)]) @ (g + 1, Items []) # B)"
      using replace_gap wf chunks_wf_new [of cap g A "(i, Gap x)" B "Items []"] by simp
    from pushes_wf [OF replace_gap(7) this] replace_gap_turns [OF _ replace_gap(6,7), of A i x] ok
    show ?thesis using replace_gap chunks_wf_ids_ok by fastforce
  qed
qed

section \<open>Following a linked chunk\<close>

inductive lc_steps ::
  "nat \<Rightarrow> ('i, 'g) achunk list \<times> chunk_id \<Rightarrow> ('i, 'g) update list \<Rightarrow> ('i, 'g) achunk list \<times> chunk_id \<Rightarrow> bool"
  for cap where
  refl: "lc_steps cap s [] s"
| step: "lc_steps cap s us t \<Longrightarrow> lc_step cap t op vs u \<Longrightarrow> lc_steps cap s (us @ vs) u"

lemma lc_steps_turns:
  assumes "lc_steps cap (cs, g) us (cs', g')" "chunks_wf cap g cs"
  shows "chunks_wf cap g' cs' \<and> turns no_flags (lens cs) (items_of cs) us no_flags (lens cs') (items_of cs')"
  using assms
proof (induction "(cs, g)" us "(cs', g')" arbitrary: cs' g' rule: lc_steps.induct)
  case (step us t op vs)
  obtain ds h where t: "t = (ds, h)" by (cases t)
  with step.hyps(2) step.prems have wf: "chunks_wf cap h ds"
    and us: "turns no_flags (lens cs) (items_of cs) us no_flags (lens ds) (items_of ds)" by blast+
  from step.hyps(3) t have st: "lc_step cap (ds, h) op vs (cs', g')" by simp
  from lc_step_wf [OF st wf] turns_append [OF us lc_step_turns [OF st wf]] show ?case by blast
qed simp

definition observed :: "nat \<Rightarrow> ('i, 'g) linked_chunk \<times> as_vector \<times> 'i list \<Rightarrow> ('i, 'g) node list \<Rightarrow> bool" where
  "observed cap s xs \<longleftrightarrow>
     (case s of (lc, av, v) \<Rightarrow>
        lc_rel cap lc xs \<and>
        (\<exists>l us cs g. lc_updates lc = Some l \<and> unread l (av_token av) = Some us \<and>
           mapper av = lens cs \<and> v = items_of cs \<and> chunks_wf cap g cs \<and>
           lc_steps cap (cs, g) us (map snd xs, generator lc)))"

lemma observedI:
  assumes "lc_rel cap lc xs" "lc_updates lc = Some l" "unread l (av_token av) = Some us" "mapper av = lens cs"
    "v = items_of cs" "chunks_wf cap g cs" "lc_steps cap (cs, g) us (map snd xs, generator lc)"
  shows "observed cap (lc, av, v) xs"
  unfolding observed_def prod.case using assms by blast

text \<open>An observer interleaves operations on the linked chunk with takes, which it applies to its vector.\<close>

datatype ('i, 'g) observation = Operate "('i, 'g) lc_op" | TakeDiffs

fun observe ::
  "nat \<Rightarrow> ('i, 'g) observation list \<Rightarrow> ('i, 'g) linked_chunk \<times> as_vector \<times> 'i list
   \<Rightarrow> (('i, 'g) linked_chunk \<times> as_vector \<times> 'i list) run" where
  "observe cap [] s = Done s"
| "observe cap (Operate op # es) (lc, av, v) =
     run_bind (exec_op cap op lc) (\<lambda>(_, lc). observe cap es (lc, av, v))"
| "observe cap (TakeDiffs # es) (lc, av, v) =
     run_bind (run_of_option (lc_updates lc)) (\<lambda>l.
     run_bind (as_vector_take av l) (\<lambda>(ds, av, l).
     run_bind (apply_diffs ds v) (\<lambda>v. observe cap es (lc\<lparr>lc_updates := Some l\<rparr>, av, v))))"

lemma lc_rel_log:
  "lc_rel cap lc xs \<Longrightarrow> updates_wf l \<Longrightarrow> lc_rel cap (lc\<lparr>lc_updates := Some l\<rparr>) xs"
  by (simp add: lc_rel_def store_ok_def latest_chunk_ptr_def split: option.splits)

lemma take_diffs_observed:
  assumes "observed cap (lc, av, v) xs"
  obtains l ds av' l' where "lc_updates lc = Some l" "as_vector_take av l = Done (ds, av', l')"
    "apply_diffs ds v = Done (items_of (map snd xs))"
    "observed cap (lc\<lparr>lc_updates := Some l'\<rparr>, av', items_of (map snd xs)) xs"
proof -
  from assms obtain l us cs g where o: "lc_rel cap lc xs" "lc_updates lc = Some l"
    "unread l (av_token av) = Some us" "mapper av = lens cs" "v = items_of cs" "chunks_wf cap g cs"
    "lc_steps cap (cs, g) us (map snd xs, generator lc)"
    by (auto simp: observed_def)
  have wf: "updates_wf l" using lc_rel_updates [OF o(1)] o(2) by blast
  obtain l' where l': "take_with_token (av_token av) l = Done (us, l')" "updates_wf l'"
    "unread l' (av_token av) = Some []"
    by (rule take_with_token_unread [OF wf o(3)])
  obtain ds where ds: "map_loop no_flags (lens cs) us = Done (no_flags, lens (map snd xs), ds)"
    "apply_diffs ds v = Done (items_of (map snd xs))"
    using lc_steps_turns [OF o(7,6)] o(5) by (auto simp: turns_def)
  let ?av = "av\<lparr>mapper := lens (map snd xs)\<rparr>"
  have "as_vector_take av l = Done (ds, ?av, l')"
    using l'(1) ds(1) o(4) by (simp add: as_vector_take_def mapper_map_def del: run_bind_Done_iff)
  moreover have "observed cap (lc\<lparr>lc_updates := Some l'\<rparr>, ?av, items_of (map snd xs)) xs"
    using l'(3) lc_rel_wf [OF o(1)] lc_steps.refl
    by (intro observedI [OF lc_rel_log [OF o(1) l'(2)]]) simp_all
  ultimately show thesis using that o(2) ds(2) by blast
qed

lemma observe_append: "observe cap (es @ fs) s = run_bind (observe cap es s) (observe cap fs)"
proof (induction cap es s rule: observe.induct)
  case (2 cap op es lc av v)
  then show ?case by (cases "exec_op cap op lc") auto
next
  case (3 cap es lc av v)
  then show ?case by (auto simp: run_simps case_prod_unfold intro!: run_bind_cong)
qed simp

lemma exec_op_observed:
  assumes "observed cap (lc, av, v) xs" "lc_rel cap lc' xs'" "logged us lc lc'"
    "lc_step cap (map snd xs, generator lc) op us (map snd xs', generator lc')"
  shows "observed cap (lc', av, v) xs'"
proof -
  from assms(1) obtain l us0 cs g where o: "lc_rel cap lc xs" "lc_updates lc = Some l"
    "unread l (av_token av) = Some us0" "mapper av = lens cs" "v = items_of cs" "chunks_wf cap g cs"
    "lc_steps cap (cs, g) us0 (map snd xs, generator lc)"
    by (auto simp: observed_def)
  have "lc_updates lc' = Some (fold updates_push us l)" using assms(3) o(2) by (simp add: logged_def)
  moreover have "unread (fold updates_push us l) (av_token av) = Some (us0 @ us)"
    using updates_log.pushes_unread [of l us "av_token av"] lc_rel_updates [OF o(1)] o(2,3) by simp
  moreover have "lc_steps cap (cs, g) (us0 @ us) (map snd xs', generator lc')"
    by (rule lc_steps.step [OF o(7) assms(4)])
  ultimately show ?thesis using o(4-6) assms(2) by (intro observedI) simp_all
qed

definition observe_panics ::
  "nat \<Rightarrow> ('i, 'g) observation list \<Rightarrow> ('i, 'g) linked_chunk \<times> as_vector \<times> 'i list \<Rightarrow> bool" where
  "observe_panics cap es s \<longleftrightarrow>
     (\<exists>pre op post lc av v xs. es = pre @ Operate op # post \<and> observe cap pre s = Done (lc, av, v) \<and>
        lc_rel cap lc xs \<and> op_outcome (map snd xs) op = Panic_op)"

lemma observe_panics_later:
  assumes "\<And>es. observe cap (e # es) s = observe cap es s'" "observe_panics cap es s'"
  shows "observe_panics cap (e # es) s"
proof -
  from assms(2) obtain pre op post lc av v xs where *: "es = pre @ Operate op # post"
    "observe cap pre s' = Done (lc, av, v)" "lc_rel cap lc xs" "op_outcome (map snd xs) op = Panic_op"
    unfolding observe_panics_def by blast
  then have "e # es = (e # pre) @ Operate op # post" "observe cap (e # pre) s = Done (lc, av, v)"
    using assms(1) by simp_all
  with *(3,4) show ?thesis unfolding observe_panics_def by blast
qed

fun observation_cost :: "nat \<Rightarrow> ('i, 'g) observation \<Rightarrow> nat" where
  "observation_cost cap (Operate op) = op_cost cap op"
| "observation_cost cap TakeDiffs = 0"

lemma observe_follows:
  assumes "observed cap (lc, av, v) xs" "0 < cap"
    and "unat (generator lc) + sum_list (map (observation_cost cap) es) + 2 \<le> 2 ^ 64"
  shows "observe_panics cap es (lc, av, v) \<and> observe cap es (lc, av, v) = Panic \<or>
    (\<exists>s xs'. observe cap es (lc, av, v) = Done s \<and> observed cap s xs')"
  using assms
proof (induction es arbitrary: lc av v xs)
  case (Cons e es)
  have rel: "lc_rel cap lc xs" using Cons.prems(1) by (simp add: observed_def)
  show ?case
  proof (cases e)
    case TakeDiffs
    obtain l ds av' l' where t: "lc_updates lc = Some l" "as_vector_take av l = Done (ds, av', l')"
      "apply_diffs ds v = Done (items_of (map snd xs))"
      "observed cap (lc\<lparr>lc_updates := Some l'\<rparr>, av', items_of (map snd xs)) xs"
      by (rule take_diffs_observed [OF Cons.prems(1)])
    let ?s = "(lc\<lparr>lc_updates := Some l'\<rparr>, av', items_of (map snd xs))"
    have eq: "observe cap (e # es') (lc, av, v) = observe cap es' ?s" for es' using TakeDiffs t(1-3) by simp
    have "observe_panics cap es ?s \<and> observe cap es ?s = Panic \<or> (\<exists>s xs'. observe cap es ?s = Done s \<and> observed cap s xs')"
      using Cons.IH [OF t(4) Cons.prems(2)] Cons.prems(3) TakeDiffs by simp
    then show ?thesis unfolding eq using observe_panics_later [OF eq] by blast
  next
    case (Operate op)
    have "unat (generator lc) + op_size op + cap + 4 \<le> 2 ^ 64"
      using Cons.prems(3) Operate by (simp add: op_cost_def)
    with rel Cons.prems(2) show ?thesis
    proof (cases rule: exec_op_cases)
      case (ok lc' xs' us)
      then have eq: "observe cap (e # es') (lc, av, v) = observe cap es' (lc', av, v)" for es'
        using Operate by simp
      have "unat (generator lc') \<le> unat (generator lc) + op_cost cap op"
        by (rule lc_step_gen [OF ok(6) lc_rel_wf [OF rel] Cons.prems(2)])
      with Cons.IH [OF exec_op_observed [OF Cons.prems(1) ok(3,5,6)] Cons.prems(2)] Cons.prems(3) Operate
      have "observe_panics cap es (lc', av, v) \<and> observe cap es (lc', av, v) = Panic \<or>
          (\<exists>s xs'. observe cap es (lc', av, v) = Done s \<and> observed cap s xs')" by simp
      then show ?thesis unfolding eq using observe_panics_later [OF eq] by blast
    next
      case (err x)
      then have eq: "observe cap (e # es') (lc, av, v) = observe cap es' (lc, av, v)" for es'
        using Operate by simp
      have "observe_panics cap es (lc, av, v) \<and> observe cap es (lc, av, v) = Panic \<or>
          (\<exists>s xs'. observe cap es (lc, av, v) = Done s \<and> observed cap s xs')"
        using Cons.IH [OF Cons.prems(1,2)] Cons.prems(3) by simp
      then show ?thesis unfolding eq using observe_panics_later [OF eq] by blast
    next
      case panic
      have "observe_panics cap (e # es) (lc, av, v)"
        unfolding observe_panics_def using panic Operate rel by (intro exI [of _ "[]"]) auto
      with panic Operate show ?thesis by simp
    qed
  qed
qed auto

lemma lc_as_vector_single:
  assumes rel: "lc_rel cap lc [x]" and l: "lc_updates lc = Some l"
  obtains av lc' where "lc_as_vector lc = Done (Some av, lc')"
    "observed cap (lc', av, items_of [snd x]) [x]" "generator lc' = generator lc"
proof -
  have wf: "updates_wf l" using lc_rel_updates [OF rel] l by blast
  obtain t l1 where t: "new_reader_token l = (t, l1)" by force
  from t have t': "t = last_token l + 1"
    and l1: "l1 = l\<lparr>last_token := t, last_index_per_reader := AList.update t 0 (last_index_per_reader l)\<rparr>"
    by (auto simp: new_reader_token_def Let_def)
  have "updates_wf (l\<lparr>last_token := t\<rparr>)" using wf t' by (fastforce simp: updates_wf_def)
  then have wf1: "updates_wf l1" using updates_wf_set_index [of "l\<lparr>last_token := t\<rparr>" t 0] l1 by simp
  have un: "unread l1 t = Some (updates l)" using l1 by (simp add: unread_def update_conv')
  obtain l2 where l2: "take_with_token t l1 = Done (updates l, l2)" "updates_wf l2" "unread l2 t = Some []"
    by (rule take_with_token_unread [OF wf1 un])
  obtain cs where cs: "chunks lc = Done cs" "map view cs = [snd x]" using store_ok_chunks [OF rel] by auto
  then obtain c where c: "cs = [c]" "view c = snd x" by auto
  have "mapper_new cs = lens [snd x]"
    unfolding c(2) [symmetric]
    using c(1) by (cases "content c") (simp_all add: mapper_new_def chunk_pair_def view_def lens_def)
  moreover have "chunks_wf cap (generator lc) [snd x]" using lc_rel_wf [OF rel] by simp
  ultimately have "observed cap (lc\<lparr>lc_updates := Some l2\<rparr>, \<lparr>av_token = t, mapper = mapper_new cs\<rparr>, items_of [snd x]) [x]"
    using l2(3) lc_steps.refl by (intro observedI [OF lc_rel_log [OF rel l2(2)]]) simp_all
  moreover have "lc_as_vector lc = Done (Some \<lparr>av_token = t, mapper = mapper_new cs\<rparr>, lc\<lparr>lc_updates := Some l2\<rparr>)"
    using l t l2(1) cs(1) by (simp add: lc_as_vector_def as_vector_new_def del: run_bind_Done_iff)
  ultimately show thesis using that by simp
qed

section \<open>Properties\<close>

text \<open>C3. \<open>as_vector\<close> on a linked chunk of one chunk yields a reader that follows it
  for ever: after any interleaving of operations and takes that ends with a take, the vector built
  by applying every difference is exactly the sequence of items of the linked chunk. Neither the
  mapper nor the application of a difference panics; the only panics are those specified for the
  operations.\<close>

theorem as_vector_follows:
  assumes "lc_rel cap lc [x]" and "lc_updates lc = Some l" and "0 < cap"
    and "unat (generator lc) + sum_list (map (observation_cost cap) es) + 2 \<le> 2 ^ 64"
  shows "\<exists>av lc0. lc_as_vector lc = Done (Some av, lc0) \<and>
    (let s = (lc0, av, items_of [snd x]) in
      observe_panics cap es s \<and> observe cap (es @ [TakeDiffs]) s = Panic \<or>
      (\<exists>lc' av' ps. observe cap (es @ [TakeDiffs]) s = Done (lc', av', map snd ps) \<and> lc_items lc' = Done ps))"
proof -
  obtain av lc0 where a: "lc_as_vector lc = Done (Some av, lc0)" "observed cap (lc0, av, items_of [snd x]) [x]"
    "generator lc0 = generator lc"
    by (rule lc_as_vector_single [OF assms(1,2)])
  let ?s = "(lc0, av, items_of [snd x])"
  have "observe_panics cap es ?s \<and> observe cap (es @ [TakeDiffs]) ?s = Panic \<or>
      (\<exists>lc' av' ps. observe cap (es @ [TakeDiffs]) ?s = Done (lc', av', map snd ps) \<and> lc_items lc' = Done ps)"
  proof (cases "observe cap es ?s = Panic")
    case True
    with observe_follows [OF a(2) assms(3), of es] a(3) assms(4) show ?thesis by (simp add: observe_append)
  next
    case False
    with observe_follows [OF a(2) assms(3), of es] a(3) assms(4)
    obtain lc1 av1 v1 xs1 where "observe cap es ?s = Done (lc1, av1, v1)" and o: "observed cap (lc1, av1, v1) xs1"
      by auto
    moreover obtain l1 ds av2 l2 where "lc_updates lc1 = Some l1" "as_vector_take av1 l1 = Done (ds, av2, l2)"
      "apply_diffs ds v1 = Done (items_of (map snd xs1))"
      and o2: "observed cap (lc1\<lparr>lc_updates := Some l2\<rparr>, av2, items_of (map snd xs1)) xs1"
      by (rule take_diffs_observed [OF o])
    moreover have "lc_rel cap (lc1\<lparr>lc_updates := Some l2\<rparr>) xs1" using o2 by (simp add: observed_def)
    note lc_items_positions [OF this]
    ultimately show ?thesis by (auto simp: observe_append simp flip: map_snd_positions_of)
  qed
  with a(1) show ?thesis by (simp add: Let_def del: observe.simps)
qed

theorem as_vector_follows_witness:
  "\<exists>av lc0 lc' av' ps. lc_as_vector (new_with_update_history :: (char, unit) linked_chunk) = Done (Some av, lc0) \<and>
     observe 3 [Operate (OpPushItems ''abc''), TakeDiffs, Operate (OpInsertItems ''x'' (Position 0 1)), TakeDiffs] (lc0, av, []) = Done (lc', av', map snd ps) \<and>
     lc_items lc' = Done ps"
proof -
  let ?n = "new_with_update_history :: (char, unit) linked_chunk"
  let ?es = "[Operate (OpPushItems ''abc''), TakeDiffs, Operate (OpInsertItems ''x'' (Position 0 1))]"
  have run: "run_bind (lc_as_vector ?n) (\<lambda>(av, lc). run_bind (run_of_option av) (\<lambda>av.
      run_bind (observe 3 (?es @ [TakeDiffs]) (lc, av, [])) (\<lambda>(_, _, v). Done v))) = Done ''axbc''"
    by code_simp
  have n: "generator ?n = 0" "lc_updates ?n = Some updates_new"
    by (simp_all add: new_with_update_history_def new_items_leaked_def leak_def new_from_scratch_def FIRST_IDENTIFIER_def)
  have "unat (generator ?n) + sum_list (map (observation_cost 3) ?es) + 2 \<le> 2 ^ 64" by (simp add: n op_cost_def)
  from as_vector_follows [OF new_with_update_history_rel n(2) _ this]
  obtain av lc0 where "lc_as_vector ?n = Done (Some av, lc0)"
    "observe 3 (?es @ [TakeDiffs]) (lc0, av, []) = Panic \<or> (\<exists>lc' av' ps.
       observe 3 (?es @ [TakeDiffs]) (lc0, av, []) = Done (lc', av', map snd ps) \<and> lc_items lc' = Done ps)"
    by (auto simp: Let_def simp del: observe.simps)
  with run show ?thesis by (auto simp del: observe.simps)
qed

text \<open>On a linked chunk with two chunks, \<open>as_vector\<close> records the pairs in
  reverse order, so the reader does not follow: after the first of two items is removed, the
  difference removes the second from the vector.\<close>

theorem as_vector_reversed_pairs:
  "run_bind (exec_ops 1 [OpPushItems ''ab''] new_with_update_history) (\<lambda>lc.
   run_bind (lc_as_vector lc) (\<lambda>(av, lc).
   run_bind (run_of_option av) (\<lambda>av.
   run_bind (observe 1 [Operate (OpRemoveItem (Position 0 0)), TakeDiffs] (lc :: (char, unit) linked_chunk, av, ''ab'')) (\<lambda>(lc, av, v).
   run_bind (lc_items lc) (\<lambda>ps. Done (map snd ps, v)))))) = Done (''b'', ''a'')"
  by code_simp

end
