(* ===== verification/Room_Events.thy ===== *)
theory Room_Events
  imports Linked_Chunk_Traces
begin

text \<open>
  The events of one room: \<open>Deduplicator\<close> of \<open>event_cache/deduplicator.rs\<close>, \<open>RoomEvents\<close> of
  \<open>event_cache/room/events.rs\<close>, and the two writers of a room, \<open>append_events_locked_impl\<close> of
  \<open>event_cache/room/mod.rs\<close> and the saving half of \<open>run_backwards_impl\<close> of
  \<open>event_cache/pagination.rs\<close>. An event is a value of type \<open>'e\<close>; \<open>eid\<close> reads its identifier from the
  JSON it wraps. The growable bloom filter is a third-party package: its \<open>check_and_set\<close> is the
  parameter \<open>chk\<close> on filters of type \<open>'f\<close>, and \<open>no_false_negatives\<close> is what it documents.
\<close>

section \<open>The deduplicator\<close>

datatype 'e decoration = Unique 'e | Duplicated 'e | Invalid 'e

definition scan_one ::
  "('id \<Rightarrow> 'f \<Rightarrow> bool \<times> 'f) \<Rightarrow> ('e \<Rightarrow> 'id option) \<Rightarrow> ('e, 'g) linked_chunk \<Rightarrow> 'e \<Rightarrow> 'id set \<times> 'f
   \<Rightarrow> ('e decoration \<times> 'id set \<times> 'f) run" where
  "scan_one chk eid existing_events event s =
     (let (new_scanned_events, bloom_filter) = s in
      case eid event of
        None \<Rightarrow> Done (Invalid event, new_scanned_events, bloom_filter)
      | Some event_id \<Rightarrow>
          let (maybe_seen, bloom_filter) = chk event_id bloom_filter in
          if maybe_seen then
            if event_id \<in> new_scanned_events then Done (Duplicated event, new_scanned_events, bloom_filter)
            else
              run_bind (ritems existing_events) (\<lambda>revents.
              let duplicated = list_ex (\<lambda>(_, other_event). eid other_event = Some event_id) revents in
              Done (if duplicated then Duplicated event else Unique event,
                    insert event_id new_scanned_events, bloom_filter))
          else Done (Unique event, insert event_id new_scanned_events, bloom_filter))"

fun scan_loop ::
  "('id \<Rightarrow> 'f \<Rightarrow> bool \<times> 'f) \<Rightarrow> ('e \<Rightarrow> 'id option) \<Rightarrow> ('e, 'g) linked_chunk \<Rightarrow> 'e list \<Rightarrow> 'id set \<times> 'f
   \<Rightarrow> ('e decoration list \<times> 'f) run" where
  "scan_loop chk eid existing_events [] s = Done ([], snd s)"
| "scan_loop chk eid existing_events (e # es) s =
     run_bind (scan_one chk eid existing_events e s) (\<lambda>(d, s).
     run_bind (scan_loop chk eid existing_events es s) (\<lambda>(ds, f). Done (d # ds, f)))"

definition scan_and_learn ::
  "('id \<Rightarrow> 'f \<Rightarrow> bool \<times> 'f) \<Rightarrow> ('e \<Rightarrow> 'id option) \<Rightarrow> 'e list \<Rightarrow> ('e, 'g) linked_chunk \<Rightarrow> 'f
   \<Rightarrow> ('e decoration list \<times> 'f) run" where
  "scan_and_learn chk eid new_events_to_scan existing_events bloom_filter =
     scan_loop chk eid existing_events new_events_to_scan ({}, bloom_filter)"

section \<open>The events of a room\<close>

definition DEFAULT_CHUNK_CAPACITY :: nat where
  "DEFAULT_CHUNK_CAPACITY = 128"

record ('e, 'g, 'f) room_events =
  re_chunks :: "('e, 'g) linked_chunk"
  deduplicator :: 'f

definition room_events_new :: "'f \<Rightarrow> ('e, 'g, 'f) room_events" where
  "room_events_new bloom_new = \<lparr>re_chunks = lc_new, deduplicator = bloom_new\<rparr>"

definition room_events_reset :: "('e, 'g, 'f) room_events \<Rightarrow> ('e, 'g, 'f) room_events" where
  "room_events_reset re = re\<lparr>re_chunks := lc_new\<rparr>"

fun split_decorated :: "('e \<Rightarrow> 'id option) \<Rightarrow> 'e decoration list \<Rightarrow> ('e list \<times> 'id list) run" where
  "split_decorated eid [] = Done ([], [])"
| "split_decorated eid (Unique e # ds) =
     run_bind (split_decorated eid ds) (\<lambda>(es, ids). Done (e # es, ids))"
| "split_decorated eid (Duplicated e # ds) =
     run_bind (run_of_option (eid e)) (\<lambda>event_id.
     run_bind (split_decorated eid ds) (\<lambda>(es, ids). Done (e # es, event_id # ids)))"
| "split_decorated eid (Invalid e # ds) = split_decorated eid ds"

definition filter_duplicated_events ::
  "('id \<Rightarrow> 'f \<Rightarrow> bool \<times> 'f) \<Rightarrow> ('e \<Rightarrow> 'id option) \<Rightarrow> 'e list \<Rightarrow> ('e, 'g, 'f) room_events
   \<Rightarrow> ('e list \<times> 'id list \<times> ('e, 'g, 'f) room_events) run" where
  "filter_duplicated_events chk eid events re =
     run_bind (scan_and_learn chk eid events (re_chunks re) (deduplicator re)) (\<lambda>(ds, f).
     run_bind (split_decorated eid ds) (\<lambda>(deduplicated_events, duplicated_event_ids).
     Done (deduplicated_events, duplicated_event_ids, re\<lparr>deduplicator := f\<rparr>)))"

definition find_event_position ::
  "('e \<Rightarrow> 'id option) \<Rightarrow> 'id \<Rightarrow> ('e, 'g) linked_chunk \<Rightarrow> position option run" where
  "find_event_position eid event_id lc =
     run_bind (ritems lc) (\<lambda>revents.
     Done (map_option fst (List.find (\<lambda>(_, event). eid event = Some event_id) revents)))"

fun remove_events ::
  "('e \<Rightarrow> 'id option) \<Rightarrow> 'id list \<Rightarrow> ('e, 'g) linked_chunk \<Rightarrow> ('e, 'g) linked_chunk run" where
  "remove_events eid [] lc = Done lc"
| "remove_events eid (event_id # event_ids) lc =
     run_bind (find_event_position eid event_id lc) (\<lambda>found.
     case found of
       None \<Rightarrow> remove_events eid event_ids lc
     | Some event_position \<Rightarrow>
         run_bind (remove_item_at event_position lc) (\<lambda>(r, lc).
         case r of Inl _ \<Rightarrow> Panic | Inr _ \<Rightarrow> remove_events eid event_ids lc))"

definition shift_position :: "position \<Rightarrow> position \<Rightarrow> position run" where
  "shift_position event_position pos =
     (if position_chunk event_position = position_chunk pos \<and> position_index event_position < position_index pos
      then decrement_index pos else Done pos)"

fun remove_events_and_update_insert_position ::
  "('e \<Rightarrow> 'id option) \<Rightarrow> 'id list \<Rightarrow> position \<Rightarrow> ('e, 'g) linked_chunk
   \<Rightarrow> (position \<times> ('e, 'g) linked_chunk) run" where
  "remove_events_and_update_insert_position eid [] pos lc = Done (pos, lc)"
| "remove_events_and_update_insert_position eid (event_id # event_ids) pos lc =
     run_bind (find_event_position eid event_id lc) (\<lambda>found.
     case found of
       None \<Rightarrow> remove_events_and_update_insert_position eid event_ids pos lc
     | Some event_position \<Rightarrow>
         run_bind (remove_item_at event_position lc) (\<lambda>(r, lc).
         case r of
           Inl _ \<Rightarrow> Panic
         | Inr _ \<Rightarrow>
             run_bind (shift_position event_position pos) (\<lambda>pos.
             remove_events_and_update_insert_position eid event_ids pos lc)))"

definition push_events ::
  "('id \<Rightarrow> 'f \<Rightarrow> bool \<times> 'f) \<Rightarrow> ('e \<Rightarrow> 'id option) \<Rightarrow> 'e list \<Rightarrow> ('e, 'g, 'f) room_events
   \<Rightarrow> ('e, 'g, 'f) room_events run" where
  "push_events chk eid events re =
     run_bind (filter_duplicated_events chk eid events re) (\<lambda>(unique_events, duplicated_event_ids, re).
     run_bind (remove_events eid duplicated_event_ids (re_chunks re)) (\<lambda>lc.
     run_bind (push_items_back DEFAULT_CHUNK_CAPACITY unique_events lc) (\<lambda>lc.
     Done (re\<lparr>re_chunks := lc\<rparr>))))"

definition push_gap :: "'g \<Rightarrow> ('e, 'g, 'f) room_events \<Rightarrow> ('e, 'g, 'f) room_events run" where
  "push_gap gap re = run_bind (push_gap_back gap (re_chunks re)) (\<lambda>lc. Done (re\<lparr>re_chunks := lc\<rparr>))"

definition insert_events_at ::
  "('id \<Rightarrow> 'f \<Rightarrow> bool \<times> 'f) \<Rightarrow> ('e \<Rightarrow> 'id option) \<Rightarrow> 'e list \<Rightarrow> position \<Rightarrow> ('e, 'g, 'f) room_events
   \<Rightarrow> ((lc_error + unit) \<times> ('e, 'g, 'f) room_events) run" where
  "insert_events_at chk eid events pos re =
     run_bind (filter_duplicated_events chk eid events re) (\<lambda>(unique_events, duplicated_event_ids, re).
     run_bind (remove_events_and_update_insert_position eid duplicated_event_ids pos (re_chunks re)) (\<lambda>(pos, lc).
     run_bind (insert_items_at DEFAULT_CHUNK_CAPACITY unique_events pos lc) (\<lambda>(r, lc).
     Done (r, re\<lparr>re_chunks := lc\<rparr>))))"

definition insert_room_gap_at ::
  "'g \<Rightarrow> position \<Rightarrow> ('e, 'g, 'f) room_events \<Rightarrow> ((lc_error + unit) \<times> ('e, 'g, 'f) room_events) run" where
  "insert_room_gap_at gap pos re =
     run_bind (insert_gap_at DEFAULT_CHUNK_CAPACITY gap pos (re_chunks re)) (\<lambda>(r, lc).
     Done (r, re\<lparr>re_chunks := lc\<rparr>))"

definition replace_room_gap_at ::
  "('id \<Rightarrow> 'f \<Rightarrow> bool \<times> 'f) \<Rightarrow> ('e \<Rightarrow> 'id option) \<Rightarrow> 'e list \<Rightarrow> chunk_id \<Rightarrow> ('e, 'g, 'f) room_events
   \<Rightarrow> ((lc_error + addr) \<times> ('e, 'g, 'f) room_events) run" where
  "replace_room_gap_at chk eid events gap_identifier re =
     run_bind (filter_duplicated_events chk eid events re) (\<lambda>(unique_events, duplicated_event_ids, re).
     run_bind (remove_events eid duplicated_event_ids (re_chunks re)) (\<lambda>lc.
     run_bind (replace_gap_at DEFAULT_CHUNK_CAPACITY unique_events gap_identifier lc) (\<lambda>(r, lc).
     Done (r, re\<lparr>re_chunks := lc\<rparr>))))"

definition revents :: "('e, 'g, 'f) room_events \<Rightarrow> (position \<times> 'e) list run" where
  "revents re = ritems (re_chunks re)"

definition room_events_items :: "('e, 'g, 'f) room_events \<Rightarrow> (position \<times> 'e) list run" where
  "room_events_items re = lc_items (re_chunks re)"

section \<open>The writers of a room\<close>

text \<open>
  \<open>append_events_locked_impl\<close>: what a sync response does to the events of the room. The gap is the
  \<open>prev_batch\<close> token; \<open>nothing_else\<close> says that there are no ephemeral events and no ambiguity changes.
  The cache of all events, the notifier and the update channel are left out.
\<close>

definition append_events_locked_impl ::
  "('id \<Rightarrow> 'f \<Rightarrow> bool \<times> 'f) \<Rightarrow> ('e \<Rightarrow> 'id option) \<Rightarrow> 'e list \<Rightarrow> 'g option \<Rightarrow> bool \<Rightarrow> ('e, 'g, 'f) room_events
   \<Rightarrow> ('e, 'g, 'f) room_events run" where
  "append_events_locked_impl chk eid sync_timeline_events prev_batch nothing_else re =
     (if sync_timeline_events = [] \<and> prev_batch = None \<and> nothing_else then Done re
      else run_bind (case prev_batch of None \<Rightarrow> Done re | Some prev_token \<Rightarrow> push_gap prev_token re) (\<lambda>re.
     push_events chk eid sync_timeline_events re))"

fun first_gap :: "('e, 'g) chunk list \<Rightarrow> 'g option" where
  "first_gap [] = None"
| "first_gap (c # cs) = (case content c of Gap g \<Rightarrow> Some g | Items _ \<Rightarrow> first_gap cs)"

definition get_oldest :: "('e, 'g) linked_chunk \<Rightarrow> 'g option run" where
  "get_oldest lc = run_bind (chunks lc) (\<lambda>cs. Done (first_gap cs))"

text \<open>
  The saving half of \<open>run_backwards_impl\<close>, from the moment the lock is taken: \<open>prev_token\<close> is the
  token the pagination started from, \<open>events\<close> the answer in the order of \<open>/messages\<close> (newest first),
  \<open>new_token\<close> what \<open>prev_batch_token\<close> of the paginator says afterwards. The answer \<open>False\<close> is the
  early return when the gap of \<open>prev_token\<close> is gone.
\<close>

definition save_replacing_gap ::
  "('id \<Rightarrow> 'f \<Rightarrow> bool \<times> 'f) \<Rightarrow> ('e \<Rightarrow> 'id option) \<Rightarrow> chunk_id \<Rightarrow> 'e list \<Rightarrow> 'g option \<Rightarrow> ('e, 'g, 'f) room_events
   \<Rightarrow> ('e, 'g, 'f) room_events run" where
  "save_replacing_gap chk eid gap_identifier events new_token re =
     run_bind (replace_room_gap_at chk eid (rev events) gap_identifier re) (\<lambda>(r, re).
     run_bind (expect_ok (Done r)) (\<lambda>new_chunk.
     run_bind (deref new_chunk (re_chunks re)) (\<lambda>c.
     case new_token of
       None \<Rightarrow> Done re
     | Some prev_token_gap \<Rightarrow>
         run_bind (insert_room_gap_at prev_token_gap (first_position c) re) (\<lambda>(r, re).
         run_bind (expect_ok (Done r)) (\<lambda>_. Done re)))))"

definition save_prepending ::
  "('id \<Rightarrow> 'f \<Rightarrow> bool \<times> 'f) \<Rightarrow> ('e \<Rightarrow> 'id option) \<Rightarrow> 'e list \<Rightarrow> 'g option \<Rightarrow> ('e, 'g, 'f) room_events
   \<Rightarrow> ('e, 'g, 'f) room_events run" where
  "save_prepending chk eid events new_token re =
     run_bind (room_events_items re) (\<lambda>items.
     case items of
       (first_event_pos, _) # _ \<Rightarrow>
         run_bind (case new_token of
             None \<Rightarrow> Done re
           | Some prev_token_gap \<Rightarrow>
               run_bind (insert_room_gap_at prev_token_gap first_event_pos re) (\<lambda>(r, re).
               run_bind (expect_ok (Done r)) (\<lambda>_. Done re))) (\<lambda>re.
         run_bind (insert_events_at chk eid (rev events) first_event_pos re) (\<lambda>(r, re).
         run_bind (expect_ok (Done r)) (\<lambda>_. Done re)))
     | [] \<Rightarrow>
         run_bind (case new_token of None \<Rightarrow> Done re | Some gap \<Rightarrow> push_gap gap re) (\<lambda>re.
         push_events chk eid (rev events) re))"

definition save_backwards ::
  "('id \<Rightarrow> 'f \<Rightarrow> bool \<times> 'f) \<Rightarrow> ('e \<Rightarrow> 'id option) \<Rightarrow> 'g option \<Rightarrow> 'e list \<Rightarrow> 'g option
   \<Rightarrow> ('e, 'g, 'f) room_events \<Rightarrow> (bool \<times> ('e, 'g, 'f) room_events) run" where
  "save_backwards chk eid prev_token events new_token re =
     (case prev_token of
        Some token \<Rightarrow>
          run_bind (find_chunk_identifier (\<lambda>c. content c = Gap token) (re_chunks re)) (\<lambda>found.
          case found of
            None \<Rightarrow> Done (False, re)
          | Some gap_identifier \<Rightarrow>
              run_bind (save_replacing_gap chk eid gap_identifier events new_token re) (\<lambda>re. Done (True, re)))
      | None \<Rightarrow> run_bind (save_prepending chk eid events new_token re) (\<lambda>re. Done (True, re)))"

section \<open>Removing events\<close>

text \<open>
  What removing all events that do not satisfy \<open>P\<close> leaves of a list of chunks: a chunk that loses
  its last event is unlinked, unless it is the first.
\<close>

fun prune :: "('e \<Rightarrow> bool) \<Rightarrow> bool \<Rightarrow> ('e, 'g) achunk list \<Rightarrow> ('e, 'g) achunk list" where
  "prune P is_first [] = []"
| "prune P is_first ((i, Gap g) # cs) = (i, Gap g) # prune P False cs"
| "prune P is_first ((i, Items ys) # cs) =
     (if filter P ys = [] \<and> ys \<noteq> [] \<and> \<not> is_first then prune P False cs
      else (i, Items (filter P ys)) # prune P False cs)"

lemma items_of_prune [simp]: "items_of (prune P b cs) = filter P (items_of cs)"
  by (induction P b cs rule: prune.induct) auto

lemma prune_append:
  "cs \<noteq> [] \<Longrightarrow> prune P b (cs @ ds) = prune P b cs @ prune P False ds"
proof (induction P b cs rule: prune.induct)
  case (2 P b i g cs)
  then show ?case by (cases cs) auto
next
  case (3 P b i ys cs)
  then show ?case by (cases cs) auto
qed simp

lemma prune_prune: "prune Q b (prune P b cs) = prune (\<lambda>e. P e \<and> Q e) b cs"
proof (induction P b cs rule: prune.induct)
  case (3 P b i ys cs)
  then show ?case by (auto simp: conj_commute filter_empty_conv)
qed auto

lemma prune_id: "(\<And>e. e \<in> set (items_of cs) \<Longrightarrow> P e) \<Longrightarrow> prune P b cs = cs"
proof (induction P b cs rule: prune.induct)
  case (3 P b i ys cs)
  then have "filter P ys = ys" by (auto intro: filter_True)
  with 3 show ?case by auto
qed auto

lemma prune_cong: "(\<And>e. e \<in> set (items_of cs) \<Longrightarrow> P e = Q e) \<Longrightarrow> prune P b cs = prune Q b cs"
proof (induction P b cs rule: prune.induct)
  case (3 P b i ys cs)
  then have "filter P ys = filter Q ys" by (auto intro: filter_cong)
  with 3 show ?case by auto
qed auto

text \<open>Where a backward search sees every event while events outside \<open>N\<close> stay.\<close>

definition searchable :: "('e \<Rightarrow> bool) \<Rightarrow> ('e, 'g) achunk list \<Rightarrow> bool" where
  "searchable stays cs \<longleftrightarrow>
     (\<exists>i ys. last cs = (i, Items ys) \<and> (\<exists>e \<in> set ys. stays e)) \<or>
     ((\<forall>c \<in> set cs. is_items_chunk c) \<and> (\<forall>c \<in> set (tl cs). content_items (snd c) \<noteq> []))"

lemma prune_gapless:
  "(\<forall>c \<in> set cs. is_items_chunk c) \<Longrightarrow> (\<forall>c \<in> set (if b then tl cs else cs). content_items (snd c) \<noteq> []) \<Longrightarrow>
   (\<forall>c \<in> set (prune P b cs). is_items_chunk c) \<and>
   (\<forall>c \<in> set (if b then tl (prune P b cs) else prune P b cs). content_items (snd c) \<noteq> [])"
  by (induction P b cs rule: prune.induct) (auto simp: is_items_chunk_def split: if_splits)

lemma searchable_prune:
  assumes "searchable stays cs" "cs \<noteq> []" "\<And>e. stays e \<Longrightarrow> P e"
  shows "searchable stays (prune P True cs)"
proof (cases "\<exists>i ys. last cs = (i, Items ys) \<and> (\<exists>e \<in> set ys. stays e)")
  case True
  then obtain A i ys where cs: "cs = A @ [(i, Items ys)]" and ys: "\<exists>e \<in> set ys. stays e"
    using assms(2) by (cases cs rule: rev_cases) auto
  then have "filter P ys \<noteq> []" using assms(3) by (auto simp: filter_empty_conv)
  then have "last (prune P True cs) = (i, Items (filter P ys))"
    using cs by (cases "A = []") (auto simp: prune_append)
  with ys assms(3) show ?thesis by (auto simp: searchable_def)
next
  case False
  with assms(1) prune_gapless [of cs True P] show ?thesis by (auto simp: searchable_def)
qed

lemma searchable_last:
  assumes "searchable stays (B @ [(i, c)])"
  obtains ys where "c = Items ys" "ys \<noteq> []" | "c = Items []" "B = []"
  using assms
  by (cases c; cases B) (fastforce simp: searchable_def is_items_chunk_def)+

lemma ritems_searchable:
  assumes rel: "lc_rel cap lc xs" and s: "searchable stays (map snd xs)"
  shows "ritems lc = Done (rev (positions_of (map snd xs)))"
proof -
  obtain A a i c where xs: "xs = A @ [(a, i, c)]"
    using lc_rel_nonempty [OF rel] by (cases xs rule: rev_cases) auto
  with s have "searchable stays (map snd A @ [(i, c)])" by simp
  then show ?thesis
  proof (cases rule: searchable_last)
    case (1 ys)
    then show ?thesis by (intro ritems_positions [OF rel]) (simp_all add: xs)
  next
    case 2
    then show ?thesis using ritems_dropWhile [OF rel xs] xs by simp
  qed
qed

text \<open>The position of an item, decoded.\<close>

lemma positions_of_mem:
  assumes "(p, e) \<in> set (positions_of cs)"
  obtains A i ys B k where "cs = A @ (i, Items ys) # B" "p = Position i k" "k < length ys" "ys ! k = e"
  using assms
proof (induction cs arbitrary: thesis)
  case (Cons c cs)
  obtain i d where c: "c = (i, d)" by (cases c)
  show ?case
  proof (cases "(p, e) \<in> set (enumerate_items i d)")
    case True
    then obtain ys k where "d = Items ys" "p = Position i k" "k < length ys" "ys ! k = e"
      by (cases d) (auto simp: in_set_enumerate_eq)
    with Cons.prems(1) [of "[]" i ys cs k] c show ?thesis by simp
  next
    case False
    with Cons.prems(2) c have "(p, e) \<in> set (positions_of cs)" by simp
    then obtain A j ys B k where "cs = A @ (j, Items ys) # B" "p = Position j k" "k < length ys" "ys ! k = e"
      using Cons.IH by blast
    with Cons.prems(1) [of "c # A" j ys B k] show ?thesis by simp
  qed
qed simp

lemma remove_nth_filter:
  "distinct (map f xs) \<Longrightarrow> k < length xs \<Longrightarrow>
   take k xs @ drop (Suc k) xs = filter (\<lambda>y. f y \<noteq> f (xs ! k)) xs"
proof (induction xs arbitrary: k)
  case (Cons x xs)
  show ?case
  proof (cases k)
    case 0
    then show ?thesis using Cons.prems by (auto simp: filter_id_conv image_iff intro!: sym [OF filter_True])
  next
    case (Suc n)
    with Cons.prems(1,2) have "f x \<noteq> f (xs ! n)" by (auto simp: image_iff dest!: nth_mem [of n xs])
    with Suc Cons show ?thesis by simp
  qed
qed simp

lemma prune_remove_one:
  assumes "distinct (map f (items_of (A @ (i, Items ys) # B)))" "k < length ys"
  shows "prune (\<lambda>e. f e \<noteq> f (ys ! k)) True (A @ (i, Items ys) # B) =
    (let ys' = take k ys @ drop (Suc k) ys in
     if ys' \<noteq> [] \<or> A = [] then A @ (i, Items ys') # B else A @ B)"
proof -
  have ys': "take k ys @ drop (Suc k) ys = filter (\<lambda>e. f e \<noteq> f (ys ! k)) ys"
    using assms by (intro remove_nth_filter) auto
  have "f e \<noteq> f (ys ! k)" if "e \<in> set (items_of A) \<union> set (items_of B)" for e
  proof -
    have "f ` (set (items_of A) \<union> set (items_of B)) \<inter> f ` set ys = {}" using assms(1) by auto
    moreover have "f (ys ! k) \<in> f ` set ys" using assms(2) by simp
    ultimately show ?thesis using that by (metis disjoint_iff imageI)
  qed
  then have AB: "prune (\<lambda>e. f e \<noteq> f (ys ! k)) True A = A" "prune (\<lambda>e. f e \<noteq> f (ys ! k)) False B = B"
    by (auto intro: prune_id)
  have "ys \<noteq> []" using assms(2) by auto
  then show ?thesis
    unfolding Let_def ys' using AB by (cases "A = []") (auto simp: prune_append)
qed

lemma lc_step_remove:
  assumes "lc_step cap (A @ (i, Items ys) # B, g) (OpRemoveItem (Position i k)) us (cs', g')"
    and "distinct (map fst (A @ (i, Items ys) # B))"
  shows "cs' = (let ys' = take k ys @ drop (Suc k) ys in
      if ys' \<noteq> [] \<or> A = [] then A @ (i, Items ys') # B else A @ B) \<and> g' = g"
  using assms(1)
proof cases
  case (remove_keep zs zs' A' B')
  then have "A' = A \<and> (i, Items zs) = (i, Items ys) \<and> B' = B"
    using assms(2) append_Cons_key_eq [of A "(i, Items ys)" B A' "(i, Items zs)" B' fst] by auto
  with remove_keep show ?thesis by auto
next
  case (remove_unlink A' y B')
  then have "A' = A \<and> (i, Items [y]) = (i, Items ys) \<and> B' = B"
    using assms(2) append_Cons_key_eq [of A "(i, Items ys)" B A' "(i, Items [y])" B' fst] by auto
  with remove_unlink show ?thesis by auto
qed

lemma remove_at_position:
  assumes rel: "lc_rel cap lc xs" and p: "(p, e) \<in> set (positions_of (map snd xs))"
  obtains A i ys B k lc' xs' where "map snd xs = A @ (i, Items ys) # B" "p = Position i k" "k < length ys"
    "ys ! k = e" "remove_item_at p lc = Done (Inr e, lc')" "lc_rel cap lc' xs'" "generator lc' = generator lc"
    "map snd xs' = (let ys' = take k ys @ drop (Suc k) ys in
       if ys' \<noteq> [] \<or> A = [] then A @ (i, Items ys') # B else A @ B)"
proof -
  obtain A i ys B k where cs: "map snd xs = A @ (i, Items ys) # B" and k: "p = Position i k" "k < length ys" "ys ! k = e"
    using p by (rule positions_of_mem)
  have d: "distinct (map fst (A @ (i, Items ys) # B))" using lc_rel_wf [OF rel] cs by (simp add: chunks_wf_def)
  have "map_of (map snd xs) i = Some (Items ys)" unfolding cs using d by (intro map_of_is_SomeI) auto
  then obtain X a Y where xs: "xs = X @ (a, i, Items ys) # Y" by (rule map_of_nodes)
  obtain lc' xs' us where r: "remove_item_at (Position i k) lc = Done (Inr (ys ! k), lc')" "lc_rel cap lc' xs'"
    "lc_step cap (map snd xs, generator lc) (OpRemoveItem (Position i k)) us (map snd xs', generator lc')"
    using remove_item_at_step [OF rel [unfolded xs] k(2)] xs unfolding step_ok_def by blast
  from lc_step_remove [OF r(3) [unfolded cs] d] r(1,2) cs k that show thesis by simp
qed

lemma remove_event_prunes:
  assumes rel: "lc_rel cap lc xs" and p: "(p, e) \<in> set (positions_of (map snd xs))"
    and d: "distinct (map eid (items_of (map snd xs)))"
  obtains lc' xs' where "remove_item_at p lc = Done (Inr e, lc')" "lc_rel cap lc' xs'"
    "generator lc' = generator lc" "map snd xs' = prune (\<lambda>x. eid x \<noteq> eid e) True (map snd xs)"
proof -
  obtain A i ys B k lc' xs' where r: "map snd xs = A @ (i, Items ys) # B" "k < length ys" "ys ! k = e"
    "remove_item_at p lc = Done (Inr e, lc')" "lc_rel cap lc' xs'" "generator lc' = generator lc"
    "map snd xs' = (let ys' = take k ys @ drop (Suc k) ys in
       if ys' \<noteq> [] \<or> A = [] then A @ (i, Items ys') # B else A @ B)"
    by (rule remove_at_position [OF rel p])
  with prune_remove_one [of eid A i ys B k] d that show thesis by simp
qed

lemma find_event:
  assumes rel: "lc_rel cap lc xs" and s: "searchable stays (map snd xs)"
  obtains r where "find_event_position eid event_id lc = Done r"
    "r = None \<longleftrightarrow> Some event_id \<notin> eid ` set (items_of (map snd xs))"
    "\<forall>p. r = Some p \<longrightarrow> (\<exists>e. (p, e) \<in> set (positions_of (map snd xs)) \<and> eid e = Some event_id)"
proof -
  let ?ps = "rev (positions_of (map snd xs))"
  let ?r = "map_option fst (List.find (\<lambda>(_, event). eid event = Some event_id) ?ps)"
  have i: "set (items_of (map snd xs)) = snd ` set ?ps" by (metis map_snd_positions_of list.set_map set_rev)
  have "find_event_position eid event_id lc = Done ?r"
    using ritems_searchable [OF rel s] by (simp add: find_event_position_def del: run_bind_Done_iff)
  moreover have "?r = None \<longleftrightarrow> Some event_id \<notin> eid ` set (items_of (map snd xs))"
    unfolding i by (simp add: find_None_iff Ball_def image_image image_iff eq_commute [of "Some event_id"])
  moreover have "\<exists>e. (p, e) \<in> set (positions_of (map snd xs)) \<and> eid e = Some event_id" if r: "?r = Some p" for p
  proof -
    from r obtain e where "List.find (\<lambda>(_, event). eid event = Some event_id) ?ps = Some (p, e)" by auto
    from find_SomeD [OF this] show ?thesis by auto
  qed
  then have "\<forall>p. ?r = Some p \<longrightarrow> (\<exists>e. (p, e) \<in> set (positions_of (map snd xs)) \<and> eid e = Some event_id)"
    by blast
  ultimately show thesis by (rule that)
qed

lemma remove_events_prunes:
  assumes "lc_rel cap lc xs" "searchable stays (map snd xs)" "distinct (map eid (items_of (map snd xs)))"
    and "\<And>e. stays e \<Longrightarrow> eid e \<notin> Some ` set ids"
  shows "\<exists>lc' xs'. remove_events eid ids lc = Done lc' \<and> lc_rel cap lc' xs' \<and> generator lc' = generator lc \<and>
    map snd xs' = prune (\<lambda>e. eid e \<notin> Some ` set ids) True (map snd xs)"
  using assms
proof (induction ids arbitrary: lc xs)
  case Nil
  then show ?case by (auto simp: prune_id)
next
  case (Cons event_id ids)
  let ?P = "\<lambda>e. eid e \<notin> Some ` set ids" and ?Q = "\<lambda>e. eid e \<notin> Some ` set (event_id # ids)"
  obtain r where r: "find_event_position eid event_id lc = Done r"
    "r = None \<longleftrightarrow> Some event_id \<notin> eid ` set (items_of (map snd xs))"
    "\<forall>p. r = Some p \<longrightarrow> (\<exists>e. (p, e) \<in> set (positions_of (map snd xs)) \<and> eid e = Some event_id)"
    by (rule find_event [OF Cons.prems(1,2)])
  show ?case
  proof (cases r)
    case None
    have "prune ?P True (map snd xs) = prune ?Q True (map snd xs)"
      using r(2) None by (intro prune_cong) (auto simp: image_iff)
    with Cons.IH [OF Cons.prems(1-3)] Cons.prems(4) r(1) None show ?thesis
      by (simp del: run_bind_Done_iff)
  next
    case (Some p)
    then obtain e where e: "(p, e) \<in> set (positions_of (map snd xs))" "eid e = Some event_id" using r(3) by blast
    obtain lc1 xs1 where one: "remove_item_at p lc = Done (Inr e, lc1)" "lc_rel cap lc1 xs1"
      "generator lc1 = generator lc" "map snd xs1 = prune (\<lambda>x. eid x \<noteq> eid e) True (map snd xs)"
      by (rule remove_event_prunes [OF Cons.prems(1) e(1) Cons.prems(3)])
    have "searchable stays (map snd xs1)" unfolding one(4)
      using Cons.prems(2,4) lc_rel_nonempty [OF Cons.prems(1)] e(2) by (intro searchable_prune) auto
    moreover have "distinct (map eid (items_of (map snd xs1)))"
      using Cons.prems(3) one(4) by (simp add: distinct_map_filter)
    ultimately obtain lc2 xs2 where "remove_events eid ids lc1 = Done lc2" "lc_rel cap lc2 xs2"
      "generator lc2 = generator lc1" "map snd xs2 = prune ?P True (map snd xs1)"
      using Cons.IH [OF one(2)] Cons.prems(4) by auto
    moreover have "prune ?P True (map snd xs1) = prune ?Q True (map snd xs)"
      unfolding one(4) prune_prune using e(2) by (intro prune_cong) auto
    ultimately show ?thesis using r(1) Some one(1,3) by (auto simp del: run_bind_Done_iff)
  qed
qed

section \<open>Keeping a position while events go\<close>

text \<open>The events before a position in its chunk; the position is inside its chunk iff its index is their number.\<close>

definition before :: "('e, 'g) achunk list \<Rightarrow> position \<Rightarrow> 'e list" where
  "before cs p =
     (case map_of cs (position_chunk p) of Some (Items ys) \<Rightarrow> take (position_index p) ys | _ \<Rightarrow> [])"

definition inside :: "('e, 'g) achunk list \<Rightarrow> position \<Rightarrow> bool" where
  "inside cs p \<longleftrightarrow> position_index p = length (before cs p)"

lemma before_items:
  assumes "e \<in> set (before cs p)"
  shows "e \<in> set (items_of cs)"
proof -
  from assms obtain ys where "map_of cs (position_chunk p) = Some (Items ys)" "e \<in> set ys"
    by (auto simp: before_def split: option.splits chunk_content.splits) (metis in_set_takeD)
  then have "(position_chunk p, Items ys) \<in> set cs" "e \<in> set (content_items (Items ys))"
    by (auto dest: map_of_SomeD)
  then show ?thesis by (auto simp: items_of_def intro!: bexI [of _ "(position_chunk p, Items ys)"])
qed

lemma map_of_prune:
  "distinct (map fst cs) \<Longrightarrow>
   map_of (prune P b cs) j =
     (case map_of cs j of
        None \<Rightarrow> None
      | Some (Gap g) \<Rightarrow> Some (Gap g)
      | Some (Items ys) \<Rightarrow>
          if filter P ys = [] \<and> ys \<noteq> [] \<and> \<not> (b \<and> j = fst (hd cs)) then None else Some (Items (filter P ys)))"
proof (induction P b cs rule: prune.induct)
  case (3 P b i ys cs)
  have "map_of cs i = None" using 3(3) by (simp add: map_of_eq_None_iff)
  with 3 show ?case by (auto split: option.splits chunk_content.splits)
qed (auto split: option.splits chunk_content.splits)

lemma before_prune:
  assumes "distinct (map fst cs)" "inside cs p"
  shows "before (prune P True cs) (Position (position_chunk p) (length (filter P (before cs p)))) = filter P (before cs p)"
proof (cases "map_of cs (position_chunk p)")
  case None
  then show ?thesis using map_of_prune [OF assms(1), of P True] by (simp add: before_def)
next
  case (Some c)
  show ?thesis
  proof (cases c)
    case (Gap g)
    then show ?thesis using Some map_of_prune [OF assms(1), of P True] by (simp add: before_def)
  next
    case (Items ys)
    have "filter P ys = filter P (take (position_index p) ys) @ filter P (drop (position_index p) ys)"
      by (metis append_take_drop_id filter_append)
    then show ?thesis
      using Some Items map_of_prune [OF assms(1), of P True "position_chunk p"] by (auto simp: before_def)
  qed
qed

lemma filter_take_nth:
  assumes "distinct (map f ys)" "k < length ys" "m \<le> length ys"
  shows "length (filter (\<lambda>y. f y \<noteq> f (ys ! k)) (take m ys)) = (if k < m then m - 1 else m)"
proof (cases "k < m")
  case True
  then have "filter (\<lambda>y. f y \<noteq> f (take m ys ! k)) (take m ys) = take k (take m ys) @ drop (Suc k) (take m ys)"
    using assms by (intro remove_nth_filter [symmetric]) (auto simp: take_map [symmetric])
  with True assms show ?thesis by simp
next
  case False
  have "f y \<noteq> f (ys ! k)" if "y \<in> set (take m ys)" for y
  proof -
    from that obtain n where n: "n < m" "n < length ys" "y = ys ! n" by (auto simp: in_set_conv_nth)
    then have "n \<noteq> k" using False by simp
    with n assms(1,2) show ?thesis by (auto simp: distinct_conv_nth)
  qed
  then have "filter (\<lambda>y. f y \<noteq> f (ys ! k)) (take m ys) = take m ys" by (auto intro: filter_True)
  with False assms show ?thesis by simp
qed

lemma shift_position_ok:
  assumes cs: "cs = A @ (i, Items ys) # B" "k < length ys"
    and d: "distinct (map fst cs)" "distinct (map eid (items_of cs))" and p: "inside cs p"
  shows "shift_position (Position i k) p =
    Done (Position (position_chunk p) (length (filter (\<lambda>x. eid x \<noteq> eid (ys ! k)) (before cs p))))"
proof (cases "position_chunk p = i")
  case True
  have "map_of cs i = Some (Items ys)" unfolding cs(1) using d(1) cs(1) by (intro map_of_is_SomeI) auto
  then have b: "before cs p = take (position_index p) ys" using True by (simp add: before_def)
  with p have m: "position_index p \<le> length ys" by (simp add: inside_def)
  have "distinct (map eid ys)" using d(2) cs(1) by simp
  from filter_take_nth [OF this cs(2) m] True b show ?thesis
    by (cases p) (auto simp: shift_position_def decrement_index_def)
next
  case False
  have "eid x \<noteq> eid (ys ! k)" if x: "x \<in> set (before cs p)" for x
  proof -
    from x obtain zs where z: "map_of cs (position_chunk p) = Some (Items zs)" "x \<in> set zs"
      by (auto simp: before_def split: option.splits chunk_content.splits) (metis in_set_takeD)
    then have "(position_chunk p, Items zs) \<in> set A \<union> set B" using cs(1) False by (auto dest: map_of_SomeD)
    with z(2) have "x \<in> set (items_of A) \<union> set (items_of B)" by (force simp: items_of_def)
    moreover have "eid ` (set (items_of A) \<union> set (items_of B)) \<inter> eid ` set ys = {}" using d(2) cs(1) by auto
    ultimately show ?thesis using cs(2) by (metis disjoint_iff imageI nth_mem)
  qed
  then have "filter (\<lambda>x. eid x \<noteq> eid (ys ! k)) (before cs p) = before cs p" by (auto intro: filter_True)
  with False p show ?thesis by (cases p) (auto simp: shift_position_def inside_def)
qed

end
