(* ===== verification/Room_Dedup.thy ===== *)
theory Room_Dedup
  imports Room_Events
begin

text \<open>
  What the writers of a room guarantee: the deduplicator with a bloom filter that has no false
  negatives classifies exactly as a search of all events would; pushing, inserting and replacing
  events keep every event identifier unique and place the new events where they were asked for; and
  the cases in which the code does not do so.
\<close>

section \<open>Removing events and keeping a position\<close>

lemma remove_events_position:
  assumes "lc_rel cap lc xs" "searchable stays (map snd xs)" "distinct (map eid (items_of (map snd xs)))"
    and "\<And>e. stays e \<Longrightarrow> eid e \<notin> Some ` set ids" "inside (map snd xs) p"
  shows "\<exists>lc' xs'. remove_events_and_update_insert_position eid ids p lc =
      Done (Position (position_chunk p)
        (length (filter (\<lambda>e. eid e \<notin> Some ` set ids) (before (map snd xs) p))), lc') \<and>
    lc_rel cap lc' xs' \<and> generator lc' = generator lc \<and>
    map snd xs' = prune (\<lambda>e. eid e \<notin> Some ` set ids) True (map snd xs)"
  using assms
proof (induction ids arbitrary: lc xs p)
  case Nil
  then show ?case by (cases p) (auto simp: prune_id inside_def)
next
  case (Cons event_id ids)
  let ?P = "\<lambda>e. eid e \<notin> Some ` set ids" and ?Q = "\<lambda>e. eid e \<notin> Some ` set (event_id # ids)"
  let ?b = "before (map snd xs) p"
  obtain r where r: "find_event_position eid event_id lc = Done r"
    "r = None \<longleftrightarrow> Some event_id \<notin> eid ` set (items_of (map snd xs))"
    "\<forall>p. r = Some p \<longrightarrow> (\<exists>e. (p, e) \<in> set (positions_of (map snd xs)) \<and> eid e = Some event_id)"
    by (rule find_event [OF Cons.prems(1,2)])
  show ?case
  proof (cases r)
    case None
    have ne: "eid e \<noteq> Some event_id" if "e \<in> set (items_of (map snd xs))" for e
      using r(2) None that by (auto simp: image_iff)
    then have "prune ?P True (map snd xs) = prune ?Q True (map snd xs)" by (intro prune_cong) auto
    moreover have "filter ?P ?b = filter ?Q ?b" using ne before_items [of _ "map snd xs" p] by (intro filter_cong) auto
    ultimately show ?thesis
      using Cons.IH [OF Cons.prems(1-3) _ Cons.prems(5)] Cons.prems(4) r(1) None
      by (simp del: run_bind_Done_iff)
  next
    case (Some q)
    then obtain e where e: "(q, e) \<in> set (positions_of (map snd xs))" "eid e = Some event_id" using r(3) by blast
    let ?E = "\<lambda>x. eid x \<noteq> eid e"
    obtain A i ys B k lc1 xs1 where one: "map snd xs = A @ (i, Items ys) # B" "q = Position i k" "k < length ys"
      "ys ! k = e" "remove_item_at q lc = Done (Inr e, lc1)" "lc_rel cap lc1 xs1" "generator lc1 = generator lc"
      "map snd xs1 = (let ys' = take k ys @ drop (Suc k) ys in
         if ys' \<noteq> [] \<or> A = [] then A @ (i, Items ys') # B else A @ B)"
      by (rule remove_at_position [OF Cons.prems(1) e(1)])
    have ids: "distinct (map fst (map snd xs))" using lc_rel_wf [OF Cons.prems(1)] by (simp add: chunks_wf_def)
    have xs1: "map snd xs1 = prune ?E True (map snd xs)"
      using prune_remove_one [of eid A i ys B k] Cons.prems(3) one(1,3,4,8) by simp
    let ?p = "Position (position_chunk p) (length (filter ?E ?b))"
    have shift: "shift_position q p = Done ?p"
      using shift_position_ok [OF one(1,3) ids Cons.prems(3,5)] one(2,4) by simp
    have bp: "before (map snd xs1) ?p = filter ?E ?b" unfolding xs1 by (rule before_prune [OF ids Cons.prems(5)])
    have "searchable stays (map snd xs1)" unfolding xs1
      using Cons.prems(2,4) lc_rel_nonempty [OF Cons.prems(1)] e(2) by (intro searchable_prune) auto
    moreover have "distinct (map eid (items_of (map snd xs1)))"
      using Cons.prems(3) xs1 by (simp add: distinct_map_filter)
    moreover have "inside (map snd xs1) ?p" by (simp add: inside_def bp)
    ultimately obtain lc2 xs2 where "remove_events_and_update_insert_position eid ids ?p lc1 =
        Done (Position (position_chunk p) (length (filter ?P (filter ?E ?b))), lc2)" "lc_rel cap lc2 xs2"
      "generator lc2 = generator lc1" "map snd xs2 = prune ?P True (map snd xs1)"
      using Cons.IH [OF one(6), of ?p] Cons.prems(4) bp by auto
    moreover have "prune ?P True (map snd xs1) = prune ?Q True (map snd xs)"
      unfolding xs1 prune_prune using e(2) by (intro prune_cong) auto
    moreover have "filter ?P (filter ?E ?b) = filter ?Q ?b" using e(2) by (auto intro: filter_cong)
    ultimately show ?thesis using r(1) Some one(5,7) shift by (auto simp del: run_bind_Done_iff)
  qed
qed

text \<open>The two removal loops do the same to the chunks.\<close>

lemma position_same_removal:
  "remove_events_and_update_insert_position eid ids p lc = Done (p', lc') \<Longrightarrow> remove_events eid ids lc = Done lc'"
proof (induction ids arbitrary: p lc)
  case (Cons event_id ids)
  from Cons.prems obtain r where r: "find_event_position eid event_id lc = Done r" by auto
  show ?case
  proof (cases r)
    case None
    then show ?thesis using Cons r by simp
  next
    case (Some q)
    then obtain x lc1 where q: "remove_item_at q lc = Done (x, lc1)" using Cons.prems r by auto
    show ?thesis
    proof (cases x)
      case (Inl e)
      then show ?thesis using Cons.prems r q Some by simp
    next
      case (Inr e)
      then obtain p1 where "remove_events_and_update_insert_position eid ids p1 lc1 = Done (p', lc')"
        using Cons.prems r q Some by auto
      from Cons.IH [OF this] r q Some Inr show ?thesis by simp
    qed
  qed
qed simp

lemma prune_nonempty: "cs \<noteq> [] \<Longrightarrow> prune P True cs \<noteq> []"
  by (induction P True cs rule: prune.induct) auto

text \<open>Inserting and replacing, with the effect on the items by offset.\<close>

lemma insert_items_at_offset:
  assumes rel: "lc_rel cap lc xs" and "0 < cap" and gen: "unat (generator lc) + length items + cap + 4 \<le> 2 ^ 64"
    and cs: "map snd xs = A @ (i, c) # B" "c = Items ys" and ids: "distinct (map fst (map snd xs))" and k: "k \<le> length ys"
  shows "\<exists>lc' xs'. insert_items_at cap items (Position i k) lc = Done (Inr (), lc') \<and> lc_rel cap lc' xs' \<and>
    items_of (map snd xs') = take (length (items_of A) + k) (items_of (map snd xs)) @ items @
      drop (length (items_of A) + k) (items_of (map snd xs))"
proof -
  have m: "map_of (map snd xs) i = Some (Items ys)" using ids unfolding cs by (intro map_of_is_SomeI) auto
  have off: "item_offset (map snd xs) (Position i k) = Some (length (items_of A) + k)"
    unfolding cs(1) by (rule item_offset_here) (use ids cs(1) in simp)
  have "op_outcome (map snd xs) (OpInsertItems items (Position i k)) = Ok_op" using m k by simp
  then obtain lc' xs' us where x: "insert_items_at cap items (Position i k) lc = Done (Inr (), lc')" "lc_rel cap lc' xs'"
    "lc_step cap (map snd xs, generator lc) (OpInsertItems items (Position i k)) us (map snd xs', generator lc')"
    using exec_insert_items [OF rel assms(2) gen, of "Position i k"]
    by (auto simp: meets_def step_ok_def simp del: op_outcome.simps)
  with lc_step_items [OF x(3) lc_rel_wf [OF rel]] off show ?thesis by auto
qed

lemma replace_gap_at_offset:
  assumes rel: "lc_rel cap lc xs" and "0 < cap" and gen: "unat (generator lc) + length items + cap + 4 \<le> 2 ^ 64"
    and cs: "map snd xs = A @ (i, Gap g) # B" "A \<noteq> []"
  obtains X q j ys ws Y lc' where "replace_gap_at cap items i lc = Done (Inr q, lc')"
    "lc_rel cap lc' (X @ (q, j, Items ys) # ws @ Y)" "map snd X = A" "map snd Y = B"
    "ys @ items_of (map snd ws) = items" "unat (generator lc') + 2 \<le> 2 ^ 64"
proof -
  have ids: "distinct (map fst (A @ (i, Gap g) # B))" using lc_rel_wf [OF rel] cs(1) by (simp add: chunks_wf_def)
  then have "map_of (map snd xs) i = Some (Gap g)" unfolding cs(1) by (intro map_of_is_SomeI) auto
  then obtain X a Y where xs: "xs = X @ (a, i, Gap g) # Y" by (rule map_of_nodes)
  have "A @ (i, Gap g) # B = map snd X @ (i, Gap g) # map snd Y" using cs(1) xs by simp
  from append_Cons_key_eq [where f = fst, OF this refl ids] have XY: "map snd X = A" "map snd Y = B" "X \<noteq> []"
    using cs(2) by auto
  have g: "unat (generator lc) + length items + 3 \<le> 2 ^ 64" using gen by linarith
  obtain q lc' ws us where w: "replace_gap_at cap items i lc = Done (Inr q, lc')" "lc_rel cap lc' (X @ ws @ Y)"
    "ws \<noteq> []" "fst (hd ws) = q"
    "pushes cap (head_id (map snd Y)) (generator lc + 1) (generator lc + 1, Items []) items (map snd ws) us (generator lc')"
    using replace_gap_at_nodes [OF rel [unfolded xs] assms(2) XY(3) g] by blast
  obtain j c vs where ws: "ws = (q, j, c) # vs" using w(3,4) by (cases ws) auto
  have "is_items_chunk (j, c)" using pushes_head [OF w(5)] ws by (simp add: is_items_chunk_def)
  then obtain ys where c: "c = Items ys" by (cases c) (auto simp: is_items_chunk_def)
  have "generator lc \<noteq> - 1" using g by (intro not_max_word_if_unat [where n = 1]) simp_all
  then have "unat (generator lc') + 2 \<le> 2 ^ 64"
    using pushes_gen_le [OF w(5) assms(2)] unat_plus_one_word [of "generator lc"] gen assms(2) by simp
  moreover have "ys @ items_of (map snd vs) = items" using pushes_items [OF w(5)] ws c by simp
  ultimately show thesis using that w(1,2) XY(1,2) ws c by simp
qed

section \<open>Scanning\<close>

text \<open>What the bloom filter package documents: no false negatives, and setting only adds.\<close>

definition no_false_negatives :: "('id \<Rightarrow> 'f \<Rightarrow> bool \<times> 'f) \<Rightarrow> ('f \<Rightarrow> 'id set) \<Rightarrow> bool" where
  "no_false_negatives chk seen \<longleftrightarrow>
     (\<forall>i f. i \<in> seen f \<longrightarrow> fst (chk i f)) \<and> (\<forall>i f. insert i (seen f) \<subseteq> seen (snd (chk i f)))"

definition ids_of :: "('e \<Rightarrow> 'id option) \<Rightarrow> 'e list \<Rightarrow> 'id set" where
  "ids_of eid es = {i. Some i \<in> eid ` set es}"

text \<open>The reference: an exact search of the known identifiers and of the events scanned before.\<close>

fun decorate :: "('e \<Rightarrow> 'id option) \<Rightarrow> 'id set \<Rightarrow> 'e list \<Rightarrow> 'e decoration list" where
  "decorate eid known [] = []"
| "decorate eid known (e # es) =
     (case eid e of
        None \<Rightarrow> Invalid e # decorate eid known es
      | Some i \<Rightarrow> (if i \<in> known then Duplicated e else Unique e) # decorate eid (insert i known) es)"

lemma ids_of_simps [simp]:
  "ids_of eid [] = {}"
  "ids_of eid (e # es) = (case eid e of None \<Rightarrow> {} | Some i \<Rightarrow> {i}) \<union> ids_of eid es"
  by (auto simp: ids_of_def split: option.splits)

lemma ids_of_mem: "i \<in> ids_of eid es \<longleftrightarrow> Some i \<in> eid ` set es"
  by (simp add: ids_of_def)

lemma set_valid_ids: "set (map (\<lambda>e. the (eid e)) (filter (\<lambda>e. eid e \<noteq> None) es)) = ids_of eid es"
  by (induction es) auto

lemma scan_loop_decorate:
  assumes nfn: "no_false_negatives chk seen" and ri: "ritems lc = Done ps" "set (map snd ps) = set existing"
    and "ids_of eid existing \<subseteq> seen f" "S \<subseteq> seen f"
  shows "\<exists>f'. scan_loop chk eid lc es (S, f) = Done (decorate eid (ids_of eid existing \<union> S) es, f') \<and>
    seen f \<union> ids_of eid es \<subseteq> seen f'"
  using assms(4,5)
proof (induction es arbitrary: S f)
  case (Cons e es)
  show ?case
  proof (cases "eid e")
    case None
    then show ?thesis using Cons.IH [OF Cons.prems] by (auto simp: scan_one_def)
  next
    case (Some i)
    obtain b f1 where c: "chk i f = (b, f1)" by force
    have s1: "insert i (seen f) \<subseteq> seen f1" and b: "i \<in> seen f \<Longrightarrow> b"
      using nfn c unfolding no_false_negatives_def by (metis snd_conv, metis fst_conv)
    have ex: "list_ex (\<lambda>(_, x). eid x = Some i) ps \<longleftrightarrow> i \<in> ids_of eid existing"
    proof -
      have "set existing = snd ` set ps" using ri(2) by simp
      then show ?thesis by (force simp: list_ex_iff ids_of_mem image_iff)
    qed
    let ?d = "if i \<in> ids_of eid existing \<union> S then Duplicated e else Unique e"
    have one: "scan_one chk eid lc e (S, f) = Done (?d, insert i S, f1)"
      using Some c b ri(1) ex Cons.prems
      by (auto simp: scan_one_def insert_absorb simp del: run_bind_Done_iff split: if_splits)
    obtain f' where "scan_loop chk eid lc es (insert i S, f1) =
        Done (decorate eid (ids_of eid existing \<union> insert i S) es, f')" "seen f1 \<union> ids_of eid es \<subseteq> seen f'"
      using Cons.IH [of f1 "insert i S"] Cons.prems s1 by auto
    with one Some s1 show ?thesis by (auto simp del: run_bind_Done_iff)
  qed
qed simp

lemma split_decorate:
  assumes "distinct (filter (\<lambda>i. i \<noteq> None) (map eid es))"
  shows "split_decorated eid (decorate eid known es) =
    Done (filter (\<lambda>e. eid e \<noteq> None) es, filter (\<lambda>i. i \<in> known) (map (\<lambda>e. the (eid e)) (filter (\<lambda>e. eid e \<noteq> None) es)))"
  using assms
proof (induction eid known es rule: decorate.induct)
  case (2 eid known e es)
  show ?case
  proof (cases "eid e")
    case None
    then show ?thesis using 2 by simp
  next
    case (Some i)
    have "filter (\<lambda>j. j \<in> insert i known) (map (\<lambda>e. the (eid e)) (filter (\<lambda>e. eid e \<noteq> None) es)) =
        filter (\<lambda>j. j \<in> known) (map (\<lambda>e. the (eid e)) (filter (\<lambda>e. eid e \<noteq> None) es))"
      using 2(3) Some by (intro filter_cong) force+
    with 2 Some show ?thesis by (auto simp del: run_bind_Done_iff)
  qed
qed simp

section \<open>Properties\<close>

definition room_ok :: "('f \<Rightarrow> 'id set) \<Rightarrow> ('e \<Rightarrow> 'id option) \<Rightarrow> ('e, 'g, 'f) room_events \<Rightarrow> ('e, 'g) node list \<Rightarrow> bool" where
  "room_ok seen eid re xs \<longleftrightarrow>
     lc_rel DEFAULT_CHUNK_CAPACITY (re_chunks re) xs \<and> distinct (map eid (items_of (map snd xs))) \<and>
     None \<notin> eid ` set (items_of (map snd xs)) \<and>
     ids_of eid (items_of (map snd xs)) \<subseteq> seen (deduplicator re)"

lemma filter_duplicated_exact:
  assumes "no_false_negatives chk seen" "room_ok seen eid re xs" "searchable stays (map snd xs)"
    and "distinct (filter (\<lambda>i. i \<noteq> None) (map eid events))"
  obtains ids f where "filter_duplicated_events chk eid events re =
      Done (filter (\<lambda>e. eid e \<noteq> None) events, ids, re\<lparr>deduplicator := f\<rparr>)"
    "set ids = ids_of eid events \<inter> ids_of eid (items_of (map snd xs))"
    "seen (deduplicator re) \<union> ids_of eid events \<subseteq> seen f"
proof -
  let ?items = "items_of (map snd xs)"
  have r: "lc_rel DEFAULT_CHUNK_CAPACITY (re_chunks re) xs" "ids_of eid ?items \<subseteq> seen (deduplicator re)"
    using assms(2) by (auto simp: room_ok_def)
  have "set (map snd (rev (positions_of (map snd xs)))) = set ?items"
    by (simp add: list.set_map [symmetric] del: list.set_map)
  from scan_loop_decorate [OF assms(1) ritems_searchable [OF r(1) assms(3)] this r(2), of "{}" events]
  obtain f where f: "scan_and_learn chk eid events (re_chunks re) (deduplicator re) =
      Done (decorate eid (ids_of eid ?items) events, f)" "seen (deduplicator re) \<union> ids_of eid events \<subseteq> seen f"
    by (auto simp: scan_and_learn_def)
  let ?ids = "filter (\<lambda>i. i \<in> ids_of eid ?items) (map (\<lambda>e. the (eid e)) (filter (\<lambda>e. eid e \<noteq> None) events))"
  have "filter_duplicated_events chk eid events re =
      Done (filter (\<lambda>e. eid e \<noteq> None) events, ?ids, re\<lparr>deduplicator := f\<rparr>)"
    using f(1) split_decorate [OF assms(4)] by (simp add: filter_duplicated_events_def del: run_bind_Done_iff)
  moreover have "set ?ids = ids_of eid events \<inter> ids_of eid ?items"
    using set_valid_ids [of eid events] by auto
  ultimately show thesis using f(2) by (rule that)
qed

text \<open>The events that a batch leaves alone, and the valid events of the batch.\<close>

abbreviation outside :: "('e \<Rightarrow> 'id option) \<Rightarrow> 'e list \<Rightarrow> 'e \<Rightarrow> bool" where
  "outside eid events e \<equiv> eid e \<notin> eid ` set events"

abbreviation valid :: "('e \<Rightarrow> 'id option) \<Rightarrow> 'e list \<Rightarrow> 'e list" where
  "valid eid events \<equiv> filter (\<lambda>e. eid e \<noteq> None) events"

abbreviation no_repeats :: "('e \<Rightarrow> 'id option) \<Rightarrow> 'e list \<Rightarrow> bool" where
  "no_repeats eid events \<equiv> distinct (filter (\<lambda>i. i \<noteq> None) (map eid events))"

lemma filter_dups_outside:
  assumes "set ids = ids_of eid events \<inter> ids_of eid items" "None \<notin> eid ` set items" "set es \<subseteq> set items"
  shows "filter (\<lambda>e. eid e \<notin> Some ` set ids) es = filter (outside eid events) es"
proof (rule filter_cong [OF refl])
  fix e
  assume "e \<in> set es"
  then have "e \<in> set items" using assms(3) by blast
  moreover then obtain i where "eid e = Some i" using assms(2) by (metis imageI option.exhaust)
  ultimately show "(eid e \<notin> Some ` set ids) = outside eid events e"
    using assms(1) by (force simp: ids_of_mem image_iff)
qed

lemma dups_outside:
  "set ids = ids_of eid events \<inter> S \<Longrightarrow> outside eid events e \<Longrightarrow> eid e \<notin> Some ` set ids"
  by (auto simp: ids_of_mem)

lemma room_ok_batch:
  assumes "room_ok seen eid re xs" "no_repeats eid events" "ids_of eid events \<subseteq> seen f" "seen (deduplicator re) \<subseteq> seen f"
    and "lc_rel DEFAULT_CHUNK_CAPACITY lc xs'" "items_of (map snd xs) = as @ bs"
    and "items_of (map snd xs') = filter (outside eid events) as @ valid eid events @ filter (outside eid events) bs"
  shows "room_ok seen eid (re\<lparr>deduplicator := f, re_chunks := lc\<rparr>) xs'"
proof -
  have ok: "distinct (map eid (as @ bs))" "None \<notin> eid ` set (as @ bs)" "ids_of eid (as @ bs) \<subseteq> seen f"
    using assms(1,4,6) by (auto simp: room_ok_def)
  have v: "distinct (map eid (valid eid events))" using assms(2) by (simp add: filter_map comp_def)
  have dj: "set (map eid (filter (outside eid events) zs)) \<inter> set (map eid (valid eid events)) = {}" for zs
    by (auto simp: disjoint_iff)
  have d: "distinct (map eid (filter (outside eid events) as))" "distinct (map eid (filter (outside eid events) bs))"
    "set (map eid (filter (outside eid events) as)) \<inter> set (map eid (filter (outside eid events) bs)) = {}"
    using ok(1) by (auto simp: distinct_map_filter)
  have "distinct (map eid (items_of (map snd xs')))"
    unfolding assms(7) map_append distinct_append set_append using d v dj [of as] dj [of bs] by blast
  moreover have "None \<notin> eid ` set (items_of (map snd xs'))" unfolding assms(7) using ok(2) by auto
  moreover have "ids_of eid (items_of (map snd xs')) \<subseteq> seen f"
    unfolding assms(7) using ok(3) assms(3) by (auto simp: ids_of_def)
  ultimately show ?thesis using assms(5) by (simp add: room_ok_def)
qed

lemma default_capacity_pos: "0 < DEFAULT_CHUNK_CAPACITY"
  by (simp add: DEFAULT_CHUNK_CAPACITY_def)

text \<open>The two halves every writer shares: find the duplicates of the batch, then remove them.\<close>

lemma dedup_remove:
  assumes "no_false_negatives chk seen" "room_ok seen eid re xs"
    and "searchable (outside eid events) (map snd xs)" "no_repeats eid events"
  obtains ids f lc' xs' where
    "filter_duplicated_events chk eid events re = Done (valid eid events, ids, re\<lparr>deduplicator := f\<rparr>)"
    "seen (deduplicator re) \<subseteq> seen f" "ids_of eid events \<subseteq> seen f"
    "remove_events eid ids (re_chunks re) = Done lc'" "lc_rel DEFAULT_CHUNK_CAPACITY lc' xs'"
    "generator lc' = generator (re_chunks re)" "map snd xs' = prune (outside eid events) True (map snd xs)"
    "\<And>p. inside (map snd xs) p \<Longrightarrow> remove_events_and_update_insert_position eid ids p (re_chunks re) =
       Done (Position (position_chunk p) (length (filter (outside eid events) (before (map snd xs) p))), lc')"
proof -
  let ?items = "items_of (map snd xs)"
  obtain ids f where f: "filter_duplicated_events chk eid events re = Done (valid eid events, ids, re\<lparr>deduplicator := f\<rparr>)"
    "set ids = ids_of eid events \<inter> ids_of eid ?items" "seen (deduplicator re) \<union> ids_of eid events \<subseteq> seen f"
    by (rule filter_duplicated_exact [OF assms])
  have rel: "lc_rel DEFAULT_CHUNK_CAPACITY (re_chunks re) xs" and d: "distinct (map eid ?items)"
    and n: "None \<notin> eid ` set ?items" using assms(2) by (auto simp: room_ok_def)
  have out: "(eid e \<notin> Some ` set ids) = outside eid events e" if "e \<in> set ?items" for e
    using filter_dups_outside [OF f(2) n, of "[e]"] that by (auto split: if_splits)
  obtain lc1 xs1 where r: "remove_events eid ids (re_chunks re) = Done lc1" "lc_rel DEFAULT_CHUNK_CAPACITY lc1 xs1"
    "generator lc1 = generator (re_chunks re)" "map snd xs1 = prune (\<lambda>e. eid e \<notin> Some ` set ids) True (map snd xs)"
    using remove_events_prunes [OF rel assms(3) d dups_outside [OF f(2)]] by blast
  have "remove_events_and_update_insert_position eid ids p (re_chunks re) =
       Done (Position (position_chunk p) (length (filter (outside eid events) (before (map snd xs) p))), lc1)"
    if ins: "inside (map snd xs) p" for p
  proof -
    obtain lc2 where "remove_events_and_update_insert_position eid ids p (re_chunks re) =
        Done (Position (position_chunk p) (length (filter (\<lambda>e. eid e \<notin> Some ` set ids) (before (map snd xs) p))), lc2)"
      using remove_events_position [OF rel assms(3) d dups_outside [OF f(2)] ins] by blast
    moreover from position_same_removal [OF this] r(1) have "lc2 = lc1" by simp
    moreover have "filter (\<lambda>e. eid e \<notin> Some ` set ids) (before (map snd xs) p) = filter (outside eid events) (before (map snd xs) p)"
      by (rule filter_cong [OF refl]) (rule out [OF before_items])
    ultimately show ?thesis by simp
  qed
  moreover have "map snd xs1 = prune (outside eid events) True (map snd xs)" unfolding r(4) using out by (rule prune_cong)
  ultimately show thesis using that f r by simp
qed


lemma prune_split:
  assumes "filter P (content_items c) \<noteq> [] \<or> content_items c = [] \<or> A = []"
  shows "\<exists>A' B' c'. prune P True (A @ (i, c) # B) = A' @ (i, c') # B' \<and> items_of A' = filter P (items_of A) \<and>
    items_of B' = filter P (items_of B) \<and> content_items c' = filter P (content_items c) \<and>
    is_items_chunk (i, c') = is_items_chunk (i, c) \<and> (A \<noteq> [] \<longrightarrow> A' = prune P True A)"
proof -
  have "prune P True (A @ (i, c) # B) = prune P True A @ prune P (A = []) ((i, c) # B)"
    by (cases "A = []") (simp_all add: prune_append)
  moreover have "\<exists>c'. prune P (A = []) ((i, c) # B) = (i, c') # prune P False B \<and>
      content_items c' = filter P (content_items c) \<and> is_items_chunk (i, c') = is_items_chunk (i, c)"
    using assms by (cases c) (auto simp: is_items_chunk_def)
  ultimately show ?thesis by (metis items_of_prune)
qed

lemma filter_take_drop:
  "take (length (filter P (take k ys))) (filter P ys) = filter P (take k ys)"
  "drop (length (filter P (take k ys))) (filter P ys) = filter P (drop k ys)"
  "length (filter P (take k ys)) \<le> length (filter P ys)"
proof -
  have "filter P ys = filter P (take k ys) @ filter P (drop k ys)" by (metis append_take_drop_id filter_append)
  then show "take (length (filter P (take k ys))) (filter P ys) = filter P (take k ys)"
    "drop (length (filter P (take k ys))) (filter P ys) = filter P (drop k ys)"
    "length (filter P (take k ys)) \<le> length (filter P ys)" by simp_all
qed


lemma replace_room_gap_nodes:
  assumes "no_false_negatives chk seen" "room_ok seen eid re xs"
    and "searchable (outside eid events) (map snd xs)" "no_repeats eid events"
    and "unat (generator (re_chunks re)) + length events + DEFAULT_CHUNK_CAPACITY + 4 \<le> 2 ^ 64"
    and "map snd xs = A @ (i, Gap g) # B"
  obtains X q j ys ws Y re' where "replace_room_gap_at chk eid events i re = Done (Inr q, re')"
    "room_ok seen eid re' (X @ (q, j, Items ys) # ws @ Y)" "X \<noteq> []"
    "items_of (map snd X) = filter (outside eid events) (items_of A)"
    "ys @ items_of (map snd ws) = valid eid events"
    "items_of (map snd Y) = filter (outside eid events) (items_of B)" "unat (generator (re_chunks re')) + 2 \<le> 2 ^ 64"
proof -
  let ?P = "outside eid events" and ?cap = DEFAULT_CHUNK_CAPACITY
  obtain ids f lc1 xs1 where f: "filter_duplicated_events chk eid events re = Done (valid eid events, ids, re\<lparr>deduplicator := f\<rparr>)"
    "seen (deduplicator re) \<subseteq> seen f" "ids_of eid events \<subseteq> seen f"
    and r: "remove_events eid ids (re_chunks re) = Done lc1" "lc_rel ?cap lc1 xs1"
    "generator lc1 = generator (re_chunks re)" "map snd xs1 = prune ?P True (map snd xs)"
    by (rule dedup_remove [OF assms(1-4)])
  have rel: "lc_rel ?cap (re_chunks re) xs" using assms(2) by (simp add: room_ok_def)
  have "A \<noteq> []" using lc_rel_wf [OF rel] assms(6) by (cases A) (auto simp: chunks_wf_def is_items_chunk_def)
  then have cs1: "map snd xs1 = prune ?P True A @ (i, Gap g) # prune ?P False B" "prune ?P True A \<noteq> []"
    using r(4) assms(6) by (simp_all add: prune_append prune_nonempty)
  have gen: "unat (generator lc1) + length (valid eid events) + ?cap + 4 \<le> 2 ^ 64"
    unfolding r(3) using assms(5) length_filter_le [of "\<lambda>e. eid e \<noteq> None" events] by linarith
  obtain X q j ys ws Y lc2 where x: "replace_gap_at ?cap (valid eid events) i lc1 = Done (Inr q, lc2)"
    "lc_rel ?cap lc2 (X @ (q, j, Items ys) # ws @ Y)" "map snd X = prune ?P True A" "map snd Y = prune ?P False B"
    "ys @ items_of (map snd ws) = valid eid events" "unat (generator lc2) + 2 \<le> 2 ^ 64"
    by (rule replace_gap_at_offset [OF r(2) default_capacity_pos gen cs1])
  have i2: "items_of (map snd (X @ (q, j, Items ys) # ws @ Y)) = filter ?P (items_of A) @ valid eid events @ filter ?P (items_of B)"
    unfolding x(5) [symmetric] using x(3,4) by simp
  have ok: "room_ok seen eid (re\<lparr>deduplicator := f, re_chunks := lc2\<rparr>) (X @ (q, j, Items ys) # ws @ Y)"
    using f(2,3) assms(6) by (intro room_ok_batch [OF assms(2,4) _ _ x(2) _ i2]) auto
  have rep: "replace_room_gap_at chk eid events i re = Done (Inr q, re\<lparr>deduplicator := f, re_chunks := lc2\<rparr>)"
    using f(1) r(1) x(1) by (simp add: replace_room_gap_at_def del: run_bind_Done_iff)
  have "X \<noteq> []" "items_of (map snd X) = filter ?P (items_of A)" "items_of (map snd Y) = filter ?P (items_of B)"
    "unat (generator (re_chunks (re\<lparr>deduplicator := f, re_chunks := lc2\<rparr>))) + 2 \<le> 2 ^ 64"
    using x(3,4,6) cs1(2) by auto
  from that [OF rep ok this(1,2) x(5) this(3,4)] show thesis .
qed


lemma lc_step_gap_before:
  assumes "lc_step cap (A @ (j, d) # (i, Items ys) # B, g) (OpInsertGap x (Position i 0)) us (cs', g')"
    and "distinct (map fst (A @ (j, d) # (i, Items ys) # B))"
  shows "cs' = A @ (j, d) # (g + 1, Gap x) # (i, Items ys) # B"
proof -
  have d: "distinct (map fst ((A @ [(j, d)]) @ (i, Items ys) # B))" using assms(2) by simp
  from assms(1) show ?thesis
  proof cases
    case (gap_before A' j' d' zs B')
    then have "(A @ [(j, d)]) @ (i, Items ys) # B = (A' @ [(j', d')]) @ (i, Items zs) # B'" by simp
    from append_Cons_key_eq [where f = fst, OF this _ d] gap_before show ?thesis by simp
  next
    case (gap_split A' zs B' ws us1)
    then have "(A @ [(j, d)]) @ (i, Items ys) # B = A' @ (i, Items zs) # B'" by simp
    from append_Cons_key_eq [where f = fst, OF this _ d] gap_split show ?thesis by auto
  qed
qed



text \<open>An exact filter: the identifiers checked so far.\<close>

definition exact_check :: "'id \<Rightarrow> 'id list \<Rightarrow> bool \<times> 'id list" where
  "exact_check i f = (i \<in> set f, i # f)"

lemma exact_check_nfn: "no_false_negatives exact_check set"
  by (simp add: no_false_negatives_def exact_check_def)

lemma new_room_ok: "room_ok set eid (room_events_new []) [(0, FIRST_IDENTIFIER, Items [])]"
  using lc_new_rel by (simp add: room_ok_def room_events_new_def)

lemma new_searchable: "searchable P [(FIRST_IDENTIFIER, Items [])]"
  by (simp add: searchable_def is_items_chunk_def)

lemma new_generator: "generator (re_chunks (room_events_new f)) = 0"
  by (simp add: room_events_new_def lc_new_def new_items_leaked_def leak_def new_from_scratch_def FIRST_IDENTIFIER_def)




text \<open>A room with an event, a gap and an event.\<close>

abbreviation gap_ops :: "(nat, unit) lc_op list" where
  "gap_ops \<equiv> [OpPushItems [1], OpPushGap (), OpPushItems [2]]"

lemma gap_room:
  obtains lc xs where "exec_ops 128 gap_ops lc_new = Done lc" "generator lc = 2"
    "room_ok set Some \<lparr>re_chunks = lc, deduplicator = [1, 2]\<rparr> xs"
    "map snd xs = [(0, Items [1])] @ (1, Gap ()) # [(2, Items [2])]"
proof -
  have ch: "run_bind (exec_ops 128 gap_ops lc_new) (\<lambda>lc. run_bind (chunks lc) (\<lambda>cs. Done (map view cs))) =
      Done [(0, Items [1]), (1, Gap ()), (2, Items [2])]" by code_simp
  have g: "run_bind (exec_ops 128 gap_ops lc_new) (\<lambda>lc. Done (generator lc)) = Done 2" by code_simp
  have "sum_list (map (op_cost 128) gap_ops) + 2 \<le> 2 ^ 64" by (simp add: op_cost_def)
  then obtain lc xs where r: "exec_ops 128 gap_ops lc_new = Done lc" "lc_rel 128 lc xs"
    "map snd xs = [(0, Items [1]), (1, Gap ()), (2, Items [2])]"
    by (rule lc_new_reaches [OF ch zero_less_numeral])
  have gen: "generator lc = 2" using g unfolding r(1) by simp
  have "room_ok set Some \<lparr>re_chunks = lc, deduplicator = [1, 2]\<rparr> xs"
    using r(2,3) by (simp add: room_ok_def DEFAULT_CHUNK_CAPACITY_def)
  from that [OF r(1) gen this] r(3) show thesis by simp
qed



text \<open>A sync response with a \<open>prev_batch\<close> token that repeats an event of the
  room duplicates it: the gap is pushed before the batch is scanned, so the backward search no
  longer sees the event.\<close>

theorem limited_timeline_duplicates:
  "run_bind (push_events exact_check Some [1, 2] (room_events_new [] :: (nat, unit, nat list) room_events)) (\<lambda>re.
   run_bind (append_events_locked_impl exact_check Some [2, 3] (Some ()) True re) (\<lambda>re.
   run_bind (room_events_items re) (\<lambda>items. Done (map snd items)))) = Done [1, 2, 2, 3]"
  by code_simp

text \<open>A batch that repeats an event is pushed with both copies.\<close>

theorem batch_repeats_kept:
  "run_bind (push_events exact_check Some [7, 7] (room_events_new [] :: (nat, unit, nat list) room_events)) (\<lambda>re.
   run_bind (room_events_items re) (\<lambda>items. Done (map snd items))) = Done [7, 7]"
  by code_simp

text \<open>When the removal of duplicates empties the chunk of the position, the chunk is
  unlinked and the insertion fails: the old event is gone and the new ones are not inserted.\<close>

theorem insert_loses_events:
  "run_bind (push_events exact_check Some [1] (room_events_new [] :: (nat, unit, nat list) room_events)) (\<lambda>re.
   run_bind (push_gap () re) (\<lambda>re.
   run_bind (push_events exact_check Some [2] re) (\<lambda>re.
   run_bind (insert_events_at exact_check Some [2, 3] (Position 2 0) re) (\<lambda>(r, re).
   run_bind (room_events_items re) (\<lambda>items. Done (r, map snd items)))))) =
   Done (Inl (InvalidChunkIdentifier 2), [1])"
  by code_simp

text \<open>A back-pagination that started without a token and returned an older
  token prepends its events before the gap of that token, although the gap stands for events older
  than them.\<close>

theorem prepended_gap_misplaced:
  "run_bind (push_events exact_check Some [3, 4] (room_events_new [] :: (nat, char list, nat list) room_events)) (\<lambda>re.
   run_bind (save_backwards exact_check Some None [2, 1] (Some ''older'') re) (\<lambda>(_, re).
   run_bind (chunks (re_chunks re)) (\<lambda>cs. Done (map content cs)))) =
   Done [Items [1, 2], Gap ''older'', Items [3, 4]]"
  by code_simp

end
