(* ===== verification/Sticky_Parameters.thy ===== *)
theory Sticky_Parameters
  imports Sdk_Prelude
begin

text \<open>
  Sticky request parameters of sliding sync (\<open>sliding_sync/sticky_parameters.rs\<close>): the lazily
  generated transaction identifier and the manager that sends a set of parameters until a
  response acknowledges them. The trait \<open>StickyData\<close> is the locale \<open>sticky_contract\<close>; what it gives for
  every sequence of requests, responses and changes of the data is proved there once.
\<close>

section \<open>LazyTransactionId\<close>

type_synonym txn_id = string

record lazy_transaction_id =
  lazy_txn_id :: "txn_id option"

definition lazy_transaction_id_new :: lazy_transaction_id where
  "lazy_transaction_id_new = \<lparr>lazy_txn_id = None\<rparr>"

text \<open>The random generator of \<open>TransactionId::new\<close> is the argument \<open>fresh\<close>.\<close>

definition get_or_create :: "txn_id \<Rightarrow> lazy_transaction_id \<Rightarrow> txn_id \<times> lazy_transaction_id" where
  "get_or_create fresh l =
     (case lazy_txn_id l of
        Some t \<Rightarrow> (t, l)
      | None \<Rightarrow> (fresh, l\<lparr>lazy_txn_id := Some fresh\<rparr>))"

section \<open>SlidingSyncStickyManager\<close>

record 'd sticky_manager =
  sticky_data :: 'd
  invalidated :: bool
  sticky_txn_id :: "txn_id option"

definition sticky_manager_new :: "'d \<Rightarrow> 'd sticky_manager" where
  "sticky_manager_new d = \<lparr>sticky_data = d, invalidated = True, sticky_txn_id = None\<rparr>"

text \<open>\<open>data_mut\<close> hands out a mutable reference; \<open>f\<close> is what the caller does with it.\<close>

definition data_mut :: "('d \<Rightarrow> 'd) \<Rightarrow> 'd sticky_manager \<Rightarrow> 'd sticky_manager" where
  "data_mut f m = m\<lparr>invalidated := True, sticky_data := f (sticky_data m)\<rparr>"

definition maybe_apply :: "('d \<Rightarrow> 'r \<Rightarrow> 'r) \<Rightarrow> txn_id \<Rightarrow> 'r \<Rightarrow> lazy_transaction_id \<Rightarrow> 'd sticky_manager
   \<Rightarrow> 'r \<times> lazy_transaction_id \<times> 'd sticky_manager" where
  "maybe_apply apply_data fresh req txn m =
     (if invalidated m then
        (let (t, txn) = get_or_create fresh txn in
         (apply_data (sticky_data m) req, txn, m\<lparr>sticky_txn_id := Some t\<rparr>))
      else (req, txn, m))"

definition maybe_commit :: "('d \<Rightarrow> 'd) \<Rightarrow> txn_id \<Rightarrow> 'd sticky_manager \<Rightarrow> 'd sticky_manager" where
  "maybe_commit on_commit txn m =
     (if invalidated m \<and> sticky_txn_id m = Some txn
      then m\<lparr>invalidated := False, sticky_data := on_commit (sticky_data m)\<rparr>
      else m)"

section \<open>Lives of a manager\<close>

text \<open>
  A life of a manager is a sequence of events: a request built under a transaction identifier, a
  response that echoes one, a change of the data through \<open>data_mut\<close>. Beside the manager, a life
  records the requests that carried its data, and what the acknowledged ones carried: \<open>carried d\<close>
  is the set of parameters that \<open>apply\<close> writes into a request for the data \<open>d\<close>.
\<close>

datatype 'd sticky_event = Send txn_id | Ack txn_id | Change "'d \<Rightarrow> 'd"

record ('d, 'p) sticky_life =
  manager :: "'d sticky_manager"
  sent :: "(txn_id \<times> 'd) list"
  acked :: "'p set"

definition life_start :: "'d \<Rightarrow> ('d, 'p) sticky_life" where
  "life_start d = \<lparr>manager = sticky_manager_new d, sent = [], acked = {}\<rparr>"

fun sticky_step :: "('d \<Rightarrow> 'p set) \<Rightarrow> ('d \<Rightarrow> 'd) \<Rightarrow> 'd sticky_event
    \<Rightarrow> ('d, 'p) sticky_life \<Rightarrow> ('d, 'p) sticky_life" where
  "sticky_step carried on_commit (Send t) s =
     (let (req, _, m) = maybe_apply (\<lambda>d _. [(t, d)]) t [] lazy_transaction_id_new (manager s)
      in s\<lparr>manager := m, sent := sent s @ req\<rparr>)"
| "sticky_step carried on_commit (Ack t) s =
     s\<lparr>manager := maybe_commit on_commit t (manager s),
       acked := acked s \<union> (\<Union>(u, d) \<in> set (sent s). if u = t then carried d else {})\<rparr>"
| "sticky_step carried on_commit (Change f) s = s\<lparr>manager := data_mut f (manager s)\<rparr>"

text \<open>
  In an ordered life no response to a request from before the last change arrives after that
  change: \<open>cur\<close> holds the identifiers sent since the last change and \<open>stale\<close> the older ones.
\<close>

fun ordered :: "txn_id list \<Rightarrow> txn_id list \<Rightarrow> 'd sticky_event list \<Rightarrow> bool" where
  "ordered cur stale [] = True"
| "ordered cur stale (Send t # es) = (t \<notin> set stale \<and> ordered (t # cur) stale es)"
| "ordered cur stale (Ack t # es) = (t \<notin> set stale \<and> ordered cur stale es)"
| "ordered cur stale (Change f # es) = ordered [] (cur @ stale) es"

section \<open>The contract of StickyData\<close>

text \<open>
  \<open>items\<close> are all the parameters the data hold. A commit keeps them, and a change admitted by
  \<open>admissible\<close> never introduces a parameter that would not be sent.
\<close>

locale sticky_contract =
  fixes items :: "'d \<Rightarrow> 'p set"
    and carried :: "'d \<Rightarrow> 'p set"
    and on_commit :: "'d \<Rightarrow> 'd"
    and admissible :: "('d \<Rightarrow> 'd) \<Rightarrow> bool"
  assumes items_on_commit: "items (on_commit d) = items d"
    and admissible_change: "admissible f \<Longrightarrow> items (f d) - carried (f d) \<subseteq> items d - carried d"
begin

definition life_ok :: "txn_id list \<Rightarrow> txn_id list \<Rightarrow> ('d, 'p) sticky_life \<Rightarrow> bool" where
  "life_ok cur stale s \<longleftrightarrow>
     (let m = manager s; d = sticky_data m in
      items d - carried d \<subseteq> acked s \<and>
      (\<not> invalidated m \<longrightarrow> items d \<subseteq> acked s) \<and>
      (invalidated m \<longrightarrow> (\<forall>t. sticky_txn_id m = Some t \<longrightarrow>
         t \<in> set stale \<or> (t, d) \<in> set (sent s) \<and> t \<in> set cur)) \<and>
      (\<forall>t. sticky_txn_id m = Some t \<longrightarrow> t \<in> set cur \<union> set stale))"

lemma life_ok_send: "life_ok cur stale s \<Longrightarrow> life_ok (t # cur) stale (sticky_step carried on_commit (Send t) s)"
  by (auto simp: life_ok_def Let_def maybe_apply_def get_or_create_def lazy_transaction_id_new_def)

lemma life_ok_ack:
  assumes "life_ok cur stale s" and "t \<notin> set stale"
  shows "life_ok cur stale (sticky_step carried on_commit (Ack t) s)"
proof (cases "invalidated (manager s) \<and> sticky_txn_id (manager s) = Some t")
  case True
  let ?d = "sticky_data (manager s)"
  from True assms have "(t, ?d) \<in> set (sent s)" and old: "items ?d - carried ?d \<subseteq> acked s"
    by (auto simp: life_ok_def Let_def)
  then have "carried ?d \<subseteq> (\<Union>(u, d) \<in> set (sent s). if u = t then carried d else {})"
    by force
  with old have "items ?d \<subseteq> acked s \<union> (\<Union>(u, d) \<in> set (sent s). if u = t then carried d else {})"
    by blast
  with True assms show ?thesis by (auto simp: life_ok_def Let_def maybe_commit_def items_on_commit)
next
  case False
  then have "maybe_commit on_commit t (manager s) = manager s" by (auto simp: maybe_commit_def)
  with assms(1) show ?thesis by (auto simp: life_ok_def Let_def)
qed

lemma life_ok_change:
  assumes "life_ok cur stale s" and "admissible f"
  shows "life_ok [] (cur @ stale) (sticky_step carried on_commit (Change f) s)"
  using assms(1) admissible_change [OF assms(2), of "sticky_data (manager s)"]
  by (auto simp: life_ok_def Let_def data_mut_def)

lemma life_ok_fold:
  assumes "life_ok cur stale s" and "ordered cur stale es" and "\<forall>f. Change f \<in> set es \<longrightarrow> admissible f"
  shows "\<exists>cur stale. life_ok cur stale (fold (sticky_step carried on_commit) es s)"
  using assms
proof (induction es arbitrary: cur stale s)
  case (Cons e es)
  show ?case
  proof (cases e)
    case (Send t)
    with Cons.prems show ?thesis by (auto intro!: Cons.IH life_ok_send simp del: sticky_step.simps)
  next
    case (Ack t)
    with Cons.prems show ?thesis by (auto intro!: Cons.IH life_ok_ack simp del: sticky_step.simps)
  next
    case (Change f)
    with Cons.prems show ?thesis by (auto intro!: Cons.IH life_ok_change simp del: sticky_step.simps)
  qed
qed auto

theorem sent_until_acknowledged:
  assumes "items d \<subseteq> carried d" and "ordered [] [] es" and "\<forall>f. Change f \<in> set es \<longrightarrow> admissible f"
    and "s = fold (sticky_step carried on_commit) es (life_start d)"
  shows "items (sticky_data (manager s)) - carried (sticky_data (manager s)) \<subseteq> acked s \<and>
         (\<not> invalidated (manager s) \<longrightarrow> items (sticky_data (manager s)) \<subseteq> acked s)"
proof -
  have "life_ok [] [] (life_start d)"
    using assms(1) by (auto simp: life_ok_def life_start_def sticky_manager_new_def)
  from life_ok_fold [OF this assms(2,3)] assms(4) show ?thesis by (auto simp: life_ok_def Let_def)
qed

end

end
