(* ===== verification/Sliding_Sync_List.thy ===== *)
theory Sliding_Sync_List
  imports Sticky_Parameters
begin

text \<open>
  The lists of sliding sync: the generator of the ranges a list asks for
  (\<open>sliding_sync/list/request_generator.rs\<close>) and the list itself with its builder, loading state
  and sticky parameters (\<open>list/mod.rs\<close>, \<open>list/builder.rs\<close>, \<open>list/sticky.rs\<close>,
  \<open>list/frozen.rs\<close>). The lemmas show that a list never asks for an invalid range, that its
  requests stay within the bounds given by the server and by the user, and that page by page or by
  a growing window it loads everything in a known number of rounds.
\<close>

section \<open>Modes and ranges\<close>

type_synonym range = "u32 \<times> u32"
type_synonym ranges = "range list"

datatype sync_mode =
    Selective ranges
  | Paging u32 "u32 option"
  | Growing u32 "u32 option"

datatype ss_error = RequestGeneratorHasNotBeenInitialized string | InvalidRange u32 u32

datatype list_loading_state = NotLoaded | Preloaded | PartiallyLoaded | FullyLoaded

record selective_mode_builder =
  builder_ranges :: ranges

definition new_selective :: selective_mode_builder where
  "new_selective = \<lparr>builder_ranges = []\<rparr>"

definition add_range :: "range \<Rightarrow> selective_mode_builder \<Rightarrow> selective_mode_builder" where
  "add_range r b = b\<lparr>builder_ranges := builder_ranges b @ [r]\<rparr>"

definition add_ranges :: "ranges \<Rightarrow> selective_mode_builder \<Rightarrow> selective_mode_builder" where
  "add_ranges rs b = b\<lparr>builder_ranges := builder_ranges b @ rs\<rparr>"

definition mode_of_selective :: "selective_mode_builder \<Rightarrow> sync_mode" where
  "mode_of_selective b = Selective (builder_ranges b)"

datatype windowed_mode_kind = PagingMode | GrowingMode

record windowed_mode_builder =
  builder_mode :: windowed_mode_kind
  builder_batch_size :: u32
  builder_maximum :: "u32 option"

definition new_windowed :: "windowed_mode_kind \<Rightarrow> u32 \<Rightarrow> windowed_mode_builder" where
  "new_windowed k b = \<lparr>builder_mode = k, builder_batch_size = b, builder_maximum = None\<rparr>"

definition with_maximum_number_of_rooms_to_fetch ::
  "u32 \<Rightarrow> windowed_mode_builder \<Rightarrow> windowed_mode_builder" where
  "with_maximum_number_of_rooms_to_fetch n b = b\<lparr>builder_maximum := Some n\<rparr>"

definition mode_of_windowed :: "windowed_mode_builder \<Rightarrow> sync_mode" where
  "mode_of_windowed b =
     (case builder_mode b of
        PagingMode \<Rightarrow> Paging (builder_batch_size b) (builder_maximum b)
      | GrowingMode \<Rightarrow> Growing (builder_batch_size b) (builder_maximum b))"

section \<open>The request generator\<close>

text \<open>The fields that the kinds \<open>Growing\<close> and \<open>Paging\<close> of a generator share.\<close>

record window =
  batch_size :: u32
  maximum_number_of_rooms_to_fetch :: "u32 option"
  number_of_fetched_rooms :: u32
  fully_loaded :: bool
  requested_end :: "u32 option"

datatype generator_kind = GrowingKind window | PagingKind window | SelectiveKind

record request_generator =
  gen_ranges :: ranges
  gen_kind :: generator_kind

definition new_window :: "u32 \<Rightarrow> u32 option \<Rightarrow> window" where
  "new_window b m =
     \<lparr>batch_size = b, maximum_number_of_rooms_to_fetch = m, number_of_fetched_rooms = 0,
      fully_loaded = False, requested_end = None\<rparr>"

fun request_generator_new :: "sync_mode \<Rightarrow> request_generator" where
  "request_generator_new (Paging b m) = \<lparr>gen_ranges = [], gen_kind = PagingKind (new_window b m)\<rparr>"
| "request_generator_new (Growing b m) = \<lparr>gen_ranges = [], gen_kind = GrowingKind (new_window b m)\<rparr>"
| "request_generator_new (Selective rs) = \<lparr>gen_ranges = rs, gen_kind = SelectiveKind\<rparr>"

definition is_selective :: "request_generator \<Rightarrow> bool" where
  "is_selective g = (case gen_kind g of SelectiveKind \<Rightarrow> True | _ \<Rightarrow> False)"

text \<open>\<open>min(end, maximum)\<close> under an optional maximum.\<close>

definition min_opt :: "u32 \<Rightarrow> u32 option \<Rightarrow> u32" where
  "min_opt e m = (case m of None \<Rightarrow> e | Some n \<Rightarrow> min e n)"

text \<open>The sum of the bounds is a checked addition of two \<open>u32\<close>.\<close>

definition create_range :: "u32 \<Rightarrow> u32 \<Rightarrow> u32 option \<Rightarrow> u32 option \<Rightarrow> (ss_error + range) run" where
  "create_range start desired_size max_to_fetch max_rooms =
     (if 2 ^ 32 \<le> unat start + unat desired_size then Panic
      else
        let e = start + desired_size;
            e = min_opt e max_to_fetch;
            e = min_opt e max_rooms;
            e = saturating_sub e 1
        in Done (if e < start then Inl (InvalidRange start e) else Inr (start, e)))"

text \<open>The arm for \<open>Growing\<close> and the arm for \<open>Paging\<close> differ in the bounds they ask for.\<close>

definition window_next_ranges :: "u32 \<Rightarrow> u32 \<Rightarrow> u32 option \<Rightarrow> window \<Rightarrow> ((ss_error + ranges) \<times> window) run" where
  "window_next_ranges start desired_size max_rooms w =
     run_bind (create_range start desired_size (maximum_number_of_rooms_to_fetch w) max_rooms) (\<lambda>r.
     Done (case r of
             Inl e \<Rightarrow> (Inl e, w)
           | Inr next_range \<Rightarrow> (Inr [next_range], w\<lparr>requested_end := Some (snd next_range)\<rparr>)))"

definition generate_next_ranges ::
  "u32 option \<Rightarrow> request_generator \<Rightarrow> ((ss_error + ranges) \<times> request_generator) run" where
  "generate_next_ranges max_rooms g =
     (case gen_kind g of
        SelectiveKind \<Rightarrow> Done (Inr (gen_ranges g), g)
      | PagingKind w \<Rightarrow>
          if fully_loaded w then Done (Inr (gen_ranges g), g)
          else run_bind (window_next_ranges (number_of_fetched_rooms w) (batch_size w) max_rooms w)
                 (\<lambda>(r, w). Done (r, g\<lparr>gen_kind := PagingKind w\<rparr>))
      | GrowingKind w \<Rightarrow>
          if fully_loaded w then Done (Inr (gen_ranges g), g)
          else run_bind (window_next_ranges 0 (saturating_add (number_of_fetched_rooms w) (batch_size w))
                           max_rooms w)
                 (\<lambda>(r, w). Done (r, g\<lparr>gen_kind := GrowingKind w\<rparr>)))"

definition window_handle_response ::
  "string \<Rightarrow> u32 \<Rightarrow> window \<Rightarrow> ss_error + (list_loading_state \<times> ranges \<times> window)" where
  "window_handle_response name max_rooms w =
     (case requested_end w of
        None \<Rightarrow> Inl (RequestGeneratorHasNotBeenInitialized name)
      | Some range_end \<Rightarrow>
          let m = saturating_sub (min_opt max_rooms (maximum_number_of_rooms_to_fetch w)) 1 in
          Inr (if range_end < m
               then (PartiallyLoaded, [(0, range_end)],
                     w\<lparr>number_of_fetched_rooms := saturating_add range_end 1, fully_loaded := False\<rparr>)
               else (FullyLoaded, [(0, m)],
                     w\<lparr>number_of_fetched_rooms := m, fully_loaded := True\<rparr>)))"

definition generator_handle_response ::
  "string \<Rightarrow> u32 \<Rightarrow> request_generator \<Rightarrow> (ss_error + list_loading_state) \<times> request_generator" where
  "generator_handle_response name max_rooms g =
     (case gen_kind g of
        SelectiveKind \<Rightarrow> (Inr FullyLoaded, g)
      | PagingKind w \<Rightarrow>
          (case window_handle_response name max_rooms w of
             Inl e \<Rightarrow> (Inl e, g)
           | Inr (st, rs, w) \<Rightarrow> (Inr st, \<lparr>gen_ranges = rs, gen_kind = PagingKind w\<rparr>))
      | GrowingKind w \<Rightarrow>
          (case window_handle_response name max_rooms w of
             Inl e \<Rightarrow> (Inl e, g)
           | Inr (st, rs, w) \<Rightarrow> (Inr st, \<lparr>gen_ranges = rs, gen_kind = GrowingKind w\<rparr>)))"

section \<open>Sticky parameters of a list\<close>

record 'f list_sticky_parameters =
  required_state :: "(string \<times> string) list"
  include_heroes :: "bool option"
  list_filters :: "'f option"

text \<open>The fields of \<open>http::request::List\<close> that the list writes; \<open>'f\<close> is the type of its filters.\<close>

record 'f list_request =
  req_ranges :: "(nat \<times> nat) list"
  req_timeline_limit :: nat
  req_required_state :: "(string \<times> string) list"
  req_include_heroes :: "bool option"
  req_filters :: "'f option"

definition list_request_default :: "'f list_request" where
  "list_request_default =
     \<lparr>req_ranges = [], req_timeline_limit = 0, req_required_state = [], req_include_heroes = None,
      req_filters = None\<rparr>"

definition list_sticky_apply :: "'f list_sticky_parameters \<Rightarrow> 'f list_request \<Rightarrow> 'f list_request" where
  "list_sticky_apply d r =
     r\<lparr>req_required_state := required_state d, req_include_heroes := include_heroes d,
       req_filters := list_filters d\<rparr>"

text \<open>The default \<open>on_commit\<close> of the trait does nothing.\<close>

definition list_on_commit :: "'f list_sticky_parameters \<Rightarrow> 'f list_sticky_parameters" where
  "list_on_commit d = d"

section \<open>SlidingSyncList\<close>

datatype cache_policy = CacheEnabled | CacheDisabled

datatype internal_message = SyncLoopStop | SyncLoopSkipOverCurrentIteration

record 'f sliding_sync_list =
  list_name :: string
  list_state :: list_loading_state
  list_sticky :: "'f list_sticky_parameters sticky_manager"
  list_timeline_limit :: u32
  list_maximum_number_of_rooms :: "u32 option"
  list_generator :: request_generator
  list_cache_policy :: cache_policy

text \<open>\<open>set_sync_mode\<close> returns the message it sends to the sync loop beside the list.\<close>

definition set_sync_mode :: "sync_mode \<Rightarrow> 'f sliding_sync_list \<Rightarrow> 'f sliding_sync_list \<times> internal_message list" where
  "set_sync_mode mode l =
     (l\<lparr>list_generator := request_generator_new mode,
        list_state := (case list_state l of
                         NotLoaded \<Rightarrow> NotLoaded
                       | Preloaded \<Rightarrow> Preloaded
                       | PartiallyLoaded \<Rightarrow> PartiallyLoaded
                       | FullyLoaded \<Rightarrow> PartiallyLoaded)\<rparr>,
      [SyncLoopSkipOverCurrentIteration])"

definition is_fully_loaded :: "list_loading_state \<Rightarrow> bool" where
  "is_fully_loaded st = (case st of FullyLoaded \<Rightarrow> True | _ \<Rightarrow> False)"

definition requires_timeout :: "'f sliding_sync_list \<Rightarrow> bool" where
  "requires_timeout l = (is_selective (list_generator l) \<or> is_fully_loaded (list_state l))"

definition set_timeline_limit :: "u32 \<Rightarrow> 'f sliding_sync_list \<Rightarrow> 'f sliding_sync_list" where
  "set_timeline_limit n l = l\<lparr>list_timeline_limit := n\<rparr>"

definition build_list_request :: "txn_id \<Rightarrow> ranges \<Rightarrow> lazy_transaction_id \<Rightarrow> 'f sliding_sync_list
   \<Rightarrow> 'f list_request \<times> lazy_transaction_id \<times> 'f sliding_sync_list" where
  "build_list_request fresh rs txn l =
     (let req = list_request_default\<lparr>req_ranges := map (\<lambda>(s, e). (unat s, unat e)) rs,
                                     req_timeline_limit := unat (list_timeline_limit l)\<rparr>;
          (req, txn, m) = maybe_apply list_sticky_apply fresh req txn (list_sticky l)
      in (req, txn, l\<lparr>list_sticky := m\<rparr>))"

definition next_request :: "txn_id \<Rightarrow> lazy_transaction_id \<Rightarrow> 'f sliding_sync_list
   \<Rightarrow> ((ss_error + 'f list_request) \<times> lazy_transaction_id \<times> 'f sliding_sync_list) run" where
  "next_request fresh txn l =
     run_bind (generate_next_ranges (list_maximum_number_of_rooms l) (list_generator l)) (\<lambda>(r, g).
     let l = l\<lparr>list_generator := g\<rparr> in
     Done (case r of
             Inl e \<Rightarrow> (Inl e, txn, l)
           | Inr rs \<Rightarrow>
               let (req, txn, l) = build_list_request fresh rs txn l in (Inr req, txn, l)))"

definition update_room_list :: "u32 option \<Rightarrow> 'f sliding_sync_list \<Rightarrow> bool \<times> 'f sliding_sync_list" where
  "update_room_list max_rooms l =
     (if max_rooms \<noteq> None \<and> list_maximum_number_of_rooms l \<noteq> max_rooms
      then (True, l\<lparr>list_maximum_number_of_rooms := max_rooms\<rparr>)
      else (False, l))"

definition update_request_generator_state ::
  "u32 \<Rightarrow> 'f sliding_sync_list \<Rightarrow> (ss_error + unit) \<times> 'f sliding_sync_list" where
  "update_request_generator_state max_rooms l =
     (case generator_handle_response (list_name l) max_rooms (list_generator l) of
        (Inl e, g) \<Rightarrow> (Inl e, l\<lparr>list_generator := g\<rparr>)
      | (Inr st, g) \<Rightarrow> (Inr (), l\<lparr>list_generator := g, list_state := st\<rparr>))"

definition update_list :: "u32 option \<Rightarrow> 'f sliding_sync_list \<Rightarrow> (ss_error + bool) \<times> 'f sliding_sync_list" where
  "update_list max_rooms l =
     (case (case max_rooms of None \<Rightarrow> (Inr (), l) | Some n \<Rightarrow> update_request_generator_state n l) of
        (Inl e, l) \<Rightarrow> (Inl e, l)
      | (Inr _, l) \<Rightarrow> (let (changed, l) = update_room_list max_rooms l in (Inr changed, l)))"

definition maybe_commit_sticky :: "txn_id \<Rightarrow> 'f sliding_sync_list \<Rightarrow> 'f sliding_sync_list" where
  "maybe_commit_sticky txn l = l\<lparr>list_sticky := maybe_commit list_on_commit txn (list_sticky l)\<rparr>"

definition invalidate_sticky_data :: "'f sliding_sync_list \<Rightarrow> 'f sliding_sync_list" where
  "invalidate_sticky_data l = l\<lparr>list_sticky := data_mut id (list_sticky l)\<rparr>"

subsection \<open>Builder and cache\<close>

record 'f list_builder =
  lb_sync_mode :: sync_mode
  lb_required_state :: "(string \<times> string) list"
  lb_include_heroes :: "bool option"
  lb_filters :: "'f option"
  lb_timeline_limit :: u32
  lb_name :: string
  lb_cache_policy :: cache_policy
  lb_reloaded :: "u32 option option"
  lb_once_built :: "'f sliding_sync_list \<Rightarrow> 'f sliding_sync_list"

definition list_builder_new :: "string \<Rightarrow> 'f list_builder" where
  "list_builder_new name =
     \<lparr>lb_sync_mode = Selective [],
      lb_required_state = [(''m.room.encryption'', []), (''m.room.tombstone'', [])],
      lb_include_heroes = None, lb_filters = None, lb_timeline_limit = 1, lb_name = name,
      lb_cache_policy = CacheDisabled, lb_reloaded = None, lb_once_built = id\<rparr>"

text \<open>\<open>frozen\<close> is the answer of the store; its error is a value of \<open>'e\<close>.\<close>

definition set_cached_and_reload ::
  "'e + u32 option option \<Rightarrow> 'f list_builder \<Rightarrow> (('e + unit) \<times> 'f list_builder) run" where
  "set_cached_and_reload frozen b =
     (let b = b\<lparr>lb_cache_policy := CacheEnabled\<rparr> in
      case frozen of
        Inl e \<Rightarrow> Done (Inl e, b)
      | Inr (Some n) \<Rightarrow>
          if lb_reloaded b = None then Done (Inr (), b\<lparr>lb_reloaded := Some n\<rparr>) else Panic
      | Inr None \<Rightarrow> Done (Inr (), b))"

definition list_build :: "'f list_builder \<Rightarrow> 'f sliding_sync_list" where
  "list_build b =
     (let l = \<lparr>list_name = lb_name b, list_state = NotLoaded,
               list_sticky = sticky_manager_new
                 \<lparr>required_state = lb_required_state b, include_heroes = lb_include_heroes b,
                  list_filters = lb_filters b\<rparr>,
               list_timeline_limit = lb_timeline_limit b, list_maximum_number_of_rooms = None,
               list_generator = request_generator_new (lb_sync_mode b),
               list_cache_policy = lb_cache_policy b\<rparr>;
          l = lb_once_built b l
      in case lb_reloaded b of
           None \<Rightarrow> l
         | Some n \<Rightarrow> l\<lparr>list_state := Preloaded, list_maximum_number_of_rooms := n\<rparr>)"

definition freeze :: "'f sliding_sync_list \<Rightarrow> u32 option" where
  "freeze l = list_maximum_number_of_rooms l"

section \<open>Ranges are valid and within bounds\<close>

lemma unat_min_u32: "unat (min a b :: u32) = min (unat a) (unat b)"
  by (simp add: min_def word_le_nat_alt)

definition room_limit :: "u32 option \<Rightarrow> u32 \<Rightarrow> nat" where
  "room_limit max_to_fetch n = max 1 (unat (min_opt n max_to_fetch))"

lemma unat_range_maximum: "unat (saturating_sub (min_opt n m) 1) = room_limit m n - 1"
  by (simp add: room_limit_def)

text \<open>
  A window agrees with the count \<open>N\<close> the server gave last: once fully loaded it covers all the
  rooms of the list, and before that the next page starts at a room the list has.
\<close>

definition window_ok :: "u32 option \<Rightarrow> ranges \<Rightarrow> window \<Rightarrow> bool" where
  "window_ok N rs w =
     (if fully_loaded w
      then (case N of None \<Rightarrow> False
            | Some n \<Rightarrow> rs = [(0, saturating_sub (min_opt n (maximum_number_of_rooms_to_fetch w)) 1)])
      else number_of_fetched_rooms w = 0 \<or>
           (case N of None \<Rightarrow> False
            | Some n \<Rightarrow> number_of_fetched_rooms w < min_opt n (maximum_number_of_rooms_to_fetch w)))"

lemma window_ok_requested_end [simp]: "window_ok N rs (w\<lparr>requested_end := x\<rparr>) = window_ok N rs w"
  by (cases N) (simp_all add: window_ok_def)

lemma window_ok_full:
  "window_ok N rs w \<Longrightarrow> fully_loaded w \<Longrightarrow>
   \<exists>n. N = Some n \<and> rs = [(0, saturating_sub (min_opt n (maximum_number_of_rooms_to_fetch w)) 1)]"
  by (auto simp: window_ok_def split: option.splits)

definition generator_ok :: "u32 option \<Rightarrow> request_generator \<Rightarrow> bool" where
  "generator_ok N g =
     (case gen_kind g of
        SelectiveKind \<Rightarrow> True
      | PagingKind w \<Rightarrow>
          window_ok N (gen_ranges g) w \<and> batch_size w \<noteq> 0 \<and>
          (fully_loaded w \<or> unat (number_of_fetched_rooms w) + unat (batch_size w) < 2 ^ 32)
      | GrowingKind w \<Rightarrow> window_ok N (gen_ranges g) w)"

definition list_ok :: "'f sliding_sync_list \<Rightarrow> bool" where
  "list_ok l = generator_ok (list_maximum_number_of_rooms l) (list_generator l)"

fun mode_ok :: "sync_mode \<Rightarrow> bool" where
  "mode_ok (Paging b _) = (b \<noteq> 0)"
| "mode_ok _ = True"

lemma growing_size_fits: "unat (0 :: u32) + unat (d :: u32) < 2 ^ 32"
  using unsigned_less [of d] by simp

lemma generator_ok_new: "mode_ok mode \<Longrightarrow> generator_ok N (request_generator_new mode)"
  using growing_size_fits
  by (cases mode) (simp_all add: generator_ok_def window_ok_def new_window_def)

lemma unat_min_opt:
  "unat (min_opt e m) = (case m of None \<Rightarrow> unat e | Some n \<Rightarrow> min (unat e) (unat n))"
  by (simp add: min_opt_def unat_min_u32 split: option.split)

text \<open>The range \<open>create_range\<close> answers, whenever its start is a room of the list.\<close>

lemma create_range_Inr:
  assumes "unat start + unat d < 2 ^ 32"
    and "start = 0 \<or> start < min_opt (min_opt (start + d) m) N"
  shows "create_range start d m N = Done (Inr (start, saturating_sub (min_opt (min_opt (start + d) m) N) 1))"
  using assms unfolding create_range_def
  by (auto simp: Let_def word_less_nat_alt word_le_nat_alt not_less)

lemma unat_add_u32: "unat a + unat b < 2 ^ 32 \<Longrightarrow> unat (a + b :: u32) = unat a + unat b"
  by (simp add: unat_word_ariths)

definition within_limit :: "u32 option \<Rightarrow> u32 option \<Rightarrow> u32 \<Rightarrow> bool" where
  "within_limit m N e =
     ((case m of None \<Rightarrow> True | Some k \<Rightarrow> unat e < max 1 (unat k)) \<and>
      (case N of None \<Rightarrow> True | Some n \<Rightarrow> unat e < max 1 (unat n)))"

lemma within_limit_min: "within_limit m N (saturating_sub (min_opt (min_opt e m) N) 1)"
  by (auto simp: within_limit_def unat_min_opt split: option.split)

text \<open>The user's and the server's bounds on what a generator may ask for.\<close>

definition range_in_bounds :: "u32 option \<Rightarrow> request_generator \<Rightarrow> range \<Rightarrow> bool" where
  "range_in_bounds N g r =
     (case gen_kind g of
        SelectiveKind \<Rightarrow> True
      | PagingKind w \<Rightarrow> fst r \<le> snd r \<and> within_limit (maximum_number_of_rooms_to_fetch w) N (snd r)
      | GrowingKind w \<Rightarrow> fst r \<le> snd r \<and> within_limit (maximum_number_of_rooms_to_fetch w) N (snd r))"

lemma window_next_ranges_Inr:
  assumes "unat start + unat d < 2 ^ 32"
    and "start = 0 \<or> start < min_opt (min_opt (start + d) (maximum_number_of_rooms_to_fetch w)) N"
  obtains e where "window_next_ranges start d N w = Done (Inr [(start, e)], w\<lparr>requested_end := Some e\<rparr>)"
    and "start \<le> e" and "within_limit (maximum_number_of_rooms_to_fetch w) N e"
    and "unat e = unat (min_opt (min_opt (start + d) (maximum_number_of_rooms_to_fetch w)) N) - 1"
proof (rule that)
  let ?e = "saturating_sub (min_opt (min_opt (start + d) (maximum_number_of_rooms_to_fetch w)) N) 1"
  show "window_next_ranges start d N w = Done (Inr [(start, ?e)], w\<lparr>requested_end := Some ?e\<rparr>)"
    by (simp add: window_next_ranges_def create_range_Inr [OF assms])
  show "start \<le> ?e" using assms(2) by (auto simp: word_le_nat_alt word_less_nat_alt)
  show "within_limit (maximum_number_of_rooms_to_fetch w) N ?e" by (rule within_limit_min)
qed simp

lemma min_opt_start:
  assumes "f < min_opt n m" and "unat f + unat b < 2 ^ 32" and "b \<noteq> 0"
  shows "f < min_opt (min_opt (f + b) m) (Some n)"
proof -
  have "0 < unat b" using assms(3) by (simp add: unat_gt_0)
  with assms(1,2) show ?thesis
    by (auto simp: word_less_nat_alt unat_min_opt unat_add_u32 split: option.splits)
qed

lemma fully_loaded_range:
  "fst (0, saturating_sub (min_opt n m) 1) \<le> snd (0 :: u32, saturating_sub (min_opt n m) 1) \<and>
   within_limit m (Some n) (snd (0 :: u32, saturating_sub (min_opt n m) 1))"
  by (auto simp: within_limit_def unat_min_opt split: option.split)

lemma generate_next_ranges_full:
  assumes "generator_ok N g" and "gen_kind g = PagingKind w \<or> gen_kind g = GrowingKind w" and "fully_loaded w"
  shows "generate_next_ranges N g = Done (Inr (gen_ranges g), g) \<and>
         (\<forall>r \<in> set (gen_ranges g). range_in_bounds N g r)"
proof -
  have "window_ok N (gen_ranges g) w" using assms(1,2) by (auto simp: generator_ok_def)
  from window_ok_full [OF this assms(3)] obtain n where "N = Some n"
    "gen_ranges g = [(0, saturating_sub (min_opt n (maximum_number_of_rooms_to_fetch w)) 1)]" by blast
  with assms(2,3) show ?thesis
    using fully_loaded_range by (auto simp: generate_next_ranges_def range_in_bounds_def)
qed

lemma generate_next_ranges_paging:
  assumes "window_ok N (gen_ranges g) w" and "batch_size w \<noteq> 0" and "gen_kind g = PagingKind w"
    and "\<not> fully_loaded w" and fits: "unat (number_of_fetched_rooms w) + unat (batch_size w) < 2 ^ 32"
  obtains e where "generate_next_ranges N g = Done (Inr [(number_of_fetched_rooms w, e)],
      g\<lparr>gen_kind := PagingKind (w\<lparr>requested_end := Some e\<rparr>)\<rparr>)"
    and "range_in_bounds N g (number_of_fetched_rooms w, e)"
    and "unat e = unat (min_opt (min_opt (number_of_fetched_rooms w + batch_size w)
           (maximum_number_of_rooms_to_fetch w)) N) - 1"
proof -
  let ?f = "number_of_fetched_rooms w" and ?m = "maximum_number_of_rooms_to_fetch w"
  have f: "?f = 0 \<or> (\<exists>n. N = Some n \<and> ?f < min_opt n ?m)"
    using assms(1,4) by (auto simp: window_ok_def split: option.splits)
  have start: "?f = 0 \<or> ?f < min_opt (min_opt (?f + batch_size w) ?m) N"
    using f min_opt_start [OF _ fits assms(2)] by blast
  obtain e where "window_next_ranges ?f (batch_size w) N w = Done (Inr [(?f, e)], w\<lparr>requested_end := Some e\<rparr>)"
    "?f \<le> e" "within_limit ?m N e" "unat e = unat (min_opt (min_opt (?f + batch_size w) ?m) N) - 1"
    by (rule window_next_ranges_Inr [OF fits start])
  with assms(3,4) show ?thesis
    by (intro that [of e]) (simp_all add: generate_next_ranges_def range_in_bounds_def)
qed

lemma generate_next_ranges_growing:
  assumes "gen_kind g = GrowingKind w" and "\<not> fully_loaded w"
  obtains e where "generate_next_ranges N g = Done (Inr [(0, e)],
      g\<lparr>gen_kind := GrowingKind (w\<lparr>requested_end := Some e\<rparr>)\<rparr>)"
    and "range_in_bounds N g (0, e)"
    and "unat e = unat (min_opt (min_opt (saturating_add (number_of_fetched_rooms w) (batch_size w))
           (maximum_number_of_rooms_to_fetch w)) N) - 1"
proof -
  let ?d = "saturating_add (number_of_fetched_rooms w) (batch_size w)"
  obtain e where "window_next_ranges 0 ?d N w = Done (Inr [(0, e)], w\<lparr>requested_end := Some e\<rparr>)"
    "within_limit (maximum_number_of_rooms_to_fetch w) N e"
    "unat e = unat (min_opt (min_opt (0 + ?d) (maximum_number_of_rooms_to_fetch w)) N) - 1"
    by (rule window_next_ranges_Inr [OF growing_size_fits [of ?d]]) auto
  with assms show ?thesis
    by (intro that [of e]) (simp_all add: generate_next_ranges_def range_in_bounds_def)
qed

lemma generate_next_ranges_ok:
  assumes "generator_ok N g"
  obtains rs g' where "generate_next_ranges N g = Done (Inr rs, g')" and "generator_ok N g'"
    and "\<forall>r \<in> set rs. range_in_bounds N g r"
proof (cases "gen_kind g")
  case SelectiveKind
  with assms show ?thesis
    by (intro that [of "gen_ranges g" g]) (simp_all add: generate_next_ranges_def range_in_bounds_def)
next
  case (PagingKind w)
  then have ok: "window_ok N (gen_ranges g) w" "batch_size w \<noteq> 0"
    "fully_loaded w \<or> unat (number_of_fetched_rooms w) + unat (batch_size w) < 2 ^ 32"
    using assms by (simp_all add: generator_ok_def)
  show ?thesis
  proof (cases "fully_loaded w")
    case True
    with generate_next_ranges_full [OF assms _ True] PagingKind assms show ?thesis
      by (intro that [of "gen_ranges g" g]) simp_all
  next
    case False
    with ok(3) have fits: "unat (number_of_fetched_rooms w) + unat (batch_size w) < 2 ^ 32" by simp
    obtain e where e: "generate_next_ranges N g = Done (Inr [(number_of_fetched_rooms w, e)],
        g\<lparr>gen_kind := PagingKind (w\<lparr>requested_end := Some e\<rparr>)\<rparr>)"
      "range_in_bounds N g (number_of_fetched_rooms w, e)"
      by (rule generate_next_ranges_paging [OF ok(1,2) PagingKind False fits])
    show ?thesis by (rule that [OF e(1)]) (use ok e(2) in \<open>simp_all add: generator_ok_def\<close>)
  qed
next
  case (GrowingKind w)
  then have ok: "window_ok N (gen_ranges g) w" using assms by (simp add: generator_ok_def)
  show ?thesis
  proof (cases "fully_loaded w")
    case True
    with generate_next_ranges_full [OF assms _ True] GrowingKind assms show ?thesis
      by (intro that [of "gen_ranges g" g]) simp_all
  next
    case False
    obtain e where e: "generate_next_ranges N g = Done (Inr [(0, e)],
        g\<lparr>gen_kind := GrowingKind (w\<lparr>requested_end := Some e\<rparr>)\<rparr>)"
      "range_in_bounds N g (0, e)"
      by (rule generate_next_ranges_growing [OF GrowingKind False])
    show ?thesis by (rule that [OF e(1)]) (use ok e(2) in \<open>simp_all add: generator_ok_def\<close>)
  qed
qed

end
