(* ===== verification/List_Loading.thy ===== *)
theory List_Loading
  imports Sliding_Sync_List
begin

text \<open>
  What a sliding sync list does over its life. The states that the operations of a list can reach
  keep the invariant of its request generator, so every request asks for valid ranges within the
  bounds of the server and of the user. Against a server with a constant number of rooms the paging
  and the growing mode load the whole list in exactly as many rounds as it has batches. A batch of
  size zero never does.
\<close>

section \<open>Reachable lists\<close>

datatype list_op =
    NextRequest txn_id
  | Update "u32 option"
  | SetSyncMode sync_mode
  | SetTimelineLimit u32
  | CommitSticky txn_id
  | InvalidateSticky

fun exec_list_op :: "list_op \<Rightarrow> 'f sliding_sync_list \<Rightarrow> 'f sliding_sync_list run" where
  "exec_list_op (NextRequest t) l = run_bind (next_request t lazy_transaction_id_new l) (\<lambda>(_, _, l). Done l)"
| "exec_list_op (Update n) l = Done (snd (update_list n l))"
| "exec_list_op (SetSyncMode mode) l = Done (fst (set_sync_mode mode l))"
| "exec_list_op (SetTimelineLimit n) l = Done (set_timeline_limit n l)"
| "exec_list_op (CommitSticky t) l = Done (maybe_commit_sticky t l)"
| "exec_list_op InvalidateSticky l = Done (invalidate_sticky_data l)"

text \<open>In the paging mode, batches are not empty and pages do not exceed the range of \<open>u32\<close>.\<close>

fun op_fits :: "list_op \<Rightarrow> 'f sliding_sync_list \<Rightarrow> bool" where
  "op_fits (Update (Some n)) l =
     (case gen_kind (list_generator l) of
        PagingKind w \<Rightarrow> unat (batch_size w) + unat n \<le> 2 ^ 32 | _ \<Rightarrow> True)"
| "op_fits (SetSyncMode mode) l = mode_ok mode"
| "op_fits _ l = True"

inductive list_reachable :: "'f sliding_sync_list \<Rightarrow> bool" where
  built: "mode_ok (lb_sync_mode b) \<Longrightarrow> lb_once_built b = id \<Longrightarrow> list_reachable (list_build b)"
| step: "list_reachable l \<Longrightarrow> op_fits op l \<Longrightarrow> exec_list_op op l = Done l' \<Longrightarrow> list_reachable l'"

lemma window_handle_response_ok:
  assumes "window_handle_response name n w = Inr (st, rs, w')"
  shows "window_ok (Some n) rs w' \<and> batch_size w' = batch_size w \<and>
         (fully_loaded w' \<or> unat (number_of_fetched_rooms w') < unat n)"
proof -
  let ?k = "min_opt n (maximum_number_of_rooms_to_fetch w)"
  obtain e where e: "requested_end w = Some e"
    using assms by (auto simp: window_handle_response_def split: option.splits)
  show ?thesis
  proof (cases "e < saturating_sub ?k 1")
    case True
    then have "unat e + 1 < unat ?k" by (simp add: word_less_nat_alt)
    then have "unat (saturating_add e 1) < unat ?k" by (simp add: unat_saturating_add)
    moreover have "unat ?k \<le> unat n" by (simp add: unat_min_opt split: option.split)
    ultimately show ?thesis
      using assms e True by (auto simp: window_handle_response_def window_ok_def word_less_nat_alt)
  next
    case False
    with assms e show ?thesis by (auto simp: window_handle_response_def window_ok_def Let_def)
  qed
qed

lemma generator_handle_response_ok:
  assumes "generator_ok N g"
    and "\<forall>w. gen_kind g = PagingKind w \<longrightarrow> unat (batch_size w) + unat n \<le> 2 ^ 32"
    and "generator_handle_response name n g = (r, g')"
  shows "case r of Inl e \<Rightarrow> g' = g | Inr st \<Rightarrow> generator_ok (Some n) g'"
proof (cases "gen_kind g")
  case (PagingKind w)
  show ?thesis
  proof (cases "window_handle_response name n w")
    case (Inr x)
    obtain st rs w' where x: "x = (st, rs, w')" by (cases x)
    from window_handle_response_ok [OF Inr [unfolded x]] assms PagingKind Inr x show ?thesis
      by (auto simp: generator_handle_response_def generator_ok_def)
  qed (use assms PagingKind in \<open>auto simp: generator_handle_response_def\<close>)
next
  case (GrowingKind w)
  show ?thesis
  proof (cases "window_handle_response name n w")
    case (Inr x)
    obtain st rs w' where x: "x = (st, rs, w')" by (cases x)
    from window_handle_response_ok [OF Inr [unfolded x]] assms GrowingKind Inr x show ?thesis
      by (auto simp: generator_handle_response_def generator_ok_def)
  qed (use assms GrowingKind in \<open>auto simp: generator_handle_response_def\<close>)
next
  case SelectiveKind
  with assms show ?thesis by (auto simp: generator_handle_response_def generator_ok_def)
qed

lemma update_list_ok:
  assumes "list_ok l" and "op_fits (Update n) l"
  shows "list_ok (snd (update_list n l))"
proof (cases n)
  case None
  with assms(1) show ?thesis by (simp add: update_list_def update_room_list_def list_ok_def)
next
  case (Some k)
  obtain r g' where r: "generator_handle_response (list_name l) k (list_generator l) = (r, g')"
    by fastforce
  have "\<forall>w. gen_kind (list_generator l) = PagingKind w \<longrightarrow> unat (batch_size w) + unat k \<le> 2 ^ 32"
    using assms(2) Some by auto
  from generator_handle_response_ok [OF _ this r] assms(1) Some r show ?thesis
    by (cases r) (auto simp: update_list_def update_request_generator_state_def update_room_list_def
        list_ok_def)
qed

lemma build_list_request_ranges:
  obtains req txn' m where "build_list_request fresh rs txn l = (req, txn', l\<lparr>list_sticky := m\<rparr>)"
    and "req_ranges req = map (\<lambda>(s, e). (unat s, unat e)) rs"
    and "req_timeline_limit req = unat (list_timeline_limit l)"
proof (cases "invalidated (list_sticky l)")
  case True
  show ?thesis
    by (cases "get_or_create fresh txn", rule that)
      (simp add: build_list_request_def maybe_apply_def list_sticky_apply_def True Let_def, simp_all)
next
  case False
  show ?thesis
    by (rule that [of _ _ "list_sticky l"]) (simp add: build_list_request_def maybe_apply_def False Let_def, simp_all)
qed

lemma next_request_Inr:
  assumes "generate_next_ranges (list_maximum_number_of_rooms l) (list_generator l) = Done (Inr rs, g)"
  obtains req txn' m where "next_request fresh txn l = Done (Inr req, txn', l\<lparr>list_generator := g, list_sticky := m\<rparr>)"
    and "req_ranges req = map (\<lambda>(s, e). (unat s, unat e)) rs"
    and "req_timeline_limit req = unat (list_timeline_limit l)"
proof -
  let ?l = "l\<lparr>list_generator := g\<rparr>"
  obtain req txn' m where b: "build_list_request fresh rs txn ?l = (req, txn', ?l\<lparr>list_sticky := m\<rparr>)"
    "req_ranges req = map (\<lambda>(s, e). (unat s, unat e)) rs"
    "req_timeline_limit req = unat (list_timeline_limit l)"
    by (rule build_list_request_ranges [of fresh rs txn ?l]) simp
  show ?thesis by (rule that [OF _ b(2,3)]) (simp add: next_request_def assms b(1))
qed

lemma list_ok_next_request:
  assumes "list_ok l"
  obtains req txn' l' rs where "next_request fresh txn l = Done (Inr req, txn', l')" and "list_ok l'"
    and "req_ranges req = map (\<lambda>(s, e). (unat s, unat e)) rs"
    and "\<forall>r \<in> set rs. range_in_bounds (list_maximum_number_of_rooms l) (list_generator l) r"
proof -
  obtain rs g where rs: "generate_next_ranges (list_maximum_number_of_rooms l) (list_generator l) = Done (Inr rs, g)"
    "generator_ok (list_maximum_number_of_rooms l) g"
    "\<forall>r \<in> set rs. range_in_bounds (list_maximum_number_of_rooms l) (list_generator l) r"
    using assms unfolding list_ok_def by (rule generate_next_ranges_ok)
  obtain req txn' m where req: "next_request fresh txn l = Done (Inr req, txn', l\<lparr>list_generator := g, list_sticky := m\<rparr>)"
    "req_ranges req = map (\<lambda>(s, e). (unat s, unat e)) rs"
    by (rule next_request_Inr [OF rs(1)])
  show ?thesis by (rule that [OF req(1) _ req(2) rs(3)]) (simp add: rs(2) list_ok_def)
qed

lemma list_ok_exec:
  assumes "list_ok l" and "op_fits op l" and "exec_list_op op l = Done l'"
  shows "list_ok l'"
proof (cases op)
  case (NextRequest t)
  obtain req txn' l'' where "next_request t lazy_transaction_id_new l = Done (Inr req, txn', l'')" "list_ok l''"
    by (rule list_ok_next_request [OF assms(1)])
  with assms(3) NextRequest show ?thesis by simp
next
  case (Update n)
  with update_list_ok [OF assms(1), of n] assms show ?thesis by simp
qed (use assms in \<open>auto simp: set_sync_mode_def set_timeline_limit_def maybe_commit_sticky_def
      invalidate_sticky_data_def list_ok_def generator_ok_new\<close>)

lemma reachable_list_ok: "list_reachable l \<Longrightarrow> list_ok l"
proof (induction rule: list_reachable.induct)
  case (built b)
  then show ?case by (auto simp: list_build_def list_ok_def generator_ok_new Let_def split: option.split)
next
  case (step l op l')
  then show ?case by (rule_tac list_ok_exec)
qed


definition example_list :: "sync_mode \<Rightarrow> nat sliding_sync_list" where
  "example_list mode = list_build ((list_builder_new ''rooms'')\<lparr>lb_sync_mode := mode\<rparr>)"


section \<open>Loading everything\<close>

text \<open>
  A round of the sync loop for one list: a request, and a response of a server that has \<open>n\<close> rooms
  for the list. \<open>load_rounds\<close> collects the ranges of the requests and the loading states they lead to.
\<close>

fun load_rounds :: "nat \<Rightarrow> u32 \<Rightarrow> 'f sliding_sync_list
    \<Rightarrow> ((ss_error + ((nat \<times> nat) list \<times> list_loading_state) list) \<times> 'f sliding_sync_list) run" where
  "load_rounds 0 n l = Done (Inr [], l)"
| "load_rounds (Suc k) n l =
     run_bind (next_request ''txn'' lazy_transaction_id_new l) (\<lambda>(r, _, l).
     case r of
       Inl e \<Rightarrow> Done (Inl e, l)
     | Inr req \<Rightarrow>
         (case update_list (Some n) l of
            (Inl e, l) \<Rightarrow> Done (Inl e, l)
          | (Inr _, l) \<Rightarrow>
              run_bind (load_rounds k n l) (\<lambda>(r, l').
              Done (map_sum id ((#) (req_ranges req, list_state l)) r, l'))))"

fun windowed :: "windowed_mode_kind \<Rightarrow> window \<Rightarrow> generator_kind" where
  "windowed PagingMode w = PagingKind w"
| "windowed GrowingMode w = GrowingKind w"

fun range_start :: "windowed_mode_kind \<Rightarrow> nat \<Rightarrow> nat" where
  "range_start PagingMode f = f"
| "range_start GrowingMode f = 0"

text \<open>What bounds the end of a request: the known count of the server and the user's maximum.\<close>

definition known_limit :: "u32 option \<Rightarrow> u32 option \<Rightarrow> nat \<Rightarrow> nat" where
  "known_limit m N b =
     (case N of Some n \<Rightarrow> room_limit m n
      | None \<Rightarrow> (case m of None \<Rightarrow> b | Some k \<Rightarrow> max 1 (unat k)))"

lemma unat_u32_le: "unat (n :: u32) \<le> 4294967295"
  using growing_size_fits [of n] by simp

lemma next_end:
  fixes b d f :: u32
  assumes "unat d = min (unat f + unat b) (2 ^ 32 - 1) \<or> unat d = unat f + unat b" and "b \<noteq> 0"
    and "N = None \<Longrightarrow> f = 0"
  shows "unat (min_opt (min_opt d m) N) - 1 = min (unat f + unat b) (known_limit m N (unat b)) - 1"
proof -
  have "0 < unat b" using assms(2) by (simp add: unat_gt_0)
  then show ?thesis
    using assms(1,3) unat_u32_le [of b] unat_u32_le [of "the N"] unat_u32_le [of "the m"]
    by (cases N; cases m)
      (auto simp: known_limit_def room_limit_def unat_min_opt min_def max_def split: if_splits)
qed

text \<open>One request of a window that is not fully loaded.\<close>

lemma windowed_next_ranges:
  assumes "gen_kind g = windowed k w" and "window_ok N (gen_ranges g) w" and "\<not> fully_loaded w"
    and "batch_size w \<noteq> 0"
    and "k = PagingMode \<Longrightarrow> unat (number_of_fetched_rooms w) + unat (batch_size w) < 2 ^ 32"
  obtains s e where "generate_next_ranges N g = Done (Inr [(s, e)], g\<lparr>gen_kind := windowed k (w\<lparr>requested_end := Some e\<rparr>)\<rparr>)"
    and "unat s = range_start k (unat (number_of_fetched_rooms w))"
    and "unat e = min (unat (number_of_fetched_rooms w) + unat (batch_size w))
           (known_limit (maximum_number_of_rooms_to_fetch w) N (unat (batch_size w))) - 1"
proof -
  let ?f = "number_of_fetched_rooms w" and ?b = "batch_size w" and ?m = "maximum_number_of_rooms_to_fetch w"
  have none: "N = None \<Longrightarrow> ?f = 0" using assms(2,3) by (auto simp: window_ok_def)
  show ?thesis
  proof (cases k)
    case PagingMode
    then have fits: "unat ?f + unat ?b < 2 ^ 32" and kind: "gen_kind g = PagingKind w" using assms by simp_all
    obtain e where e: "generate_next_ranges N g = Done (Inr [(?f, e)], g\<lparr>gen_kind := PagingKind (w\<lparr>requested_end := Some e\<rparr>)\<rparr>)"
      "unat e = unat (min_opt (min_opt (?f + ?b) ?m) N) - 1"
      by (rule generate_next_ranges_paging [OF assms(2,4) kind assms(3) fits])
    show ?thesis
      by (rule that [of ?f e])
        (use e PagingMode next_end [OF _ assms(4) none, where d = "?f + ?b" and m = ?m] unat_add_u32 [OF fits] in simp_all)
  next
    case GrowingMode
    let ?d = "saturating_add ?f ?b"
    from GrowingMode assms have kind: "gen_kind g = GrowingKind w" by simp
    obtain e where e: "generate_next_ranges N g = Done (Inr [(0, e)], g\<lparr>gen_kind := GrowingKind (w\<lparr>requested_end := Some e\<rparr>)\<rparr>)"
      "unat e = unat (min_opt (min_opt ?d ?m) N) - 1"
      by (rule generate_next_ranges_growing [OF kind assms(3)])
    show ?thesis
      by (rule that [of 0 e])
        (use e GrowingMode next_end [OF _ assms(4) none, where d = ?d and m = ?m] unat_saturating_add [of ?f ?b] in simp_all)
  qed
qed

lemma update_list_windowed:
  assumes "gen_kind (list_generator l) = windowed k w" and "requested_end w = Some e"
    and "maximum_number_of_rooms_to_fetch w = m" and "l' = snd (update_list (Some n) l)"
  shows "(\<exists>c. update_list (Some n) l = (Inr c, l')) \<and> list_maximum_number_of_rooms l' = Some n \<and>
    (if e < saturating_sub (min_opt n m) 1
     then list_state l' = PartiallyLoaded \<and>
          gen_kind (list_generator l') =
            windowed k (w\<lparr>number_of_fetched_rooms := saturating_add e 1, fully_loaded := False\<rparr>)
     else list_state l' = FullyLoaded \<and>
          gen_ranges (list_generator l') = [(0, saturating_sub (min_opt n m) 1)])"
  using assms
  by (cases k) (simp_all add: update_list_def update_request_generator_state_def
      generator_handle_response_def window_handle_response_def update_room_list_def Let_def, blast+)

text \<open>One round: the list grows by a batch, or is fully loaded.\<close>

lemma load_round:
  assumes "gen_kind (list_generator l) = windowed k w" and "list_ok l" and "\<not> fully_loaded w" and "batch_size w \<noteq> 0"
    and "maximum_number_of_rooms_to_fetch w = m"
    and "e' = min (unat (number_of_fetched_rooms w) + unat (batch_size w))
           (known_limit m (list_maximum_number_of_rooms l) (unat (batch_size w)))"
    and "0 < e'"
  obtains l' req txn' l1 where "next_request ''txn'' lazy_transaction_id_new l = Done (Inr req, txn', l1)"
    and "req_ranges req = [(range_start k (unat (number_of_fetched_rooms w)), e' - 1)]"
    and "\<exists>w1. gen_kind (list_generator l1) = windowed k w1 \<and> batch_size w1 = batch_size w"
    and "\<exists>c. update_list (Some n) l1 = (Inr c, l')" and "list_maximum_number_of_rooms l' = Some n"
    and "if e' < room_limit m n
         then list_state l' = PartiallyLoaded \<and>
              (\<exists>w'. gen_kind (list_generator l') = windowed k w' \<and> \<not> fully_loaded w' \<and>
                 batch_size w' = batch_size w \<and> maximum_number_of_rooms_to_fetch w' = m \<and>
                 unat (number_of_fetched_rooms w') = e')
         else list_state l' = FullyLoaded \<and>
              gen_ranges (list_generator l') = [(0, saturating_sub (min_opt n m) 1)]"
proof -
  let ?N = "list_maximum_number_of_rooms l" and ?g = "list_generator l"
  have ok: "window_ok ?N (gen_ranges ?g) w"
    "k = PagingMode \<Longrightarrow> unat (number_of_fetched_rooms w) + unat (batch_size w) < 2 ^ 32"
    using assms(1-3) by (cases k; auto simp: list_ok_def generator_ok_def)+
  obtain s e where e: "generate_next_ranges ?N ?g
        = Done (Inr [(s, e)], ?g\<lparr>gen_kind := windowed k (w\<lparr>requested_end := Some e\<rparr>)\<rparr>)"
    "unat s = range_start k (unat (number_of_fetched_rooms w))" "unat e = e' - 1"
    using windowed_next_ranges [OF assms(1) ok(1) assms(3,4) ok(2)] assms(5,6) by metis
  obtain req txn' sm where req: "next_request ''txn'' lazy_transaction_id_new l = Done (Inr req, txn',
      l\<lparr>list_generator := ?g\<lparr>gen_kind := windowed k (w\<lparr>requested_end := Some e\<rparr>)\<rparr>, list_sticky := sm\<rparr>)"
    "req_ranges req = [(unat s, unat e)]"
    by (rule next_request_Inr [OF e(1)]) simp
  let ?l1 = "l\<lparr>list_generator := ?g\<lparr>gen_kind := windowed k (w\<lparr>requested_end := Some e\<rparr>)\<rparr>, list_sticky := sm\<rparr>"
  have small: "e < saturating_sub (min_opt n m) 1 \<longleftrightarrow> e' < room_limit m n"
    using e(3) assms(7) by (auto simp: word_less_nat_alt room_limit_def)
  have grown: "unat (saturating_add e 1) = e'" if "e' < room_limit m n"
  proof -
    have "unat e + 1 < 2 ^ 32" using small that unat_u32_le [of "saturating_sub (min_opt n m) 1"]
      by (simp add: word_less_nat_alt)
    with e(3) assms(7) show ?thesis by (simp add: unat_saturating_add)
  qed
  have up: "(\<exists>c. update_list (Some n) ?l1 = (Inr c, snd (update_list (Some n) ?l1))) \<and>
    list_maximum_number_of_rooms (snd (update_list (Some n) ?l1)) = Some n \<and>
    (if e < saturating_sub (min_opt n m) 1
     then list_state (snd (update_list (Some n) ?l1)) = PartiallyLoaded \<and>
          gen_kind (list_generator (snd (update_list (Some n) ?l1))) =
            windowed k (w\<lparr>requested_end := Some e, number_of_fetched_rooms := saturating_add e 1, fully_loaded := False\<rparr>)
     else list_state (snd (update_list (Some n) ?l1)) = FullyLoaded \<and>
          gen_ranges (list_generator (snd (update_list (Some n) ?l1))) = [(0, saturating_sub (min_opt n m) 1)])"
    by (rule update_list_windowed [OF _ _ _ refl]) (simp_all add: assms(5))
  have ranges: "req_ranges req = [(range_start k (unat (number_of_fetched_rooms w)), e' - 1)]"
    using req(2) e(2,3) by simp
  have kind1: "\<exists>w1. gen_kind (list_generator ?l1) = windowed k w1 \<and> batch_size w1 = batch_size w"
    by (rule exI [of _ "w\<lparr>requested_end := Some e\<rparr>"]) simp
  show ?thesis
    by (rule that [OF req(1) ranges kind1 conjunct1 [OF up] conjunct1 [OF conjunct2 [OF up]]])
      (use conjunct2 [OF conjunct2 [OF up]] small grown assms(5) in
        \<open>auto split: if_splits\<close>)
qed

lemma load_round_ok:
  assumes "list_ok l" and "next_request ''txn'' lazy_transaction_id_new l = Done (Inr req, txn', l1)"
    and "\<exists>w1. gen_kind (list_generator l1) = windowed k w1 \<and> batch_size w1 = b"
    and "update_list (Some n) l1 = (Inr c, l')" and "k = PagingMode \<Longrightarrow> unat b + unat n \<le> 2 ^ 32"
  shows "list_ok l'"
proof -
  have "list_ok l1" by (rule list_ok_exec [OF assms(1), of "NextRequest ''txn''"]) (simp_all add: assms(2))
  moreover have "op_fits (Update (Some n)) l1" using assms(3,5) by (cases k) auto
  ultimately show ?thesis using update_list_ok [of l1 "Some n"] assms(4) by simp
qed

lemma load_rounds_from:
  assumes "gen_kind (list_generator l) = windowed k w" and "list_ok l" and "\<not> fully_loaded w"
    and "batch_size w = b" and "maximum_number_of_rooms_to_fetch w = m"
    and "unat (number_of_fetched_rooms w) = j * unat b"
    and "known_limit m (list_maximum_number_of_rooms l) (unat b) = lim j"
    and "0 < K" and "(j + K - 1) * unat b < room_limit m n" and "room_limit m n \<le> (j + K) * unat b"
    and b: "b \<noteq> 0" and fits: "k = PagingMode \<Longrightarrow> unat b + unat n \<le> 2 ^ 32"
    and lim: "\<forall>i. 0 < i \<longrightarrow> lim i = room_limit m n" "\<forall>i. room_limit m n \<le> lim i \<or> lim i = Suc i * unat b"
  shows "\<exists>l'. load_rounds K n l =
      Done (Inr (map (\<lambda>i. ([(range_start k (i * unat b), min (Suc i * unat b) (lim i) - 1)],
                           if Suc i = j + K then FullyLoaded else PartiallyLoaded)) [j..<j + K]), l') \<and>
      list_state l' = FullyLoaded \<and> gen_ranges (list_generator l') = [(0, saturating_sub (min_opt n m) 1)]"
  using assms(1-10)
proof (induction K arbitrary: j l w)
  case (Suc K)
  let ?L = "room_limit m n" and ?e = "min (Suc j * unat b) (lim j)"
  have pos: "0 < unat b" "0 < ?L" using b by (simp_all add: unat_gt_0 room_limit_def)
  have e: "?e = min (unat (number_of_fetched_rooms w) + unat (batch_size w))
      (known_limit m (list_maximum_number_of_rooms l) (unat (batch_size w)))"
    using Suc.prems(4,6,7) by simp
  have epos: "0 < ?e" using lim(2) [rule_format, of j] pos by auto
  have wb: "batch_size w \<noteq> 0" using Suc.prems(4) b by simp
  obtain l' req txn' l1 where r: "next_request ''txn'' lazy_transaction_id_new l = Done (Inr req, txn', l1)"
    "req_ranges req = [(range_start k (unat (number_of_fetched_rooms w)), ?e - 1)]"
    "\<exists>w1. gen_kind (list_generator l1) = windowed k w1 \<and> batch_size w1 = batch_size w"
    "\<exists>c. update_list (Some n) l1 = (Inr c, l')" "list_maximum_number_of_rooms l' = Some n"
    "if ?e < ?L then list_state l' = PartiallyLoaded \<and>
              (\<exists>w'. gen_kind (list_generator l') = windowed k w' \<and> \<not> fully_loaded w' \<and>
                 batch_size w' = batch_size w \<and> maximum_number_of_rooms_to_fetch w' = m \<and>
                 unat (number_of_fetched_rooms w') = ?e)
         else list_state l' = FullyLoaded \<and>
              gen_ranges (list_generator l') = [(0, saturating_sub (min_opt n m) 1)]"
    using load_round [OF Suc.prems(1-3) wb Suc.prems(5) e epos, of n] by metis
  obtain c where c: "update_list (Some n) l1 = (Inr c, l')" using r(4) by blast
  have round: "load_rounds (Suc K) n l = run_bind (load_rounds K n l') (\<lambda>(r, l''). Done (map_sum id
      ((#) ([(range_start k (j * unat b), ?e - 1)], list_state l')) r, l''))"
    using r(1,2) c Suc.prems(6) by simp
  show ?case
  proof (cases K)
    case 0
    then have "\<not> ?e < ?L" using Suc.prems(10) lim(2) [rule_format, of j] by auto
    with r(6) 0 show ?thesis unfolding round by simp
  next
    case (Suc K')
    then have "Suc j * unat b \<le> (j + K) * unat b" by simp
    also have "\<dots> < ?L" using Suc.prems(9) by simp
    finally have small: "Suc j * unat b < ?L" .
    then have ej: "?e = Suc j * unat b" using lim(2) [rule_format, of j] by auto
    from r(6) small ej obtain w' where w': "gen_kind (list_generator l') = windowed k w'" "\<not> fully_loaded w'"
      "batch_size w' = b" "maximum_number_of_rooms_to_fetch w' = m"
      "unat (number_of_fetched_rooms w') = Suc j * unat b" and st: "list_state l' = PartiallyLoaded"
      using Suc.prems(4) by (auto simp: min_def split: if_splits)
    have ok: "list_ok l'"
      by (rule load_round_ok [OF Suc.prems(2) r(1) r(3) c]) (use Suc.prems(4) fits in simp)
    have "known_limit m (list_maximum_number_of_rooms l') (unat b) = lim (Suc j)"
      using r(5) lim(1) by (simp add: known_limit_def)
    from Suc.IH [OF w'(1) ok w'(2-5) this] Suc Suc.prems(9,10) obtain l'' where
      ih: "load_rounds K n l' = Done (Inr (map (\<lambda>i. ([(range_start k (i * unat b),
             min (Suc i * unat b) (lim i) - 1)], if Suc i = j + Suc K then FullyLoaded else PartiallyLoaded))
             [Suc j..<j + Suc K]), l'')" and
      full: "list_state l'' = FullyLoaded" "gen_ranges (list_generator l'') = [(0, saturating_sub (min_opt n m) 1)]"
      by (auto simp del: load_rounds.simps upt_Suc)
    have "[j..<j + Suc K] = j # [Suc j..<j + Suc K]" by (rule upt_conv_Cons) simp
    then show ?thesis unfolding round ih using full st Suc by (simp del: upt_Suc)
  qed
qed simp

definition windowed_mode :: "windowed_mode_kind \<Rightarrow> u32 \<Rightarrow> u32 option \<Rightarrow> sync_mode" where
  "windowed_mode k b m = mode_of_windowed \<lparr>builder_mode = k, builder_batch_size = b, builder_maximum = m\<rparr>"

lemma gen_kind_windowed_mode [simp]:
  "gen_kind (request_generator_new (windowed_mode k b m)) = windowed k (new_window b m)"
  by (cases k) (simp_all add: windowed_mode_def mode_of_windowed_def)

definition number_of_batches :: "nat \<Rightarrow> nat \<Rightarrow> nat" where
  "number_of_batches rooms b = (rooms + b - 1) div b"

lemma number_of_batches_bounds:
  assumes "0 < b" and "0 < rooms"
  shows "0 < number_of_batches rooms b" and "(number_of_batches rooms b - 1) * b < rooms"
    and "rooms \<le> number_of_batches rooms b * b"
proof -
  let ?q = "(rooms + b - 1) div b"
  have "(rooms + b - 1) mod b < b" using assms(1) by simp
  with div_mult_mod_eq [of "rooms + b - 1" b] have upper: "rooms \<le> ?q * b" by linarith
  from assms(2) upper have q: "0 < ?q" by (cases ?q) auto
  have "?q * b \<le> rooms + b - 1" by (rule div_times_less_eq_dividend)
  with assms have "?q * b - b < rooms" by linarith
  then have "(?q - 1) * b < rooms" by (simp add: diff_mult_distrib)
  with upper q show "0 < number_of_batches rooms b" "(number_of_batches rooms b - 1) * b < rooms"
    "rooms \<le> number_of_batches rooms b * b" by (simp_all add: number_of_batches_def)
qed

text \<open>C31. Take a list whose mode was just set to paging or growing, with a
  batch size other than zero, and a server that has a constant number of rooms for it. After as many
  rounds as the rooms (bounded by the user's maximum) have batches, and not before, the list is
  fully loaded; the paging requests are consecutive pages without overlap or hole, the growing ones
  start at zero and end at the multiples of the batch size, and from then on the list asks for all
  its rooms and requires long-polling.\<close>

theorem windowed_mode_loads_everything:
  assumes "list_generator l = request_generator_new (windowed_mode k b m)" and "b \<noteq> 0"
    and "list_maximum_number_of_rooms l = None \<or> list_maximum_number_of_rooms l = Some n"
    and "k = PagingMode \<Longrightarrow> unat b + unat n \<le> 2 ^ 32"
    and "K = number_of_batches (room_limit m n) (unat b)"
    and "lim = (\<lambda>i. if i = 0 then known_limit m (list_maximum_number_of_rooms l) (unat b) else room_limit m n)"
  shows "\<exists>l'. load_rounds K n l =
      Done (Inr (map (\<lambda>i. ([(range_start k (i * unat b), min (Suc i * unat b) (lim i) - 1)],
                           if Suc i = K then FullyLoaded else PartiallyLoaded)) [0..<K]), l') \<and>
      gen_ranges (list_generator l') = [(0, saturating_sub (min_opt n m) 1)] \<and> requires_timeout l'"
proof -
  have b: "0 < unat b" using assms(2) by (simp add: unat_gt_0)
  have L: "0 < room_limit m n" by (simp add: room_limit_def)
  note K = number_of_batches_bounds [OF b L, folded assms(5)]
  have "mode_ok (windowed_mode k b m)"
    using assms(2) by (cases k) (simp_all add: windowed_mode_def mode_of_windowed_def)
  then have ok: "list_ok l" using assms(1) by (simp add: list_ok_def generator_ok_new)
  have lim: "\<forall>i. 0 < i \<longrightarrow> lim i = room_limit m n"
    "\<forall>i. room_limit m n \<le> lim i \<or> lim i = Suc i * unat b"
    using assms(3,6)
    by (auto simp: known_limit_def room_limit_def unat_min_opt split: option.splits)
  have "\<exists>l'. load_rounds K n l =
      Done (Inr (map (\<lambda>i. ([(range_start k (i * unat b), min (Suc i * unat b) (lim i) - 1)],
                           if Suc i = 0 + K then FullyLoaded else PartiallyLoaded)) [0..<0 + K]), l') \<and>
      list_state l' = FullyLoaded \<and> gen_ranges (list_generator l') = [(0, saturating_sub (min_opt n m) 1)]"
    by (rule load_rounds_from [where w = "new_window b m", OF _ ok _ _ _ _ _ K(1) _ _ assms(2,4) lim])
      (use assms(1,6) K(2,3) in \<open>simp_all add: new_window_def\<close>)
  then show ?thesis by (auto simp: requires_timeout_def is_fully_loaded_def)
qed

theorem windowed_mode_loads_everything_witness:
  "\<exists>l'. load_rounds 3 45 (example_list (Paging 20 None)) =
      Done (Inr [([(0, 19)], PartiallyLoaded), ([(20, 39)], PartiallyLoaded), ([(40, 44)], FullyLoaded)], l') \<and>
      gen_ranges (list_generator l') = [(0, 44)] \<and> requires_timeout l'"
proof -
  let ?l = "example_list (Paging 20 None)"
  have l: "list_generator ?l = request_generator_new (windowed_mode PagingMode 20 None)"
    "list_maximum_number_of_rooms ?l = None"
    by (simp_all add: example_list_def list_build_def list_builder_new_def windowed_mode_def mode_of_windowed_def)
  have K: "3 = number_of_batches (room_limit None 45) (unat (20 :: u32))" by code_simp
  have "map (\<lambda>i. ([(range_start PagingMode (i * unat (20 :: u32)), min (Suc i * unat (20 :: u32))
              (if i = 0 then known_limit None None (unat (20 :: u32)) else room_limit None 45) - 1)],
              if Suc i = 3 then FullyLoaded else PartiallyLoaded)) [0..<3]
      = [([(0, 19)], PartiallyLoaded), ([(20, 39)], PartiallyLoaded), ([(40, 44)], FullyLoaded)]" by code_simp
  moreover have "saturating_sub (min_opt 45 None) 1 = 44" by code_simp
  ultimately show ?thesis
    using windowed_mode_loads_everything [OF l(1) _ _ _ K refl] unfolding l(2)
    by (simp del: load_rounds.simps)
qed

section \<open>Batches of size zero, and responses after a change of mode\<close>

lemma growing_zero_round:
  assumes "gen_kind (list_generator l) = GrowingKind w" and "\<not> fully_loaded w" and "batch_size w = 0"
    and "maximum_number_of_rooms_to_fetch w = m" and "number_of_fetched_rooms w = 0 \<or> number_of_fetched_rooms w = 1"
    and "1 < room_limit m n"
  obtains l' where "load_rounds (Suc K) n l = run_bind (load_rounds K n l') (\<lambda>(r, l'').
      Done (map_sum id ((#) ([(0, 0)], PartiallyLoaded)) r, l''))"
    and "\<exists>w'. gen_kind (list_generator l') = GrowingKind w' \<and> \<not> fully_loaded w' \<and> batch_size w' = 0 \<and>
           maximum_number_of_rooms_to_fetch w' = m \<and> number_of_fetched_rooms w' = 1"
proof -
  let ?N = "list_maximum_number_of_rooms l" and ?g = "list_generator l"
  let ?d = "saturating_add (number_of_fetched_rooms w) (batch_size w)"
  have "unat ?d \<le> 1" using assms(3,5) by (auto simp: unat_saturating_add)
  then have zero: "unat (min_opt (min_opt ?d m) ?N) - 1 = 0"
    by (auto simp: unat_min_opt split: option.splits)
  obtain e where e: "generate_next_ranges ?N ?g
      = Done (Inr [(0, e)], ?g\<lparr>gen_kind := GrowingKind (w\<lparr>requested_end := Some e\<rparr>)\<rparr>)"
    "unat e = unat (min_opt (min_opt ?d (maximum_number_of_rooms_to_fetch w)) ?N) - 1"
    by (rule generate_next_ranges_growing [OF assms(1,2)])
  have e0: "e = 0" using e(2) zero assms(4) by (simp add: unat_eq_zero)
  let ?w = "w\<lparr>requested_end := Some 0\<rparr>"
  obtain req txn' sm where req: "next_request ''txn'' lazy_transaction_id_new l = Done (Inr req, txn',
      l\<lparr>list_generator := ?g\<lparr>gen_kind := GrowingKind ?w\<rparr>, list_sticky := sm\<rparr>)"
    "req_ranges req = [(0, 0)]"
    by (rule next_request_Inr [OF e(1) [unfolded e0]]) simp
  let ?l1 = "l\<lparr>list_generator := ?g\<lparr>gen_kind := GrowingKind ?w\<rparr>, list_sticky := sm\<rparr>"
  define l2 where "l2 = snd (update_list (Some n) ?l1)"
  have small: "0 < saturating_sub (min_opt n m) 1"
    using assms(6) by (simp add: word_less_nat_alt room_limit_def)
  have up: "(\<exists>c. update_list (Some n) ?l1 = (Inr c, l2)) \<and> list_state l2 = PartiallyLoaded \<and>
      gen_kind (list_generator l2) = GrowingKind (?w\<lparr>number_of_fetched_rooms := saturating_add 0 1, fully_loaded := False\<rparr>)"
    using update_list_windowed [of ?l1 GrowingMode ?w 0 m, OF _ _ _ l2_def] small assms(4) by simp
  then obtain c where c: "update_list (Some n) ?l1 = (Inr c, l2)" by blast
  have one: "saturating_add 0 1 = (1 :: u32)" by code_simp
  show ?thesis
  proof (rule that)
    show "load_rounds (Suc K) n l = run_bind (load_rounds K n l2) (\<lambda>(r, l'').
      Done (map_sum id ((#) ([(0, 0)], PartiallyLoaded)) r, l''))"
      using req c up by simp
  qed (use up one assms(3,4) in simp)
qed

lemma growing_zero_rounds:
  assumes "gen_kind (list_generator l) = GrowingKind w" and "\<not> fully_loaded w" and "batch_size w = 0"
    and "maximum_number_of_rooms_to_fetch w = m" and "number_of_fetched_rooms w = 0 \<or> number_of_fetched_rooms w = 1"
    and "1 < room_limit m n"
  shows "\<exists>l'. load_rounds K n l = Done (Inr (replicate K ([(0, 0)], PartiallyLoaded)), l')"
  using assms(1-5)
proof (induction K arbitrary: l w)
  case (Suc K)
  obtain l' where l': "load_rounds (Suc K) n l = run_bind (load_rounds K n l') (\<lambda>(r, l'').
      Done (map_sum id ((#) ([(0, 0)], PartiallyLoaded)) r, l''))"
    "\<exists>w'. gen_kind (list_generator l') = GrowingKind w' \<and> \<not> fully_loaded w' \<and> batch_size w' = 0 \<and>
       maximum_number_of_rooms_to_fetch w' = m \<and> number_of_fetched_rooms w' = 1"
    by (rule growing_zero_round [OF Suc.prems assms(6)])
  from l'(2) obtain l'' where "load_rounds K n l' = Done (Inr (replicate K ([(0, 0)], PartiallyLoaded)), l'')"
    using Suc.IH by blast
  then show ?case unfolding l'(1) by simp
qed simp



text \<open>A response that arrives after the mode of a list was changed to paging or
  growing, and before the next request, is refused with
  \<open>RequestGeneratorHasNotBeenInitialized\<close>; neither the loading state nor the room count nor the
  generator is touched, and the change of mode has told the sync loop to skip the iteration.\<close>

theorem response_after_mode_change:
  "let (l', msgs) = set_sync_mode (windowed_mode k b m) l in
   msgs = [SyncLoopSkipOverCurrentIteration] \<and>
   update_list (Some n) l' = (Inl (RequestGeneratorHasNotBeenInitialized (list_name l)), l') \<and>
   list_maximum_number_of_rooms l' = list_maximum_number_of_rooms l \<and> \<not> requires_timeout l'"
  by (cases k; cases "list_state l")
    (simp_all add: set_sync_mode_def windowed_mode_def mode_of_windowed_def update_list_def
      update_request_generator_state_def generator_handle_response_def window_handle_response_def
      new_window_def requires_timeout_def is_selective_def is_fully_loaded_def)

end
