(* ===== verification/Sliding_Sync_Room.thy ===== *)
theory Sliding_Sync_Room
  imports Ordered_Map
begin

text \<open>
  The rooms of sliding sync: the queue of timeline events a room keeps
  (\<open>sliding_sync/room.rs\<close>), its frozen form for the cache, and the correction of the \<open>limited\<close>
  flag that the sliding sync proxy does not provide (\<open>compute_limited\<close> in
  \<open>sliding_sync/mod.rs\<close>). An event is a value of \<open>'e\<close>; its identifier, a field of the raw JSON that
  may be missing, is read by the argument \<open>eid\<close>.
\<close>

section \<open>SlidingSyncRoom\<close>

type_synonym room_id = string

datatype room_state = RoomNotLoaded | RoomPreloaded | RoomLoaded

record 'e sliding_sync_room =
  room_id :: room_id
  room_state :: room_state
  room_prev_batch :: "string option"
  timeline_queue :: "'e list"

text \<open>The fields of \<open>http::response::Room\<close> that the room reads.\<close>

record 'e room_response =
  resp_prev_batch :: "string option"
  resp_limited :: bool
  resp_initial :: "bool option"
  resp_timeline :: "'e list"

definition sliding_sync_room_new :: "room_id \<Rightarrow> string option \<Rightarrow> 'e list \<Rightarrow> 'e sliding_sync_room" where
  "sliding_sync_room_new r prev timeline =
     \<lparr>room_id = r, room_state = RoomNotLoaded, room_prev_batch = prev, timeline_queue = timeline\<rparr>"

definition update_room :: "'e room_response \<Rightarrow> 'e list \<Rightarrow> 'e sliding_sync_room \<Rightarrow> 'e sliding_sync_room" where
  "update_room data updates room =
     (let room = (case resp_prev_batch data of
                    Some p \<Rightarrow> room\<lparr>room_prev_batch := Some p\<rparr> | None \<Rightarrow> room);
          queue = timeline_queue room;
          queue = (if updates \<noteq> [] then
                     (case room_state room of
                        RoomPreloaded \<Rightarrow> updates
                      | _ \<Rightarrow> if resp_limited data then updates else queue @ updates)
                   else if resp_limited data then [] else queue)
      in room\<lparr>timeline_queue := queue, room_state := RoomLoaded\<rparr>)"

section \<open>Frozen rooms\<close>

record 'e frozen_room =
  frozen_room_id :: room_id
  frozen_prev_batch :: "string option"
  frozen_timeline_queue :: "'e list"

definition NUMBER_OF_TIMELINE_EVENTS_TO_KEEP_FOR_THE_CACHE :: nat where
  "NUMBER_OF_TIMELINE_EVENTS_TO_KEEP_FOR_THE_CACHE = 10"

definition freeze_room :: "'e sliding_sync_room \<Rightarrow> 'e frozen_room" where
  "freeze_room room =
     (let n = length (timeline_queue room);
          (queue, prev) =
            (if NUMBER_OF_TIMELINE_EVENTS_TO_KEEP_FOR_THE_CACHE < n
             then (drop (n - NUMBER_OF_TIMELINE_EVENTS_TO_KEEP_FOR_THE_CACHE) (timeline_queue room), None)
             else (timeline_queue room, room_prev_batch room))
      in \<lparr>frozen_room_id = room_id room, frozen_prev_batch = prev, frozen_timeline_queue = queue\<rparr>)"

definition from_frozen :: "'e frozen_room \<Rightarrow> 'e sliding_sync_room" where
  "from_frozen f =
     \<lparr>room_id = frozen_room_id f, room_state = RoomPreloaded, room_prev_batch = frozen_prev_batch f,
      timeline_queue = frozen_timeline_queue f\<rparr>"

section \<open>The limited flag\<close>

definition compute_limited_room ::
  "('e \<Rightarrow> string option) \<Rightarrow> (room_id, 'e sliding_sync_room) btree \<Rightarrow> room_id \<Rightarrow> 'e room_response \<Rightarrow> 'e room_response" where
  "compute_limited_room eid local_rooms r remote =
     (if \<not> (case resp_initial remote of None \<Rightarrow> False | Some b \<Rightarrow> b) then remote
      else if resp_limited remote then remote
      else if resp_timeline remote = [] then remote
      else case map_of local_rooms r of
             None \<Rightarrow> remote
           | Some room \<Rightarrow>
               if timeline_queue room = [] then remote
               else
                 let known = List.map_filter eid (timeline_queue room);
                     overlap = list_ex (\<lambda>e. case eid e of
                                              Some i \<Rightarrow> i \<in> set known | None \<Rightarrow> False)
                                 (resp_timeline remote)
                 in remote\<lparr>resp_limited := \<not> overlap\<rparr>)"

definition compute_limited ::
  "('e \<Rightarrow> string option) \<Rightarrow> (room_id, 'e sliding_sync_room) btree \<Rightarrow> (room_id, 'e room_response) btree
    \<Rightarrow> (room_id, 'e room_response) btree" where
  "compute_limited eid local_rooms remote_rooms =
     map (\<lambda>(r, remote). (r, compute_limited_room eid local_rooms r remote)) remote_rooms"

section \<open>Properties\<close>

text \<open>
  What the queue of a room holds after a sequence of updates: everything received since the last
  update that was limited, where the first update of a room restored from the cache counts as
  limited when it brings events.
\<close>

fun received :: "bool \<Rightarrow> 'e list \<Rightarrow> ('e room_response \<times> 'e list) list \<Rightarrow> 'e list" where
  "received stale queue [] = queue"
| "received stale queue ((data, updates) # us) =
     received False (if resp_limited data \<or> stale \<and> updates \<noteq> [] then updates else queue @ updates) us"

lemma update_room_queue:
  "timeline_queue (update_room data updates room) =
     (if resp_limited data \<or> room_state room = RoomPreloaded \<and> updates \<noteq> []
      then updates else timeline_queue room @ updates)"
  by (auto simp: update_room_def Let_def split: option.splits room_state.splits)

lemma update_room_state [simp]: "room_state (update_room data updates room) = RoomLoaded"
  by (simp add: update_room_def Let_def)

definition latest_prev_batch :: "string option \<Rightarrow> ('e room_response \<times> 'e list) list \<Rightarrow> string option" where
  "latest_prev_batch p us = fold (\<lambda>u q. case resp_prev_batch (fst u) of None \<Rightarrow> q | Some t \<Rightarrow> Some t) us p"

lemma update_room_prev_batch:
  "room_prev_batch (update_room data updates room) =
     (case resp_prev_batch data of None \<Rightarrow> room_prev_batch room | Some t \<Rightarrow> Some t)"
  by (auto simp: update_room_def Let_def split: option.splits)

text \<open>After any sequence of responses the timeline queue of a room holds, in
  order, exactly the events received since the last limited response, the cached events of a
  restored room being replaced by the first events that arrive; the back-pagination token is the
  last one a response gave.\<close>

theorem room_timeline_since_limited:
  "timeline_queue (fold (\<lambda>(data, updates). update_room data updates) us room) =
     received (room_state room = RoomPreloaded) (timeline_queue room) us \<and>
   room_prev_batch (fold (\<lambda>(data, updates). update_room data updates) us room) =
     latest_prev_batch (room_prev_batch room) us"
proof (induction us arbitrary: room)
  case (Cons u us)
  obtain data updates where u: "u = (data, updates)" by (cases u)
  show ?case
    using Cons.IH [of "update_room data updates room"]
    by (simp add: u update_room_queue update_room_prev_batch latest_prev_batch_def)
qed (simp add: latest_prev_batch_def)

text \<open>Freezing a room for the cache and restoring it keeps the latest events of its
  queue, at most ten, and never leaves a hole behind a back-pagination token: the token is kept
  exactly when the whole queue is.\<close>

theorem frozen_room_keeps_latest:
  "let room' = from_frozen (freeze_room room) in
   room_id room' = room_id room \<and>
   length (timeline_queue room') = min 10 (length (timeline_queue room)) \<and>
   (\<exists>older. timeline_queue room = older @ timeline_queue room' \<and>
      room_prev_batch room' = (if older = [] then room_prev_batch room else None)) \<and>
   freeze_room room' = freeze_room room"
proof (cases "10 < length (timeline_queue room)")
  case True
  let ?k = "length (timeline_queue room) - 10"
  have "timeline_queue room = take ?k (timeline_queue room) @ drop ?k (timeline_queue room)" by simp
  moreover have "take ?k (timeline_queue room) \<noteq> []" using True by auto
  ultimately have "\<exists>older. timeline_queue room = older @ drop ?k (timeline_queue room) \<and>
      None = (if older = [] then room_prev_batch room else None)" by metis
  with True show ?thesis
    by (simp add: freeze_room_def from_frozen_def NUMBER_OF_TIMELINE_EVENTS_TO_KEEP_FOR_THE_CACHE_def)
next
  case False
  then show ?thesis
    by (simp add: freeze_room_def from_frozen_def NUMBER_OF_TIMELINE_EVENTS_TO_KEEP_FOR_THE_CACHE_def)
qed

definition ids :: "('e \<Rightarrow> string option) \<Rightarrow> 'e list \<Rightarrow> string set" where
  "ids eid es = {i. \<exists>e \<in> set es. eid e = Some i}"

lemma set_map_filter_ids: "set (List.map_filter eid es) = ids eid es"
  by (induction es) (auto simp: ids_def map_filter_simps split: option.splits)

lemma overlap_iff:
  "list_ex (\<lambda>e. case eid e of Some i \<Rightarrow> i \<in> set (List.map_filter eid ls) | None \<Rightarrow> False) rs
     \<longleftrightarrow> ids eid rs \<inter> ids eid ls \<noteq> {}"
proof -
  have "list_ex (\<lambda>e. case eid e of Some i \<Rightarrow> i \<in> S | None \<Rightarrow> False) rs \<longleftrightarrow> ids eid rs \<inter> S \<noteq> {}" for S
    by (induction rs) (auto simp: ids_def split: option.splits)
  then show ?thesis by (simp only: set_map_filter_ids)
qed

text \<open>C38. \<open>compute_limited\<close> keeps every flag the server set, and sets the flag of another
  room exactly when the room is sent as initial with events, is known locally with events, and no
  event of the response is known; nothing else of a response changes.\<close>

theorem limited_iff_no_overlap:
  "map_of (compute_limited eid local_rooms remote_rooms) r =
     map_option (\<lambda>remote. remote\<lparr>resp_limited :=
        resp_limited remote \<or>
        resp_initial remote = Some True \<and> resp_timeline remote \<noteq> [] \<and>
        (\<exists>room. map_of local_rooms r = Some room \<and> timeline_queue room \<noteq> [] \<and>
           ids eid (resp_timeline remote) \<inter> ids eid (timeline_queue room) = {})\<rparr>)
       (map_of remote_rooms r)"
proof -
  have "compute_limited_room eid local_rooms r remote = remote\<lparr>resp_limited :=
        resp_limited remote \<or>
        resp_initial remote = Some True \<and> resp_timeline remote \<noteq> [] \<and>
        (\<exists>room. map_of local_rooms r = Some room \<and> timeline_queue room \<noteq> [] \<and>
           ids eid (resp_timeline remote) \<inter> ids eid (timeline_queue room) = {})\<rparr>" for remote
    by (cases remote) (auto simp: compute_limited_room_def overlap_iff Let_def split: option.splits)
  then show ?thesis
    by (induction remote_rooms) (auto simp: compute_limited_def)
qed

end
