(* ===== verification/Sliding_Sync.thy ===== *)
theory Sliding_Sync
  imports Sliding_Sync_List Sliding_Sync_Room
begin

text \<open>
  A sliding sync instance (\<open>sliding_sync/mod.rs\<close>): its lists, rooms and sticky room subscriptions,
  the requests it builds, the handling of a response, the expiry of a session, and the cache of its
  state in the stores of the client (\<open>sliding_sync/cache.rs\<close>). The response processor of the
  client, the JSON encoding of what is stored and the network are arguments.
\<close>

section \<open>Room subscriptions and extensions\<close>

datatype subscription_state = Pending | Applied

text \<open>The parts of the extensions that the instance reads or writes.\<close>

record extensions =
  to_device_enabled :: "bool option"
  to_device_since :: "string option"
  e2ee_enabled :: "bool option"

record 's sync_sticky_parameters =
  room_subscriptions :: "(room_id, subscription_state \<times> 's) btree"
  sticky_extensions :: extensions

definition sync_sticky_parameters_new ::
  "(room_id, 's) btree \<Rightarrow> extensions \<Rightarrow> 's sync_sticky_parameters" where
  "sync_sticky_parameters_new subs ext =
     \<lparr>room_subscriptions = map_values (\<lambda>s. (Pending, s)) subs, sticky_extensions = ext\<rparr>"

record ('f, 's) sync_request =
  req_conn_id :: "string option"
  req_pos :: "string option"
  req_timeout :: "nat option"
  req_lists :: "(string, 'f list_request) btree"
  req_room_subscriptions :: "(room_id, 's) btree"
  req_extensions :: extensions
  req_txn_id :: "txn_id option"

definition no_extensions :: extensions where
  "no_extensions = \<lparr>to_device_enabled = None, to_device_since = None, e2ee_enabled = None\<rparr>"

definition sync_request_new :: "('f, 's) sync_request" where
  "sync_request_new =
     \<lparr>req_conn_id = None, req_pos = None, req_timeout = None, req_lists = [], req_room_subscriptions = [],
      req_extensions = no_extensions, req_txn_id = None\<rparr>"

definition sync_sticky_apply :: "'s sync_sticky_parameters \<Rightarrow> ('f, 's) sync_request \<Rightarrow> ('f, 's) sync_request" where
  "sync_sticky_apply d r =
     r\<lparr>req_room_subscriptions :=
         map (\<lambda>(room, _, s). (room, s)) (filter (\<lambda>(_, st, _). st = Pending) (room_subscriptions d)),
       req_extensions := sticky_extensions d\<rparr>"

definition sync_on_commit :: "'s sync_sticky_parameters \<Rightarrow> 's sync_sticky_parameters" where
  "sync_on_commit d =
     d\<lparr>room_subscriptions :=
         map_values (\<lambda>(st, s). (case st of Pending \<Rightarrow> Applied | Applied \<Rightarrow> Applied, s)) (room_subscriptions d)\<rparr>"

section \<open>The client\<close>

text \<open>
  What the instance uses of the client: its known rooms with the flag that their members are
  missing, the state store, and the Olm machine with its own store, the to-device token and the flag
  that all tracked users have to be queried again. A store that is not available answers every call
  with its error.
\<close>

record ('b, 'err) olm_machine =
  crypto_values :: "string \<rightharpoonup> 'b"
  crypto_error :: "'err option"
  next_batch_token :: "string option"
  all_users_dirty :: bool

record ('b, 'err) client =
  client_rooms :: "room_id \<rightharpoonup> bool"
  state_values :: "string \<rightharpoonup> 'b"
  state_error :: "'err option"
  olm :: "('b, 'err) olm_machine option"

datatype 'err sync_error = ListError ss_error | ClientError 'err | NoOlmMachine

record ('e, 'f, 's, 'b, 'err) sliding_sync =
  sync_id :: string
  is_native :: bool
  storage_key :: string
  share_pos :: bool
  poll_timeout :: nat
  sync_pos :: "string option"
  sync_lists :: "(string, 'f sliding_sync_list) btree"
  sync_rooms :: "(room_id, 'e sliding_sync_room) btree"
  sync_sticky :: "'s sync_sticky_parameters sticky_manager"
  sync_channel :: "internal_message list"
  sync_client :: "('b, 'err) client"

definition internal_channel_send_if_possible ::
  "internal_message \<Rightarrow> ('e, 'f, 's, 'b, 'err) sliding_sync \<Rightarrow> ('e, 'f, 's, 'b, 'err) sliding_sync" where
  "internal_channel_send_if_possible msg s = s\<lparr>sync_channel := sync_channel s @ [msg]\<rparr>"

section \<open>Subscriptions and lists\<close>

fun subscribe_loop :: "'s \<Rightarrow> room_id list \<Rightarrow> (room_id, subscription_state \<times> 's) btree \<Rightarrow> (room_id \<rightharpoonup> bool)
    \<Rightarrow> (room_id, subscription_state \<times> 's) btree \<times> (room_id \<rightharpoonup> bool) \<times> bool" where
  "subscribe_loop settings [] subs known = (subs, known, False)"
| "subscribe_loop settings (r # rs) subs known =
     (case map_of subs r of
        Some _ \<Rightarrow> subscribe_loop settings rs subs known
      | None \<Rightarrow>
          let known = (case known r of Some _ \<Rightarrow> known(r \<mapsto> True) | None \<Rightarrow> known);
              (subs, known, _) = subscribe_loop settings rs (btree_insert r (Pending, settings) subs) known
          in (subs, known, True))"

text \<open>\<open>settings\<close> is what \<open>unwrap_or_default\<close> gives for the optional settings.\<close>

definition subscribe_to_rooms :: "room_id list \<Rightarrow> 's \<Rightarrow> bool
    \<Rightarrow> ('e, 'f, 's, 'b, 'err) sliding_sync \<Rightarrow> ('e, 'f, 's, 'b, 'err) sliding_sync" where
  "subscribe_to_rooms room_ids settings cancel_in_flight_request s =
     (let (subs, known, skip) =
            subscribe_loop settings room_ids (room_subscriptions (sticky_data (sync_sticky s))) (client_rooms (sync_client s));
          s = s\<lparr>sync_sticky := data_mut (\<lambda>d. d\<lparr>room_subscriptions := subs\<rparr>) (sync_sticky s),
                sync_client := (sync_client s)\<lparr>client_rooms := known\<rparr>\<rparr>
      in if cancel_in_flight_request \<and> skip
         then internal_channel_send_if_possible SyncLoopSkipOverCurrentIteration s else s)"

definition add_list :: "'f list_builder \<Rightarrow> ('e, 'f, 's, 'b, 'err) sliding_sync
    \<Rightarrow> 'f sliding_sync_list option \<times> ('e, 'f, 's, 'b, 'err) sliding_sync" where
  "add_list b s =
     (let l = list_build b;
          old = map_of (sync_lists s) (list_name l)
      in (old, internal_channel_send_if_possible SyncLoopSkipOverCurrentIteration
                 (s\<lparr>sync_lists := btree_insert (list_name l) l (sync_lists s)\<rparr>)))"

definition get_room :: "room_id \<Rightarrow> ('e, 'f, 's, 'b, 'err) sliding_sync \<Rightarrow> 'e sliding_sync_room option" where
  "get_room r s = map_of (sync_rooms s) r"

definition is_e2ee_enabled :: "('e, 'f, 's, 'b, 'err) sliding_sync \<Rightarrow> bool" where
  "is_e2ee_enabled s = (e2ee_enabled (sticky_extensions (sticky_data (sync_sticky s))) = Some True)"

definition must_process_rooms_response :: "('e, 'f, 's, 'b, 'err) sliding_sync \<Rightarrow> bool" where
  "must_process_rooms_response s = (room_subscriptions (sticky_data (sync_sticky s)) \<noteq> [] \<or> sync_lists s \<noteq> [])"

section \<open>The cache\<close>

record 'e frozen_sliding_sync =
  frozen_to_device_since :: "string option"
  frozen_rooms :: "'e frozen_room list"

text \<open>The JSON encoding of what is stored; \<open>empty_blob\<close> is the empty value.\<close>

record ('e, 'b) codec =
  enc_sync :: "'e frozen_sliding_sync \<Rightarrow> 'b"
  dec_sync :: "'b \<Rightarrow> 'e frozen_sliding_sync option"
  enc_pos :: "string option \<Rightarrow> 'b"
  dec_pos :: "'b \<Rightarrow> string option option"
  enc_list :: "u32 option \<Rightarrow> 'b"
  dec_list :: "'b \<Rightarrow> u32 option option"
  empty_blob :: 'b

definition frozen_sliding_sync_new :: "(room_id, 'e sliding_sync_room) btree \<Rightarrow> 'e frozen_sliding_sync" where
  "frozen_sliding_sync_new rs =
     \<lparr>frozen_to_device_since = None, frozen_rooms = map (\<lambda>(_, room). freeze_room room) rs\<rparr>"

definition format_storage_key_for_sliding_sync :: "string \<Rightarrow> string" where
  "format_storage_key_for_sliding_sync key = key @ ''::instance''"

definition format_storage_key_for_sliding_sync_list :: "string \<Rightarrow> string \<Rightarrow> string" where
  "format_storage_key_for_sliding_sync_list key name = key @ ''::list::'' @ name"

definition set_state_value :: "string \<Rightarrow> 'b \<Rightarrow> ('b, 'err) client \<Rightarrow> ('err + unit) \<times> ('b, 'err) client" where
  "set_state_value k v c =
     (case state_error c of
        Some e \<Rightarrow> (Inl e, c)
      | None \<Rightarrow> (Inr (), c\<lparr>state_values := (state_values c)(k \<mapsto> v)\<rparr>))"

definition remove_state_value :: "string \<Rightarrow> ('b, 'err) client \<Rightarrow> ('b, 'err) client" where
  "remove_state_value k c =
     (case state_error c of
        Some _ \<Rightarrow> c
      | None \<Rightarrow> c\<lparr>state_values := (state_values c)(k := None)\<rparr>)"

definition set_crypto_value :: "string \<Rightarrow> 'b \<Rightarrow> ('b, 'err) client \<Rightarrow> ('err + unit) \<times> ('b, 'err) client" where
  "set_crypto_value k v c =
     (case olm c of
        None \<Rightarrow> (Inr (), c)
      | Some m \<Rightarrow>
          (case crypto_error m of
             Some e \<Rightarrow> (Inl e, c)
           | None \<Rightarrow> (Inr (), c\<lparr>olm := Some (m\<lparr>crypto_values := (crypto_values m)(k \<mapsto> v)\<rparr>)\<rparr>)))"

definition invalidate_cached_list :: "string \<Rightarrow> string \<Rightarrow> ('b, 'err) client \<Rightarrow> ('b, 'err) client" where
  "invalidate_cached_list key name = remove_state_value (format_storage_key_for_sliding_sync_list key name)"

definition clean_storage :: "('e, 'b) codec \<Rightarrow> string \<Rightarrow> string list \<Rightarrow> ('b, 'err) client \<Rightarrow> ('b, 'err) client" where
  "clean_storage cd key names c =
     (let c = fold (invalidate_cached_list key) names c;
          instance_key = format_storage_key_for_sliding_sync key;
          c = remove_state_value instance_key c
      in snd (set_crypto_value instance_key (empty_blob cd) c))"

fun store_lists :: "('e, 'b) codec \<Rightarrow> string \<Rightarrow> (string, 'f sliding_sync_list) btree \<Rightarrow> ('b, 'err) client
    \<Rightarrow> ('err + unit) \<times> ('b, 'err) client" where
  "store_lists cd key [] c = (Inr (), c)"
| "store_lists cd key ((name, l) # ls) c =
     (case list_cache_policy l of
        CacheDisabled \<Rightarrow> store_lists cd key ls c
      | CacheEnabled \<Rightarrow>
          (case set_state_value (format_storage_key_for_sliding_sync_list key name) (enc_list cd (freeze l)) c of
             (Inl e, c) \<Rightarrow> (Inl e, c)
           | (Inr _, c) \<Rightarrow> store_lists cd key ls c))"

definition store_sliding_sync_state :: "('e, 'b) codec \<Rightarrow> ('e, 'f, 's, 'b, 'err) sliding_sync
    \<Rightarrow> ('err + unit) \<times> ('e, 'f, 's, 'b, 'err) sliding_sync" where
  "store_sliding_sync_state cd s =
     (let key = storage_key s;
          instance_key = format_storage_key_for_sliding_sync key
      in case set_state_value instance_key (enc_sync cd (frozen_sliding_sync_new (sync_rooms s))) (sync_client s) of
           (Inl e, c) \<Rightarrow> (Inl e, s\<lparr>sync_client := c\<rparr>)
         | (Inr _, c) \<Rightarrow>
             (case set_crypto_value instance_key (enc_pos cd (sync_pos s)) c of
                (Inl e, c) \<Rightarrow> (Inl e, s\<lparr>sync_client := c\<rparr>)
              | (Inr _, c) \<Rightarrow>
                  let (r, c) = store_lists cd key (sync_lists s) c in (r, s\<lparr>sync_client := c\<rparr>)))"

definition restore_sliding_sync_list :: "('e, 'b) codec \<Rightarrow> string \<Rightarrow> string \<Rightarrow> ('b, 'err) client
    \<Rightarrow> ('err + u32 option option) \<times> ('b, 'err) client" where
  "restore_sliding_sync_list cd key name c =
     (case state_error c of
        Some e \<Rightarrow> (Inl e, c)
      | None \<Rightarrow>
          (case map_option (dec_list cd) (state_values c (format_storage_key_for_sliding_sync_list key name)) of
             Some (Some n) \<Rightarrow> (Inr (Some n), c)
           | Some None \<Rightarrow> (Inr None, invalidate_cached_list key name c)
           | None \<Rightarrow> (Inr None, c)))"

record 'e restored_fields =
  restored_to_device_token :: "string option"
  restored_pos :: "string option"
  restored_rooms :: "(room_id, 'e sliding_sync_room) btree"

definition restore_sliding_sync_state :: "('e, 'b) codec \<Rightarrow> string \<Rightarrow> string list \<Rightarrow> ('b, 'err) client
    \<Rightarrow> ('err + 'e restored_fields option) \<times> ('b, 'err) client" where
  "restore_sliding_sync_state cd key names c =
     (case (case olm c of None \<Rightarrow> Inr None
            | Some m \<Rightarrow> (case crypto_error m of Some e \<Rightarrow> Inl e | None \<Rightarrow> Inr (next_batch_token m))) of
        Inl e \<Rightarrow> (Inl e, c)
      | Inr token \<Rightarrow>
          (case state_error c of
             Some e \<Rightarrow> (Inl e, c)
           | None \<Rightarrow>
               let instance_key = format_storage_key_for_sliding_sync key in
               (case map_option (dec_sync cd) (state_values c instance_key) of
                  Some (Some frozen) \<Rightarrow>
                    (Inr (Some
                       \<lparr>restored_to_device_token = (case token of None \<Rightarrow> frozen_to_device_since frozen | Some t \<Rightarrow> Some t),
                        restored_pos =
                          (case olm c of None \<Rightarrow> None
                           | Some m \<Rightarrow>
                               (case (case crypto_error m of None \<Rightarrow> crypto_values m instance_key | Some _ \<Rightarrow> None) of
                                  None \<Rightarrow> None
                                | Some blob \<Rightarrow> (case dec_pos cd blob of None \<Rightarrow> None | Some p \<Rightarrow> p))),
                        restored_rooms =
                          fold (\<lambda>f m. btree_insert (frozen_room_id f) (from_frozen f) m) (frozen_rooms frozen) []\<rparr>), c)
                | Some None \<Rightarrow> (Inr None, clean_storage cd key names c)
                | None \<Rightarrow>
                    (Inr (Some \<lparr>restored_to_device_token = token, restored_pos = None, restored_rooms = []\<rparr>), c))))"

definition add_cached_list :: "('e, 'b) codec \<Rightarrow> 'f list_builder \<Rightarrow> ('e, 'f, 's, 'b, 'err) sliding_sync
    \<Rightarrow> (('err + 'f sliding_sync_list option) \<times> ('e, 'f, 's, 'b, 'err) sliding_sync) run" where
  "add_cached_list cd b s =
     (let (frozen, c) = restore_sliding_sync_list cd (storage_key s) (lb_name b) (sync_client s);
          s = s\<lparr>sync_client := c\<rparr>
      in run_bind (set_cached_and_reload frozen b) (\<lambda>(r, b).
         Done (case r of
                 Inl e \<Rightarrow> (Inl e, s)
               | Inr _ \<Rightarrow> (let (old, s) = add_list b s in (Inr old, s)))))"

section \<open>Building an instance\<close>

datatype version = NoVersion | Proxy | Native

record ('f, 's) sync_builder =
  sb_id :: string
  sb_version :: version
  sb_storage_key :: string
  sb_lists :: "'f list_builder list"
  sb_extensions :: extensions
  sb_subscriptions :: "(room_id, 's) btree"
  sb_share_pos :: bool
  sb_poll_timeout :: nat

text \<open>\<open>None\<close> is the error \<open>VersionIsMissing\<close>.\<close>

definition sync_build :: "('e, 'b) codec \<Rightarrow> ('f, 's) sync_builder \<Rightarrow> ('b, 'err) client
    \<Rightarrow> ('err option + ('e, 'f, 's, 'b, 'err) sliding_sync) \<times> ('b, 'err) client" where
  "sync_build cd b c =
     (if sb_version b = NoVersion then (Inl None, c)
      else
        let ls = fold (\<lambda>lb m. let l = list_build lb in btree_insert (list_name l) l m) (sb_lists b) [] in
        (case restore_sliding_sync_state cd (sb_storage_key b) (map fst ls) c of
           (Inl e, c) \<Rightarrow> (Inl (Some e), c)
         | (Inr restored, c) \<Rightarrow>
             let (p, rs) = (case restored of
                              Some rf \<Rightarrow> (if sb_share_pos b then restored_pos rf else None, restored_rooms rf)
                            | None \<Rightarrow> (None, []))
             in (Inr \<lparr>sync_id = sb_id b, is_native = (sb_version b = Native), storage_key = sb_storage_key b,
                      share_pos = sb_share_pos b, poll_timeout = sb_poll_timeout b, sync_pos = p, sync_lists = ls,
                      sync_rooms = rs,
                      sync_sticky = sticky_manager_new (sync_sticky_parameters_new (sb_subscriptions b) (sb_extensions b)),
                      sync_channel = [], sync_client = c\<rparr>, c)))"

section \<open>Requests\<close>

fun collect_list_requests :: "txn_id \<Rightarrow> lazy_transaction_id \<Rightarrow> (string, 'f sliding_sync_list) btree
    \<Rightarrow> ((ss_error + (string, 'f list_request) btree \<times> bool) \<times> lazy_transaction_id \<times>
        (string, 'f sliding_sync_list) btree) run" where
  "collect_list_requests fresh txn [] = Done (Inr ([], True), txn, [])"
| "collect_list_requests fresh txn ((name, l) # ls) =
     run_bind (next_request fresh txn l) (\<lambda>(r, txn, l).
     case r of
       Inl e \<Rightarrow> Done (Inl e, txn, (name, l) # ls)
     | Inr req \<Rightarrow>
         run_bind (collect_list_requests fresh txn ls) (\<lambda>(r, txn, ls).
         Done (map_sum id (\<lambda>(reqs, t). ((name, req) # reqs, requires_timeout l \<and> t)) r, txn, (name, l) # ls)))"

text \<open>The position of the request, read from the cache when several instances share it.\<close>

definition choose_pos :: "'e restored_fields option \<Rightarrow> ('e, 'f, 's, 'b, 'err) sliding_sync
    \<Rightarrow> string option \<times> ('e, 'f, 's, 'b, 'err) sliding_sync" where
  "choose_pos restored s =
     (if share_pos s then
        (case restored of
           Some rf \<Rightarrow> (restored_pos rf, s\<lparr>sync_pos := restored_pos rf\<rparr>)
         | None \<Rightarrow> (sync_pos s, s))
      else (sync_pos s, s))"

text \<open>Without a position a native server sends no change of devices from before the request.\<close>

definition mark_users_dirty :: "string option \<Rightarrow> ('e, 'f, 's, 'b, 'err) sliding_sync
    \<Rightarrow> ('err sync_error + unit) \<times> ('e, 'f, 's, 'b, 'err) sliding_sync" where
  "mark_users_dirty p s =
     (if p = None \<and> is_native s \<and> is_e2ee_enabled s then
        (case olm (sync_client s) of
           None \<Rightarrow> (Inl NoOlmMachine, s)
         | Some m \<Rightarrow>
             (case crypto_error m of
                Some e \<Rightarrow> (Inl (ClientError e), s)
              | None \<Rightarrow> (Inr (), s\<lparr>sync_client := (sync_client s)\<lparr>olm := Some (m\<lparr>all_users_dirty := True\<rparr>)\<rparr>\<rparr>)))
      else (Inr (), s))"

definition build_sync_request :: "txn_id \<Rightarrow> lazy_transaction_id \<Rightarrow> (string, 'f list_request) btree \<Rightarrow> bool
    \<Rightarrow> string option \<Rightarrow> 'e restored_fields option \<Rightarrow> ('e, 'f, 's, 'b, 'err) sliding_sync
    \<Rightarrow> ('f, 's) sync_request \<times> ('e, 'f, 's, 'b, 'err) sliding_sync" where
  "build_sync_request fresh txn reqs require_timeout p restored s =
     (let to_device = (to_device_enabled (sticky_extensions (sticky_data (sync_sticky s))) = Some True);
          req = sync_request_new\<lparr>req_conn_id := Some (sync_id s), req_pos := p,
                  req_timeout := (if require_timeout then Some (poll_timeout s) else None), req_lists := reqs\<rparr>;
          (req, txn, m) = maybe_apply sync_sticky_apply fresh req txn (sync_sticky s);
          req = (if to_device
                 then req\<lparr>req_extensions := (req_extensions req)\<lparr>to_device_since :=
                        (case restored of None \<Rightarrow> None | Some rf \<Rightarrow> restored_to_device_token rf)\<rparr>\<rparr>
                 else req);
          req = (case lazy_txn_id txn of Some t \<Rightarrow> req\<lparr>req_txn_id := Some t\<rparr> | None \<Rightarrow> req)
      in (req, s\<lparr>sync_sticky := m\<rparr>))"

definition restore_for_request :: "('e, 'b) codec \<Rightarrow> ('e, 'f, 's, 'b, 'err) sliding_sync
    \<Rightarrow> ('err + 'e restored_fields option) \<times> ('b, 'err) client" where
  "restore_for_request cd s =
     (if share_pos s \<or> to_device_enabled (sticky_extensions (sticky_data (sync_sticky s))) = Some True
      then restore_sliding_sync_state cd (storage_key s) (map fst (sync_lists s)) (sync_client s)
      else (Inr None, sync_client s))"

definition finish_sync_request :: "txn_id \<Rightarrow> lazy_transaction_id \<Rightarrow> (string, 'f list_request) btree \<Rightarrow> bool
    \<Rightarrow> 'e restored_fields option \<Rightarrow> ('e, 'f, 's, 'b, 'err) sliding_sync
    \<Rightarrow> ('err sync_error + ('f, 's) sync_request) \<times> ('e, 'f, 's, 'b, 'err) sliding_sync" where
  "finish_sync_request fresh txn reqs require_timeout restored s =
     (let (p, s) = choose_pos restored s in
      case mark_users_dirty p s of
        (Inl e, s) \<Rightarrow> (Inl e, s)
      | (Inr _, s) \<Rightarrow>
          let (req, s) = build_sync_request fresh txn reqs require_timeout p restored s in (Inr req, s))"

definition generate_sync_request :: "('e, 'b) codec \<Rightarrow> txn_id \<Rightarrow> ('e, 'f, 's, 'b, 'err) sliding_sync
    \<Rightarrow> (('err sync_error + ('f, 's) sync_request) \<times> ('e, 'f, 's, 'b, 'err) sliding_sync) run" where
  "generate_sync_request cd fresh s =
     run_bind (collect_list_requests fresh lazy_transaction_id_new (sync_lists s)) (\<lambda>(r, txn, ls).
     let s = s\<lparr>sync_lists := ls\<rparr> in
     Done (case r of
             Inl e \<Rightarrow> (Inl (ListError e), s)
           | Inr (reqs, require_timeout) \<Rightarrow>
               (case restore_for_request cd s of
                  (Inl e, c) \<Rightarrow> (Inl (ClientError e), s\<lparr>sync_client := c\<rparr>)
                | (Inr restored, c) \<Rightarrow>
                    finish_sync_request fresh txn reqs require_timeout restored (s\<lparr>sync_client := c\<rparr>))))"

section \<open>Responses\<close>

record 'e sync_response =
  resp_pos :: string
  resp_txn_id :: "txn_id option"
  resp_rooms :: "(room_id, 'e room_response) btree"
  resp_lists :: "(string, nat) btree"

record update_summary =
  summary_lists :: "string list"
  summary_rooms :: "room_id list"

fun update_rooms :: "(room_id, 'e room_response) btree \<Rightarrow> (room_id, 'e list) btree
    \<Rightarrow> (room_id, 'e sliding_sync_room) btree
    \<Rightarrow> (room_id, 'e sliding_sync_room) btree \<times> (room_id, 'e list) btree \<times> room_id list" where
  "update_rooms [] joined rs = (rs, joined, [])"
| "update_rooms ((r, data) # resp) joined rs =
     (let (timeline, joined) = (case map_of joined r of
                                  Some es \<Rightarrow> (es, btree_remove r joined)
                                | None \<Rightarrow> (resp_timeline data, joined));
          rs = (case map_of rs r of
                  Some room \<Rightarrow> btree_insert r (update_room data timeline room) rs
                | None \<Rightarrow> btree_insert r (sliding_sync_room_new r (resp_prev_batch data) timeline) rs);
          (rs, joined, updated) = update_rooms resp joined rs
      in (rs, joined, r # updated))"

fun update_lists :: "(string, nat) btree \<Rightarrow> (string, 'f sliding_sync_list) btree
    \<Rightarrow> ((ss_error + string list) \<times> (string, 'f sliding_sync_list) btree) run" where
  "update_lists counts [] = Done (Inr [], [])"
| "update_lists counts ((name, l) # ls) =
     run_bind (case map_of counts name of
                 None \<Rightarrow> Done None
               | Some count \<Rightarrow> if count < 2 ^ 32 then Done (Some (of_nat count)) else Panic) (\<lambda>n.
     case update_list n l of
       (Inl e, l) \<Rightarrow> Done (Inl e, (name, l) # ls)
     | (Inr changed, l) \<Rightarrow>
         run_bind (update_lists counts ls) (\<lambda>(r, ls).
         Done (map_sum id (\<lambda>names. if changed then name # names else names) r, (name, l) # ls)))"

definition commit_sticky :: "txn_id option \<Rightarrow> ('e, 'f, 's, 'b, 'err) sliding_sync \<Rightarrow> ('e, 'f, 's, 'b, 'err) sliding_sync" where
  "commit_sticky txn s =
     (case txn of
        None \<Rightarrow> s
      | Some t \<Rightarrow> s\<lparr>sync_sticky := maybe_commit sync_on_commit t (sync_sticky s),
                     sync_lists := map_values (maybe_commit_sticky t) (sync_lists s)\<rparr>)"

text \<open>
  \<open>process\<close> is the response processor of the client: given whether encryption is enabled and whether
  the rooms are to be processed, it answers the decrypted timelines of the joined rooms.
\<close>

definition handle_response :: "('e \<Rightarrow> string option)
    \<Rightarrow> (bool \<Rightarrow> bool \<Rightarrow> 'e sync_response \<Rightarrow> 'err + (room_id, 'e list) btree)
    \<Rightarrow> 'e sync_response \<Rightarrow> ('e, 'f, 's, 'b, 'err) sliding_sync
    \<Rightarrow> (('err sync_error + update_summary) \<times> ('e, 'f, 's, 'b, 'err) sliding_sync) run" where
  "handle_response eid process resp s =
     (let must = must_process_rooms_response s;
          resp = (if \<not> is_native s \<and> must
                  then resp\<lparr>resp_rooms := compute_limited eid (sync_rooms s) (resp_rooms resp)\<rparr> else resp)
      in case process (is_e2ee_enabled s) must resp of
           Inl e \<Rightarrow> Done (Inl (ClientError e), s)
         | Inr joined \<Rightarrow>
             let s = commit_sticky (resp_txn_id resp) s;
                 (rs, joined, updated) = update_rooms (resp_rooms resp) joined (sync_rooms s);
                 s = s\<lparr>sync_rooms := rs\<rparr>
             in run_bind (update_lists (resp_lists resp) (sync_lists s)) (\<lambda>(r, ls).
                let s = s\<lparr>sync_lists := ls\<rparr> in
                Done (case r of
                        Inl e \<Rightarrow> (Inl (ListError e), s)
                      | Inr names \<Rightarrow>
                          (Inr \<lparr>summary_lists = names, summary_rooms = updated @ map fst joined\<rparr>,
                           s\<lparr>sync_pos := Some (resp_pos resp)\<rparr>))))"

text \<open>What is done with a response once it has been received, by a task that cannot be cancelled.\<close>

definition handle_and_cache :: "('e, 'b) codec \<Rightarrow> ('e \<Rightarrow> string option)
    \<Rightarrow> (bool \<Rightarrow> bool \<Rightarrow> 'e sync_response \<Rightarrow> 'err + (room_id, 'e list) btree)
    \<Rightarrow> 'e sync_response \<Rightarrow> ('e, 'f, 's, 'b, 'err) sliding_sync
    \<Rightarrow> (('err sync_error + update_summary) \<times> ('e, 'f, 's, 'b, 'err) sliding_sync) run" where
  "handle_and_cache cd eid process resp s =
     run_bind (handle_response eid process resp s) (\<lambda>(r, s).
     Done (case r of
             Inl e \<Rightarrow> (Inl e, s)
           | Inr summary \<Rightarrow>
               (case store_sliding_sync_state cd s of
                  (Inl e, s) \<Rightarrow> (Inl (ClientError e), s)
                | (Inr _, s) \<Rightarrow> (Inr summary, s))))"

section \<open>Expiry of a session\<close>

definition expire_session :: "('e, 'b) codec \<Rightarrow> ('e, 'f, 's, 'b, 'err) sliding_sync \<Rightarrow> ('e, 'f, 's, 'b, 'err) sliding_sync" where
  "expire_session cd s =
     (let s = snd (store_sliding_sync_state cd (s\<lparr>sync_pos := None\<rparr>))
      in s\<lparr>sync_sticky := data_mut (\<lambda>d. d\<lparr>room_subscriptions := []\<rparr>) (sync_sticky s),
           sync_lists := map_values invalidate_sticky_data (sync_lists s)\<rparr>)"

section \<open>The sync loop\<close>

text \<open>
  One iteration of the loop of \<open>sync\<close>: a message on the internal channel is looked at first
  (\<open>Inl ()\<close> is a closed channel), otherwise the outcome of \<open>sync_once\<close> is yielded. The answer says
  whether the loop goes on and what it yields; \<open>unknown_pos\<close> recognises the error of an expired
  session.
\<close>

definition sync_iteration :: "('e, 'b) codec \<Rightarrow> ('err sync_error \<Rightarrow> bool) \<Rightarrow> (unit + internal_message) option
    \<Rightarrow> ('err sync_error + update_summary) \<Rightarrow> ('e, 'f, 's, 'b, 'err) sliding_sync
    \<Rightarrow> bool \<times> ('err sync_error + update_summary) option \<times> ('e, 'f, 's, 'b, 'err) sliding_sync" where
  "sync_iteration cd unknown_pos message outcome s =
     (case message of
        Some (Inl _) \<Rightarrow> (False, None, s)
      | Some (Inr SyncLoopStop) \<Rightarrow> (False, None, s)
      | Some (Inr SyncLoopSkipOverCurrentIteration) \<Rightarrow> (True, None, s)
      | None \<Rightarrow>
          (case outcome of
             Inr summary \<Rightarrow> (True, Some (Inr summary), s)
           | Inl e \<Rightarrow> (False, Some (Inl e), if unknown_pos e then expire_session cd s else s)))"

end
