(* ===== verification/Sliding_Sync_Props.thy ===== *)
theory Sliding_Sync_Props
  imports Sliding_Sync
begin

text \<open>
  What a sliding sync instance promises: a room subscription is sent until a request that carried it
  is acknowledged, as long as no response to an older request arrives after a change of the
  subscriptions; the position only advances when the whole response was handled; what is cached is
  restored; an expired session starts again from nothing. The last section shows that the
  restriction on responses is needed: without it a subscription is marked as applied and never sent.
\<close>

section \<open>Sticky parameters of lists and of the instance\<close>

definition list_items :: "'f list_sticky_parameters \<Rightarrow> 'f list_sticky_parameters set" where
  "list_items d = {d}"

interpretation list_parameters: sticky_contract list_items list_items list_on_commit "\<lambda>_. True"
  by unfold_locales (simp_all add: list_items_def list_on_commit_def)

definition subscribed :: "'s sync_sticky_parameters \<Rightarrow> (room_id \<times> 's) set" where
  "subscribed d = {(r, s). \<exists>st. (r, st, s) \<in> set (room_subscriptions d)}"

definition pending :: "'s sync_sticky_parameters \<Rightarrow> (room_id \<times> 's) set" where
  "pending d = {(r, s). (r, Pending, s) \<in> set (room_subscriptions d)}"

text \<open>What \<open>pending\<close> names is what \<open>apply\<close> writes into a request.\<close>

lemma pending_sent: "set (req_room_subscriptions (sync_sticky_apply d req)) = pending d"
  by (force simp: sync_sticky_apply_def pending_def)

definition keeps_applied :: "('s sync_sticky_parameters \<Rightarrow> 's sync_sticky_parameters) \<Rightarrow> bool" where
  "keeps_applied f \<longleftrightarrow> (\<forall>d. subscribed (f d) - pending (f d) \<subseteq> subscribed d - pending d)"

lemma subscribed_on_commit: "subscribed (sync_on_commit d) = subscribed d"
  by (force simp: subscribed_def sync_on_commit_def map_values_def split: subscription_state.splits)

interpretation subscriptions: sticky_contract subscribed pending sync_on_commit keeps_applied
  by unfold_locales (auto simp: subscribed_on_commit keeps_applied_def)

definition subscribe_change :: "'s \<Rightarrow> room_id list \<Rightarrow> 's sync_sticky_parameters \<Rightarrow> 's sync_sticky_parameters" where
  "subscribe_change settings rs d =
     d\<lparr>room_subscriptions := fst (subscribe_loop settings rs (room_subscriptions d) Map.empty)\<rparr>"

definition clear_subscriptions :: "'s sync_sticky_parameters \<Rightarrow> 's sync_sticky_parameters" where
  "clear_subscriptions d = d\<lparr>room_subscriptions := []\<rparr>"

lemma subscribe_loop_known: "fst (subscribe_loop settings rs subs known) = fst (subscribe_loop settings rs subs known')"
proof (induction rs arbitrary: subs known known')
  case (Cons r rs)
  let ?mark = "\<lambda>known. case known r of Some _ \<Rightarrow> known(r \<mapsto> True) | None \<Rightarrow> known"
  show ?case
    using Cons [of subs known known'] Cons [of "btree_insert r (Pending, settings) subs" "?mark known" "?mark known'"]
    by (cases "map_of subs r") (simp_all add: Let_def case_prod_beta)
qed simp

lemma set_btree_insert_subset: "set (btree_insert k v m) \<subseteq> insert (k, v) (set m)"
  by (induction m) (auto split: if_splits)

lemma keys_btree_insert: "(k', v') \<in> set (btree_insert k v m) \<Longrightarrow> (k', v') = (k, v) \<or> (k', v') \<in> set m"
  using set_btree_insert_subset [of k v m] by auto

lemma subscribe_loop_applied:
  "(r, Applied, s) \<in> set (fst (subscribe_loop settings rs subs known)) \<Longrightarrow> (r, Applied, s) \<in> set subs"
proof (induction settings rs subs known rule: subscribe_loop.induct)
  case (2 settings r rs subs known)
  then show ?case
    by (auto simp: Let_def split: option.splits prod.splits dest!: keys_btree_insert)
qed simp

lemma set_btree_insert_new: "k \<notin> fst ` set m \<Longrightarrow> set (btree_insert k v m) = insert (k, v) (set m)"
  by (induction m) (auto split: if_splits)

lemma subscribe_loop_keeps: "set subs \<subseteq> set (fst (subscribe_loop settings rs subs known))"
proof (induction rs arbitrary: subs known)
  case (Cons r rs)
  show ?case
  proof (cases "map_of subs r")
    case None
    then have "set (btree_insert r (Pending, settings) subs) = insert (r, Pending, settings) (set subs)"
      by (simp add: map_of_eq_None_iff set_btree_insert_new)
    with Cons.IH [of "btree_insert r (Pending, settings) subs"
        "case known r of Some _ \<Rightarrow> known(r \<mapsto> True) | None \<Rightarrow> known"] None
    show ?thesis by (simp add: Let_def case_prod_beta)
  next
    case (Some x)
    with Cons.IH show ?thesis by simp
  qed
qed simp

lemma ex_subscription_state: "(\<exists>st. P st) \<longleftrightarrow> P Pending \<or> P Applied"
proof
  assume "\<exists>st. P st"
  then obtain st where "P st" ..
  then show "P Pending \<or> P Applied" by (cases st) simp_all
qed auto

lemma applied_iff:
  "(r, s) \<in> subscribed d - pending d \<longleftrightarrow>
     (r, Applied, s) \<in> set (room_subscriptions d) \<and> (r, Pending, s) \<notin> set (room_subscriptions d)"
  by (auto simp: subscribed_def pending_def ex_subscription_state)

lemma keeps_applied_subscribe [simp]: "keeps_applied (subscribe_change settings rs)"
  unfolding keeps_applied_def
proof (intro allI subrelI)
  fix d :: "'a sync_sticky_parameters" and r s
  let ?subs = "fst (subscribe_loop settings rs (room_subscriptions d) Map.empty)"
  assume "(r, s) \<in> subscribed (subscribe_change settings rs d) - pending (subscribe_change settings rs d)"
  then have subs: "(r, Applied, s) \<in> set ?subs" "(r, Pending, s) \<notin> set ?subs"
    unfolding applied_iff by (simp_all add: subscribe_change_def)
  have "(r, Applied, s) \<in> set (room_subscriptions d)" using subs(1) by (rule subscribe_loop_applied)
  moreover have "(r, Pending, s) \<notin> set (room_subscriptions d)"
    using subs(2) by (rule contra_subsetD [OF subscribe_loop_keeps])
  ultimately show "(r, s) \<in> subscribed d - pending d" unfolding applied_iff by (rule conjI)
qed

lemma keeps_applied_clear [simp]: "keeps_applied clear_subscriptions"
  by (simp add: keeps_applied_def clear_subscriptions_def subscribed_def)

text \<open>The operations of the instance act on its subscriptions as the events of a life do.\<close>

lemma subscribe_to_rooms_sticky:
  "sync_sticky (subscribe_to_rooms rs settings cancel s) = data_mut (subscribe_change settings rs) (sync_sticky s)"
proof -
  let ?known = "client_rooms (sync_client s)" and ?subs = "room_subscriptions (sticky_data (sync_sticky s))"
  obtain subs known skip where loop: "subscribe_loop settings rs ?subs ?known = (subs, known, skip)"
    by (cases "subscribe_loop settings rs ?subs ?known")
  have "fst (subscribe_loop settings rs ?subs Map.empty) = subs"
    using subscribe_loop_known [of settings rs ?subs ?known Map.empty] loop by simp
  then show ?thesis
    by (simp add: subscribe_to_rooms_def loop internal_channel_send_if_possible_def data_mut_def
        subscribe_change_def Let_def)
qed

lemma expire_session_sticky: "sync_sticky (expire_session cd s) = data_mut clear_subscriptions (sync_sticky s)"
  by (simp add: expire_session_def data_mut_def clear_subscriptions_def store_sliding_sync_state_def Let_def
      split: prod.splits sum.splits)

lemma commit_sticky_sticky:
  "sync_sticky (commit_sticky (Some t) s) = maybe_commit sync_on_commit t (sync_sticky s)"
  by (simp add: commit_sticky_def)



section \<open>Handling a response\<close>

text \<open>What a room is after a response: its decrypted timeline counts before the one of the response.\<close>

definition room_after :: "(room_id, 'e room_response) btree \<Rightarrow> (room_id, 'e list) btree
    \<Rightarrow> (room_id, 'e sliding_sync_room) btree \<Rightarrow> room_id \<Rightarrow> 'e sliding_sync_room option" where
  "room_after resp joined rs r =
     (case map_of resp r of
        None \<Rightarrow> map_of rs r
      | Some data \<Rightarrow>
          let timeline = (case map_of joined r of Some es \<Rightarrow> es | None \<Rightarrow> resp_timeline data) in
          Some (case map_of rs r of
                  Some room \<Rightarrow> update_room data timeline room
                | None \<Rightarrow> sliding_sync_room_new r (resp_prev_batch data) timeline))"

lemma update_rooms_spec:
  assumes "btree_ok rs" and "distinct (map fst resp)" and "update_rooms resp joined rs = (rs', joined', updated)"
  shows "btree_ok rs' \<and> (\<forall>r. map_of rs' r = room_after resp joined rs r) \<and> updated = map fst resp \<and>
         fst ` set joined' = fst ` set joined - fst ` set resp"
  using assms
proof (induction resp arbitrary: joined rs updated)
  case Nil
  then show ?case by (simp add: room_after_def)
next
  case (Cons d resp)
  obtain r data where d: "d = (r, data)" by (cases d)
  let ?tl = "case map_of joined r of Some es \<Rightarrow> es | None \<Rightarrow> resp_timeline data"
  let ?joined = "case map_of joined r of Some es \<Rightarrow> btree_remove r joined | None \<Rightarrow> joined"
  let ?rs = "case map_of rs r of
      Some room \<Rightarrow> btree_insert r (update_room data ?tl room) rs
    | None \<Rightarrow> btree_insert r (sliding_sync_room_new r (resp_prev_batch data) ?tl) rs"
  obtain upd where upd: "update_rooms resp ?joined ?rs = (rs', joined', upd)" "updated = r # upd"
    using Cons.prems(3) by (auto simp: d Let_def split: option.splits prod.splits)
  have ok: "btree_ok ?rs" using Cons.prems(1) by (simp split: option.split)
  have r: "r \<notin> fst ` set resp" and "distinct (map fst resp)" using Cons.prems(2) d by auto
  note ih = Cons.IH [OF ok this(2) upd(1)]
  have rs: "map_of ?rs = (map_of rs)(r \<mapsto> (case map_of rs r of Some room \<Rightarrow> update_room data ?tl room
      | None \<Rightarrow> sliding_sync_room_new r (resp_prev_batch data) ?tl))"
    using Cons.prems(1) by (simp split: option.split)
  have joined: "q \<noteq> r \<Longrightarrow> map_of ?joined q = map_of joined q" for q
    by (simp split: option.split)
  have none: "map_of resp r = None" using r by (simp add: map_of_eq_None_iff)
  have "room_after resp ?joined ?rs q = room_after (d # resp) joined rs q" for q
    using joined [of q] none
    by (cases "q = r"; cases "map_of resp q") (simp_all add: room_after_def d rs Let_def)
  moreover have "fst ` set ?joined = fst ` set joined - {r}"
    by (force simp: btree_remove_def map_of_eq_None_iff split: option.split)
  ultimately show ?case using ih upd(2) d by auto
qed

lemma update_lists_total:
  assumes "\<forall>name c. map_of counts name = Some c \<longrightarrow> c < 2 ^ 32"
  shows "\<exists>r ls'. update_lists counts ls = Done (r, ls')"
proof (induction ls)
  case (Cons e ls)
  obtain name l where e: "e = (name, l)" by (cases e)
  have "\<exists>n :: u32 option. (case map_of counts name of None \<Rightarrow> Done None
      | Some count \<Rightarrow> if count < 2 ^ 32 then Done (Some (of_nat count)) else Panic) = Done n"
    using assms by (auto split: option.split)
  then obtain n :: "u32 option" where n: "(case map_of counts name of None \<Rightarrow> Done None
      | Some count \<Rightarrow> if count < 2 ^ 32 then Done (Some (of_nat count)) else Panic) = Done n" by blast
  obtain res l' where u: "update_list n l = (res, l')" by (cases "update_list n l")
  show ?case
  proof (cases res)
    case (Inl x)
    then show ?thesis unfolding e update_lists.simps n by (simp add: u)
  next
    case (Inr c)
    with Cons show ?thesis unfolding e update_lists.simps n by (auto simp: u)
  qed
qed simp

lemma compute_limited_keys [simp]: "map fst (compute_limited eid rs resp) = map fst resp"
  by (simp add: compute_limited_def case_prod_beta comp_def)

lemma commit_sticky_rooms [simp]:
  "sync_rooms (commit_sticky t s) = sync_rooms s" "sync_pos (commit_sticky t s) = sync_pos s"
  by (simp_all add: commit_sticky_def split: option.split)

definition processed_response :: "('e \<Rightarrow> string option) \<Rightarrow> ('e, 'f, 's, 'b, 'err) sliding_sync \<Rightarrow> 'e sync_response \<Rightarrow> 'e sync_response" where
  "processed_response eid s resp =
     (if \<not> is_native s \<and> must_process_rooms_response s
      then resp\<lparr>resp_rooms := compute_limited eid (sync_rooms s) (resp_rooms resp)\<rparr> else resp)"

lemma processed_response_keys [simp]:
  "fst ` set (resp_rooms (processed_response eid s resp)) = fst ` set (resp_rooms resp)"
  "distinct (map fst (resp_rooms (processed_response eid s resp))) = distinct (map fst (resp_rooms resp))"
  "resp_pos (processed_response eid s resp) = resp_pos resp"
  "resp_lists (processed_response eid s resp) = resp_lists resp"
  by (simp_all add: processed_response_def flip: set_map)

text \<open>C33. A response whose room counts fit into \<open>u32\<close> is handled without a panic.
  When the client fails to process it or a list refuses it, the position of the session stays as it
  was. Otherwise the position becomes the one of the response, exactly the rooms of the response are
  created or updated (with the decrypted timeline of the client where it has one), and the summary
  names the rooms of the response and the joined rooms the client reports, and no other.\<close>

theorem response_handled_or_kept:
  assumes "\<forall>name c. map_of (resp_lists resp) name = Some c \<longrightarrow> c < 2 ^ 32"
    and "btree_ok (sync_rooms s)" and "distinct (map fst (resp_rooms resp))"
    and "resp' = processed_response eid s resp"
  shows "\<exists>r s'. handle_response eid process resp s = Done (r, s') \<and>
     (case r of
        Inl _ \<Rightarrow> sync_pos s' = sync_pos s
      | Inr summary \<Rightarrow>
          sync_pos s' = Some (resp_pos resp) \<and>
          (\<exists>joined. process (is_e2ee_enabled s) (must_process_rooms_response s) resp' = Inr joined \<and>
             (\<forall>q. map_of (sync_rooms s') q = room_after (resp_rooms resp') joined (sync_rooms s) q) \<and>
             set (summary_rooms summary) = fst ` set (resp_rooms resp) \<union> fst ` set joined))"
proof (cases "process (is_e2ee_enabled s) (must_process_rooms_response s) resp'")
  case (Inl e)
  then show ?thesis
    unfolding handle_response_def assms(4) processed_response_def Let_def by simp
next
  case (Inr joined)
  let ?s1 = "commit_sticky (resp_txn_id resp') s"
  obtain rs joined' updated where rooms: "update_rooms (resp_rooms resp') joined (sync_rooms s) = (rs, joined', updated)"
    by (cases "update_rooms (resp_rooms resp') joined (sync_rooms s)")
  note spec = update_rooms_spec [OF assms(2) _ rooms]
  have keys: "distinct (map fst (resp_rooms resp'))" "fst ` set (resp_rooms resp') = fst ` set (resp_rooms resp)"
    using assms(3,4) by simp_all
  let ?s2 = "?s1\<lparr>sync_rooms := rs\<rparr>"
  obtain r ls where ls: "update_lists (resp_lists resp') (sync_lists ?s2) = Done (r, ls)"
    using update_lists_total [of "resp_lists resp'" "sync_lists ?s2"] assms(1,4) by auto
  have "handle_response eid process resp s = Done (case r of
      Inl e \<Rightarrow> (Inl (ListError e), ?s2\<lparr>sync_lists := ls\<rparr>)
    | Inr names \<Rightarrow> (Inr \<lparr>summary_lists = names, summary_rooms = updated @ map fst joined'\<rparr>,
         ?s2\<lparr>sync_lists := ls, sync_pos := Some (resp_pos resp')\<rparr>))"
    using Inr rooms ls
    unfolding handle_response_def assms(4) processed_response_def [symmetric] Let_def
    by (simp add: Let_def)
  with spec [OF keys(1)] keys(2) Inr assms(4) show ?thesis
    by (cases r) auto
qed

section \<open>Example instances\<close>

datatype example_blob = SyncBlob "nat frozen_sliding_sync" | PosBlob "string option" | ListBlob "u32 option" | EmptyBlob

definition example_codec :: "(nat, example_blob) codec" where
  "example_codec =
     \<lparr>enc_sync = SyncBlob, dec_sync = (\<lambda>b. case b of SyncBlob f \<Rightarrow> Some f | _ \<Rightarrow> None),
      enc_pos = PosBlob, dec_pos = (\<lambda>b. case b of PosBlob p \<Rightarrow> Some p | _ \<Rightarrow> None),
      enc_list = ListBlob, dec_list = (\<lambda>b. case b of ListBlob n \<Rightarrow> Some n | _ \<Rightarrow> None),
      empty_blob = EmptyBlob\<rparr>"

definition example_client :: "(example_blob, nat) client" where
  "example_client =
     \<lparr>client_rooms = Map.empty, state_values = Map.empty, state_error = None,
      olm = Some \<lparr>crypto_values = Map.empty, crypto_error = None, next_batch_token = None, all_users_dirty = False\<rparr>\<rparr>"

definition example_sync :: "nat list_builder list \<Rightarrow> (nat, nat, nat, example_blob, nat) sliding_sync" where
  "example_sync lbs =
     \<lparr>sync_id = ''id'', is_native = False, storage_key = ''key'', share_pos = False, poll_timeout = 30, sync_pos = None,
      sync_lists = map (\<lambda>lb. (lb_name lb, list_build lb)) lbs, sync_rooms = [],
      sync_sticky = sticky_manager_new (sync_sticky_parameters_new [] no_extensions), sync_channel = [],
      sync_client = example_client\<rparr>"

definition example_response :: "txn_id option \<Rightarrow> (string, nat) btree \<Rightarrow> nat sync_response" where
  "example_response txn counts =
     \<lparr>resp_pos = ''p1'', resp_txn_id = txn, resp_rooms =
        [(''!a'', \<lparr>resp_prev_batch = None, resp_limited = False, resp_initial = Some True, resp_timeline = [5, 6]\<rparr>)],
      resp_lists = counts\<rparr>"

definition example_process :: "bool \<Rightarrow> bool \<Rightarrow> nat sync_response \<Rightarrow> nat + (room_id, nat list) btree" where
  "example_process e2ee must resp = Inr [(''!c'', [9])]"

theorem response_handled_or_kept_witness:
  "\<exists>r s'. handle_response (\<lambda>e. None) example_process (example_response None []) (example_sync []) = Done (r, s') \<and>
     (case r of Inl _ \<Rightarrow> sync_pos s' = None
      | Inr summary \<Rightarrow> sync_pos s' = Some ''p1'' \<and> set (summary_rooms summary) = {''!a'', ''!c''})"
proof -
  let ?resp = "example_response None []" and ?s = "example_sync []"
  have "\<exists>r s'. handle_response (\<lambda>e. None) example_process ?resp ?s = Done (r, s') \<and>
     (case r of
        Inl _ \<Rightarrow> sync_pos s' = sync_pos ?s
      | Inr summary \<Rightarrow>
          sync_pos s' = Some (resp_pos ?resp) \<and>
          (\<exists>joined. example_process (is_e2ee_enabled ?s) (must_process_rooms_response ?s)
               (processed_response (\<lambda>e. None) ?s ?resp) = Inr joined \<and>
             (\<forall>q. map_of (sync_rooms s') q =
                room_after (resp_rooms (processed_response (\<lambda>e. None) ?s ?resp)) joined (sync_rooms ?s) q) \<and>
             set (summary_rooms summary) = fst ` set (resp_rooms ?resp) \<union> fst ` set joined))"
    by (rule response_handled_or_kept [OF _ _ _ refl]) (simp_all add: example_response_def example_sync_def)
  then obtain r s' where d: "handle_response (\<lambda>e. None) example_process ?resp ?s = Done (r, s')" and
    c: "case r of
        Inl _ \<Rightarrow> sync_pos s' = sync_pos ?s
      | Inr summary \<Rightarrow>
          sync_pos s' = Some (resp_pos ?resp) \<and>
          (\<exists>joined. example_process (is_e2ee_enabled ?s) (must_process_rooms_response ?s)
               (processed_response (\<lambda>e. None) ?s ?resp) = Inr joined \<and>
             (\<forall>q. map_of (sync_rooms s') q =
                room_after (resp_rooms (processed_response (\<lambda>e. None) ?s ?resp)) joined (sync_rooms ?s) q) \<and>
             set (summary_rooms summary) = fst ` set (resp_rooms ?resp) \<union> fst ` set joined)" by blast
  show ?thesis
    by (rule exI [of _ r], rule exI [of _ s'])
      (use d c in \<open>auto simp: example_process_def example_response_def example_sync_def split: sum.splits\<close>)
qed

text \<open>The count of rooms the server sends for a known list is converted to \<open>u32\<close> by an
  \<open>expect\<close>, so a response with a larger count panics in the task that handles it.\<close>

theorem large_count_panics:
  "handle_response (\<lambda>e. None) example_process (example_response None [(''rooms'', 2 ^ 32)])
     (example_sync [list_builder_new ''rooms'']) = Panic"
  by (simp add: handle_response_def example_process_def example_response_def example_sync_def
      must_process_rooms_response_def Let_def commit_sticky_def list_builder_new_def)

text \<open>Subscribe to a room, build a request, subscribe to a second room while the request is
  in flight, and handle its response: the second subscription was never sent, yet it is marked as
  applied, the parameters count as committed, and the next request carries no subscription.\<close>

theorem subscription_lost:
  "run_bind (generate_sync_request example_codec ''t1'' (subscribe_to_rooms [''!a''] 0 True (example_sync []))) (\<lambda>(r1, s).
   run_bind (handle_response (\<lambda>e. None) example_process (example_response (Some ''t1'') [])
               (subscribe_to_rooms [''!b''] 0 True s)) (\<lambda>(_, s).
   run_bind (generate_sync_request example_codec ''t2'' s) (\<lambda>(r2, s).
   Done (map_sum (\<lambda>_. ()) req_room_subscriptions r1, map_sum (\<lambda>_. ()) req_room_subscriptions r2,
         room_subscriptions (sticky_data (sync_sticky s)), invalidated (sync_sticky s)))))
   = Done (Inr [(''!a'', 0)], Inr [], [(''!a'', Applied, 0), (''!b'', Applied, 0)], False)"
  by code_simp

end
