(* ===== verification/Sliding_Sync_Cache.thy ===== *)
theory Sliding_Sync_Cache
  imports Sliding_Sync_Props
begin

text \<open>
  What survives of a sliding sync instance: the position, the latest events of the rooms and the room
  counts of the cached lists are read back from the stores as they were written, and an expired
  session starts again without a position, without subscriptions and with the parameters of every
  list.
\<close>

section \<open>Storing and restoring\<close>

definition codec_ok :: "('e, 'b) codec \<Rightarrow> bool" where
  "codec_ok cd \<longleftrightarrow>
     (\<forall>x. dec_sync cd (enc_sync cd x) = Some x) \<and> (\<forall>x. dec_pos cd (enc_pos cd x) = Some x) \<and>
     (\<forall>x. dec_list cd (enc_list cd x) = Some x)"

lemma storage_keys_distinct:
  "format_storage_key_for_sliding_sync_list key name \<noteq> format_storage_key_for_sliding_sync key"
  "format_storage_key_for_sliding_sync_list key name = format_storage_key_for_sliding_sync_list key name'
     \<longleftrightarrow> name = name'"
  by (simp_all add: format_storage_key_for_sliding_sync_def format_storage_key_for_sliding_sync_list_def)

lemma btree_insert_last: "\<forall>k' \<in> fst ` set m. k' < k \<Longrightarrow> btree_insert k v m = m @ [(k, v)]"
  by (induction m) auto

lemma fold_btree_insert_sorted:
  assumes "sorted_wrt (<) (map key xs)" and "\<forall>k \<in> fst ` set m. \<forall>x \<in> set xs. k < key x"
  shows "fold (\<lambda>x. btree_insert (key x) (val x)) xs m = m @ map (\<lambda>x. (key x, val x)) xs"
  using assms
proof (induction xs arbitrary: m)
  case (Cons x xs)
  then have "btree_insert (key x) (val x) m = m @ [(key x, val x)]"
    by (intro btree_insert_last) auto
  with Cons show ?case by auto
qed simp

lemma restored_rooms_eq:
  assumes "btree_ok rs" and "\<forall>e \<in> set rs. room_id (snd e) = fst e"
  shows "fold (\<lambda>f m. btree_insert (frozen_room_id f) (from_frozen f) m) (frozen_rooms (frozen_sliding_sync_new rs)) [] =
         map_values (from_frozen \<circ> freeze_room) rs"
proof -
  have ids: "map frozen_room_id (frozen_rooms (frozen_sliding_sync_new rs)) = map fst rs"
    using assms(2) by (auto simp: frozen_sliding_sync_new_def freeze_room_def Let_def)
  have "fold (\<lambda>f. btree_insert (frozen_room_id f) (from_frozen f)) (frozen_rooms (frozen_sliding_sync_new rs)) [] =
      [] @ map (\<lambda>f. (frozen_room_id f, from_frozen f)) (frozen_rooms (frozen_sliding_sync_new rs))"
    using assms(1) ids by (intro fold_btree_insert_sorted) (simp_all add: btree_ok_def)
  also have "\<dots> = map_values (from_frozen \<circ> freeze_room) rs"
    using assms(2)
    by (auto simp: map_values_def frozen_sliding_sync_new_def freeze_room_def Let_def)
  finally show ?thesis .
qed

lemma store_lists_spec:
  assumes "state_error c = None" and "distinct (map fst ls)"
  shows "\<exists>c'. store_lists cd key ls c = (Inr (), c') \<and> olm c' = olm c \<and> state_error c' = None \<and>
     (\<forall>k. (\<forall>name. name \<in> fst ` set ls \<longrightarrow> k \<noteq> format_storage_key_for_sliding_sync_list key name) \<longrightarrow>
        state_values c' k = state_values c k) \<and>
     (\<forall>name l. (name, l) \<in> set ls \<and> list_cache_policy l = CacheEnabled \<longrightarrow>
        state_values c' (format_storage_key_for_sliding_sync_list key name) = Some (enc_list cd (freeze l)))"
  using assms
proof (induction ls arbitrary: c)
  case (Cons e ls)
  obtain name l where e: "e = (name, l)" by (cases e)
  have name: "name \<notin> fst ` set ls" and ls: "distinct (map fst ls)" using Cons.prems(2) e by auto
  show ?case
  proof (cases "list_cache_policy l")
    case CacheDisabled
    with Cons.IH [OF Cons.prems(1) ls] show ?thesis unfolding e by auto
  next
    case CacheEnabled
    let ?k = "format_storage_key_for_sliding_sync_list key name"
    let ?c = "c\<lparr>state_values := (state_values c)(?k \<mapsto> enc_list cd (freeze l))\<rparr>"
    have set: "set_state_value ?k (enc_list cd (freeze l)) c = (Inr (), ?c)"
      using Cons.prems(1) by (simp add: set_state_value_def)
    obtain c' where c': "store_lists cd key ls ?c = (Inr (), c')" "olm c' = olm c" "state_error c' = None"
      "\<forall>k. (\<forall>name. name \<in> fst ` set ls \<longrightarrow> k \<noteq> format_storage_key_for_sliding_sync_list key name) \<longrightarrow>
         state_values c' k = state_values ?c k"
      "\<forall>name l. (name, l) \<in> set ls \<and> list_cache_policy l = CacheEnabled \<longrightarrow>
         state_values c' (format_storage_key_for_sliding_sync_list key name) = Some (enc_list cd (freeze l))"
      using Cons.IH [of ?c, OF _ ls] Cons.prems(1) by auto
    have "state_values c' ?k = Some (enc_list cd (freeze l))"
      using c'(4) [rule_format, of ?k] name by (auto simp: storage_keys_distinct)
    with c' show ?thesis unfolding e by (intro exI [of _ c']) (auto simp: CacheEnabled set)
  qed
qed simp

text \<open>C36. When the stores are available, storing an instance succeeds, and restoring gives
  back its position, its rooms (each with the latest events it froze) and the room count of every
  list that is enrolled in the cache. The JSON encoding only has to decode what it encoded.\<close>

theorem cached_state_restored:
  assumes "codec_ok cd" and "state_error (sync_client s) = None" and "olm (sync_client s) = Some m"
    and "crypto_error m = None" and "btree_ok (sync_rooms s)" and "\<forall>e \<in> set (sync_rooms s). room_id (snd e) = fst e"
    and "btree_ok (sync_lists s)"
  shows "\<exists>s' rf. store_sliding_sync_state cd s = (Inr (), s') \<and>
     restore_sliding_sync_state cd (storage_key s) names (sync_client s') = (Inr (Some rf), sync_client s') \<and>
     restored_pos rf = sync_pos s \<and> restored_to_device_token rf = next_batch_token m \<and>
     restored_rooms rf = map_values (from_frozen \<circ> freeze_room) (sync_rooms s) \<and>
     (\<forall>name l. map_of (sync_lists s) name = Some l \<and> list_cache_policy l = CacheEnabled \<longrightarrow>
        restore_sliding_sync_list cd (storage_key s) name (sync_client s') = (Inr (Some (freeze l)), sync_client s'))"
proof -
  let ?key = "storage_key s" and ?ik = "format_storage_key_for_sliding_sync (storage_key s)"
  let ?v = "enc_sync cd (frozen_sliding_sync_new (sync_rooms s))"
  let ?m = "m\<lparr>crypto_values := (crypto_values m)(?ik \<mapsto> enc_pos cd (sync_pos s))\<rparr>"
  let ?c = "(sync_client s)\<lparr>state_values := (state_values (sync_client s))(?ik \<mapsto> ?v), olm := Some ?m\<rparr>"
  have lists: "distinct (map fst (sync_lists s))" using assms(7) by (rule btree_ok_distinct)
  obtain c' where c': "store_lists cd ?key (sync_lists s) ?c = (Inr (), c')" "olm c' = Some ?m" "state_error c' = None"
    "\<forall>k. (\<forall>name. name \<in> fst ` set (sync_lists s) \<longrightarrow> k \<noteq> format_storage_key_for_sliding_sync_list ?key name) \<longrightarrow>
       state_values c' k = state_values ?c k"
    "\<forall>name l. (name, l) \<in> set (sync_lists s) \<and> list_cache_policy l = CacheEnabled \<longrightarrow>
       state_values c' (format_storage_key_for_sliding_sync_list ?key name) = Some (enc_list cd (freeze l))"
    using store_lists_spec [of ?c "sync_lists s" cd ?key, OF _ lists] assms(2) by auto
  have ik: "state_values c' ?ik = Some ?v" using c'(4) [rule_format, of ?ik] storage_keys_distinct(1) [symmetric] by simp
  have stored: "store_sliding_sync_state cd s = (Inr (), s\<lparr>sync_client := c'\<rparr>)"
    using assms(2-4) c'(1)
    by (simp add: store_sliding_sync_state_def set_state_value_def set_crypto_value_def Let_def)
  have lists_restored: "\<forall>name l. map_of (sync_lists s) name = Some l \<and> list_cache_policy l = CacheEnabled \<longrightarrow>
      restore_sliding_sync_list cd ?key name c' = (Inr (Some (freeze l)), c')"
    using c'(3,5) assms(1) by (auto simp: restore_sliding_sync_list_def codec_ok_def dest: map_of_SomeD)
  let ?rf = "\<lparr>restored_to_device_token = next_batch_token m, restored_pos = sync_pos s,
      restored_rooms = map_values (from_frozen \<circ> freeze_room) (sync_rooms s)\<rparr>"
  have "restore_sliding_sync_state cd ?key names c' = (Inr (Some ?rf), c')"
    using assms(1,4) c'(2,3) ik restored_rooms_eq [OF assms(5,6)]
    by (cases "next_batch_token m")
      (simp_all add: restore_sliding_sync_state_def codec_ok_def frozen_sliding_sync_new_def)
  with stored lists_restored show ?thesis
    by (intro exI [of _ "s\<lparr>sync_client := c'\<rparr>"] exI [of _ ?rf]) simp
qed

definition example_cached_list :: "nat list_builder" where
  "example_cached_list = (list_builder_new ''rooms'')\<lparr>lb_cache_policy := CacheEnabled, lb_reloaded := Some (Some 7)\<rparr>"

definition example_stored :: "(nat, nat, nat, example_blob, nat) sliding_sync" where
  "example_stored =
     (example_sync [example_cached_list])\<lparr>sync_pos := Some ''p9'',
        sync_rooms := [(''!a'', sliding_sync_room_new ''!a'' (Some ''back'') [1..<13])]\<rparr>"

theorem cached_state_restored_witness:
  "\<exists>s' rf. store_sliding_sync_state example_codec example_stored = (Inr (), s') \<and>
     restore_sliding_sync_state example_codec ''key'' [] (sync_client s') = (Inr (Some rf), sync_client s') \<and>
     restored_pos rf = Some ''p9'' \<and>
     restored_rooms rf = [(''!a'', \<lparr>room_id = ''!a'', room_state = RoomPreloaded, room_prev_batch = None,
                                     timeline_queue = [3..<13]\<rparr>)] \<and>
     restore_sliding_sync_list example_codec ''key'' ''rooms'' (sync_client s') = (Inr (Some (Some 7)), sync_client s')"
proof -
  let ?m = "\<lparr>crypto_values = Map.empty, crypto_error = None, next_batch_token = None, all_users_dirty = False\<rparr>
      :: (example_blob, nat) olm_machine"
  have "\<exists>s' rf. store_sliding_sync_state example_codec example_stored = (Inr (), s') \<and>
     restore_sliding_sync_state example_codec (storage_key example_stored) [] (sync_client s') = (Inr (Some rf), sync_client s') \<and>
     restored_pos rf = sync_pos example_stored \<and> restored_to_device_token rf = next_batch_token ?m \<and>
     restored_rooms rf = map_values (from_frozen \<circ> freeze_room) (sync_rooms example_stored) \<and>
     (\<forall>name l. map_of (sync_lists example_stored) name = Some l \<and> list_cache_policy l = CacheEnabled \<longrightarrow>
        restore_sliding_sync_list example_codec (storage_key example_stored) name (sync_client s')
          = (Inr (Some (freeze l)), sync_client s'))"
    by (rule cached_state_restored [where m = ?m])
      (simp_all add: codec_ok_def example_codec_def example_stored_def example_sync_def example_client_def
        sliding_sync_room_new_def)
  then obtain s' rf where r: "store_sliding_sync_state example_codec example_stored = (Inr (), s')"
    "restore_sliding_sync_state example_codec (storage_key example_stored) [] (sync_client s') = (Inr (Some rf), sync_client s')"
    "restored_pos rf = sync_pos example_stored"
    "restored_rooms rf = map_values (from_frozen \<circ> freeze_room) (sync_rooms example_stored)"
    "\<And>name l. map_of (sync_lists example_stored) name = Some l \<Longrightarrow> list_cache_policy l = CacheEnabled \<Longrightarrow>
        restore_sliding_sync_list example_codec (storage_key example_stored) name (sync_client s')
          = (Inr (Some (freeze l)), sync_client s')" by blast
  have l: "map_of (sync_lists example_stored) ''rooms'' = Some (list_build example_cached_list)"
    "list_cache_policy (list_build example_cached_list) = CacheEnabled" "freeze (list_build example_cached_list) = Some 7"
    by (simp_all add: example_stored_def example_sync_def example_cached_list_def list_builder_new_def list_build_def
        freeze_def)
  have rooms: "map_values (from_frozen \<circ> freeze_room) (sync_rooms example_stored) =
      [(''!a'', \<lparr>room_id = ''!a'', room_state = RoomPreloaded, room_prev_batch = None, timeline_queue = [3..<13]\<rparr>)]"
    by code_simp
  show ?thesis
    by (rule exI [of _ s'], rule exI [of _ rf])
      (use r(1-4) r(5) [OF l(1,2)] l(3) rooms in \<open>simp add: example_stored_def example_sync_def\<close>)
qed

section \<open>Expiry\<close>

lemma store_sliding_sync_state_keeps:
  "sync_lists (snd (store_sliding_sync_state cd s)) = sync_lists s"
  "sync_sticky (snd (store_sliding_sync_state cd s)) = sync_sticky s"
  "sync_pos (snd (store_sliding_sync_state cd s)) = sync_pos s"
  "share_pos (snd (store_sliding_sync_state cd s)) = share_pos s"
  by (simp_all add: store_sliding_sync_state_def Let_def split: prod.split sum.split)

text \<open>The parameters of a list as a request carries them.\<close>

definition carries :: "'f list_request \<Rightarrow> 'f list_sticky_parameters \<Rightarrow> bool" where
  "carries req d \<longleftrightarrow>
     req_required_state req = required_state d \<and> req_include_heroes req = include_heroes d \<and>
     req_filters req = list_filters d"

lemma next_request_carries:
  assumes "next_request fresh txn l = Done (Inr req, txn', l')" and "invalidated (list_sticky l)"
  shows "carries req (sticky_data (list_sticky l)) \<and> lazy_txn_id txn' \<noteq> None"
proof -
  obtain r g where g: "generate_next_ranges (list_maximum_number_of_rooms l) (list_generator l) = Done (r, g)"
    using assms(1) by (auto simp: next_request_def)
  with assms(1) obtain rs where "r = Inr rs" by (cases r) (auto simp: next_request_def)
  with assms g show ?thesis
    by (cases "lazy_txn_id txn")
      (auto simp: next_request_def build_list_request_def maybe_apply_def get_or_create_def list_sticky_apply_def
        carries_def Let_def)
qed

lemma collect_list_requests_carry:
  assumes "collect_list_requests fresh txn ls = Done (Inr (reqs, t), txn', ls')"
    and "\<forall>e \<in> set ls. invalidated (list_sticky (snd e))"
  shows "map fst reqs = map fst ls \<and>
         list_all2 (\<lambda>q e. carries (snd q) (sticky_data (list_sticky (snd e)))) reqs ls"
  using assms
proof (induction ls arbitrary: txn reqs t txn' ls')
  case (Cons e ls)
  obtain name l where e: "e = (name, l)" by (cases e)
  obtain r txn1 l1 where n: "next_request fresh txn l = Done (r, txn1, l1)"
    using Cons.prems(1) e by auto
  with Cons.prems(1) e obtain req where r: "r = Inr req" by (cases r) auto
  obtain r' ls1 where c: "collect_list_requests fresh txn1 ls = Done (r', txn', ls1)"
    using Cons.prems(1) e n r by auto
  with Cons.prems(1) e n r obtain reqs1 t1 where "r' = Inr (reqs1, t1)" "reqs = (name, req) # reqs1"
    by (cases r') auto
  with Cons.IH [of txn1 reqs1 t1 txn' ls1] Cons.prems(2) c e next_request_carries [OF n [unfolded r]]
  show ?case by simp
qed simp

lemma build_sync_request_fields:
  assumes "build_sync_request fresh txn reqs t p restored s = (req, s')"
  shows "req_lists req = reqs \<and> req_pos req = p \<and>
     req_room_subscriptions req =
       (if invalidated (sync_sticky s)
        then map (\<lambda>(room, _, x). (room, x)) (filter (\<lambda>(_, st, _). st = Pending)
               (room_subscriptions (sticky_data (sync_sticky s)))) else [])"
proof -
  obtain req0 txn0 m where a: "maybe_apply sync_sticky_apply fresh (sync_request_new\<lparr>req_conn_id := Some (sync_id s),
      req_pos := p, req_timeout := (if t then Some (poll_timeout s) else None), req_lists := reqs\<rparr>) txn (sync_sticky s)
      = (req0, txn0, m)" by (metis prod_cases3)
  then have r0: "req_lists req0 = reqs" "req_pos req0 = p"
    "req_room_subscriptions req0 =
       (if invalidated (sync_sticky s)
        then map (\<lambda>(room, _, x). (room, x)) (filter (\<lambda>(_, st, _). st = Pending)
               (room_subscriptions (sticky_data (sync_sticky s)))) else [])"
    by (auto simp: maybe_apply_def sync_sticky_apply_def sync_request_new_def Let_def split: if_splits prod.splits)
  from assms r0 show ?thesis
    unfolding build_sync_request_def Let_def a by (auto split: option.splits if_splits)
qed

lemma mark_users_dirty_sticky: "mark_users_dirty p s = (r, s') \<Longrightarrow> sync_sticky s' = sync_sticky s"
  by (auto simp: mark_users_dirty_def split: if_splits option.splits)

lemma finish_sync_request_Inr:
  assumes "finish_sync_request fresh txn reqs t restored s = (Inr req, s')" and "\<not> share_pos s"
  shows "req_lists req = reqs \<and> req_pos req = sync_pos s \<and>
     req_room_subscriptions req =
       (if invalidated (sync_sticky s)
        then map (\<lambda>(room, _, x). (room, x)) (filter (\<lambda>(_, st, _). st = Pending)
               (room_subscriptions (sticky_data (sync_sticky s)))) else [])"
proof -
  obtain r s2 where d: "mark_users_dirty (sync_pos s) s = (r, s2)" by fastforce
  obtain req2 s3 where b: "build_sync_request fresh txn reqs t (sync_pos s) restored s2 = (req2, s3)" by fastforce
  from assms d b have "req2 = req" by (cases r) (auto simp: finish_sync_request_def choose_pos_def)
  with build_sync_request_fields [OF b] mark_users_dirty_sticky [OF d] show ?thesis by simp
qed



end
