(* ===== verification/Qr_Code.thy ===== *)
theory Qr_Code
  imports Sdk_Prelude
begin

text \<open>
  The binary format of QR code verification (\<open>matrix-sdk-qrcode\<close>: \<open>types.rs\<close>, \<open>utils.rs\<close>,
  \<open>error.rs\<close>). A byte is an 8-bit word, a Rust string is the list of its UTF-8 bytes, and a public
  key is its 32 bytes; which byte strings are Ed25519 keys is decided by the argument \<open>valid_key\<close>.
  The decoder accepts exactly the encodings of well-formed data, and both directions are inverse to
  each other. The \<open>qrcode\<close> library that draws the code is a record of its functions.
\<close>

section \<open>Results and UTF-8\<close>


primrec result_bind :: "'e + 'a \<Rightarrow> ('a \<Rightarrow> 'e + 'b) \<Rightarrow> 'e + 'b" where
  "result_bind (Inl e) f = Inl e"
| "result_bind (Inr x) f = f x"

lemma result_bind_Inr_iff [simp]: "result_bind m f = Inr y \<longleftrightarrow> (\<exists>x. m = Inr x \<and> f x = Inr y)"
  by (cases m) auto

definition continuation :: "u8 \<Rightarrow> bool" where
  "continuation b = (0x80 \<le> b \<and> b \<le> 0xBF)"

text \<open>
  What \<open>String::from_utf8\<close> accepts: sequences of one to four bytes without overlong forms,
  surrogates, or values beyond \<open>U+10FFFF\<close>.
\<close>

fun utf8_valid :: "bytes \<Rightarrow> bool" where
  "utf8_valid [] = True"
| "utf8_valid (a # rest) =
     (if a < 0x80 then utf8_valid rest
      else if 0xC2 \<le> a \<and> a \<le> 0xDF then
        (case rest of b # rest' \<Rightarrow> continuation b \<and> utf8_valid rest' | _ \<Rightarrow> False)
      else if 0xE0 \<le> a \<and> a \<le> 0xEF then
        (case rest of
           b # c # rest' \<Rightarrow>
             (if a = 0xE0 then 0xA0 \<le> b \<and> b \<le> 0xBF
              else if a = 0xED then 0x80 \<le> b \<and> b \<le> 0x9F else continuation b) \<and>
             continuation c \<and> utf8_valid rest'
         | _ \<Rightarrow> False)
      else if 0xF0 \<le> a \<and> a \<le> 0xF4 then
        (case rest of
           b # c # d # rest' \<Rightarrow>
             (if a = 0xF0 then 0x90 \<le> b \<and> b \<le> 0xBF
              else if a = 0xF4 then 0x80 \<le> b \<and> b \<le> 0x8F else continuation b) \<and>
             continuation c \<and> continuation d \<and> utf8_valid rest'
         | _ \<Rightarrow> False)
      else False)"

section \<open>Data and errors\<close>

datatype decoding_error =
    ErrHeader | ErrUtf8 | ErrMode u8 | ErrRead | ErrSharedSecret nat | ErrVersion u8 | ErrKeys

datatype 'e encoding_error = ErrQr 'e | ErrFlowId

record verification_data =
  flow_id :: bytes
  first_master_key :: bytes
  second_master_key :: bytes
  vd_shared_secret :: bytes

record self_verification_data =
  sv_transaction_id :: bytes
  sv_master_key :: bytes
  sv_device_key :: bytes
  sv_shared_secret :: bytes

record self_verification_no_master_key =
  nm_transaction_id :: bytes
  nm_device_key :: bytes
  nm_master_key :: bytes
  nm_shared_secret :: bytes

datatype qr_verification_data =
    Verification verification_data
  | SelfVerification self_verification_data
  | SelfVerificationNoMasterKey self_verification_no_master_key

definition HEADER :: bytes where
  "HEADER = [0x4D, 0x41, 0x54, 0x52, 0x49, 0x58]"

definition VERSION :: u8 where
  "VERSION = 0x2"

definition MAX_MODE :: u8 where
  "MAX_MODE = 0x2"

definition MIN_SECRET_LEN :: nat where
  "MIN_SECRET_LEN = 8"

definition VERIFICATION_QR_MODE :: u8 where
  "VERIFICATION_QR_MODE = 0x00"

definition SELF_VERIFICATION_QR_MODE :: u8 where
  "SELF_VERIFICATION_QR_MODE = 0x01"

definition NO_MASTER_KEY_QR_MODE :: u8 where
  "NO_MASTER_KEY_QR_MODE = 0x02"

section \<open>Encoding\<close>

definition to_be_bytes :: "nat \<Rightarrow> bytes" where
  "to_be_bytes n = [of_nat (n div 256), of_nat (n mod 256)]"

definition to_bytes :: "u8 \<Rightarrow> bytes \<Rightarrow> bytes \<Rightarrow> bytes \<Rightarrow> bytes \<Rightarrow> 'e encoding_error + bytes" where
  "to_bytes mode flow first_key second_key shared_secret =
     (if 2 ^ 16 \<le> length flow then Inl ErrFlowId
      else Inr (concat [HEADER, [VERSION], [mode], to_be_bytes (length flow), flow, first_key, second_key,
                        shared_secret]))"

definition verification_data_to_bytes :: "verification_data \<Rightarrow> 'e encoding_error + bytes" where
  "verification_data_to_bytes v =
     to_bytes VERIFICATION_QR_MODE (flow_id v) (first_master_key v) (second_master_key v) (vd_shared_secret v)"

definition self_verification_data_to_bytes :: "self_verification_data \<Rightarrow> 'e encoding_error + bytes" where
  "self_verification_data_to_bytes v =
     to_bytes SELF_VERIFICATION_QR_MODE (sv_transaction_id v) (sv_master_key v) (sv_device_key v) (sv_shared_secret v)"

definition no_master_key_to_bytes :: "self_verification_no_master_key \<Rightarrow> 'e encoding_error + bytes" where
  "no_master_key_to_bytes v =
     to_bytes NO_MASTER_KEY_QR_MODE (nm_transaction_id v) (nm_device_key v) (nm_master_key v) (nm_shared_secret v)"

fun qr_to_bytes :: "qr_verification_data \<Rightarrow> 'e encoding_error + bytes" where
  "qr_to_bytes (Verification v) = verification_data_to_bytes v"
| "qr_to_bytes (SelfVerification v) = self_verification_data_to_bytes v"
| "qr_to_bytes (SelfVerificationNoMasterKey v) = no_master_key_to_bytes v"

text \<open>The functions of the \<open>qrcode\<close> library that draw a code; their errors have type \<open>'e\<close>.\<close>

record ('b, 'c, 'e) qrcode_library =
  bits_new :: 'b
  push_byte_data :: "bytes \<Rightarrow> 'b \<Rightarrow> 'e + 'b"
  push_terminator :: "'b \<Rightarrow> 'e + 'b"
  with_bits :: "'b \<Rightarrow> 'e + 'c"

definition to_qr_code ::
  "('b, 'c, 'e) qrcode_library \<Rightarrow> u8 \<Rightarrow> bytes \<Rightarrow> bytes \<Rightarrow> bytes \<Rightarrow> bytes \<Rightarrow> 'e encoding_error + 'c" where
  "to_qr_code qr mode flow first_key second_key shared_secret =
     result_bind (to_bytes mode flow first_key second_key shared_secret) (\<lambda>data.
       map_sum ErrQr id
         (result_bind (push_byte_data qr data (bits_new qr)) (\<lambda>bits.
          result_bind (push_terminator qr bits) (\<lambda>bits. with_bits qr bits))))"

definition verification_data_to_qr_code ::
  "('b, 'c, 'e) qrcode_library \<Rightarrow> verification_data \<Rightarrow> 'e encoding_error + 'c" where
  "verification_data_to_qr_code qr v =
     to_qr_code qr VERIFICATION_QR_MODE (flow_id v) (first_master_key v) (second_master_key v) (vd_shared_secret v)"

definition self_verification_data_to_qr_code ::
  "('b, 'c, 'e) qrcode_library \<Rightarrow> self_verification_data \<Rightarrow> 'e encoding_error + 'c" where
  "self_verification_data_to_qr_code qr v =
     to_qr_code qr SELF_VERIFICATION_QR_MODE (sv_transaction_id v) (sv_master_key v) (sv_device_key v)
       (sv_shared_secret v)"

definition no_master_key_to_qr_code ::
  "('b, 'c, 'e) qrcode_library \<Rightarrow> self_verification_no_master_key \<Rightarrow> 'e encoding_error + 'c" where
  "no_master_key_to_qr_code qr v =
     to_qr_code qr NO_MASTER_KEY_QR_MODE (nm_transaction_id v) (nm_device_key v) (nm_master_key v)
       (nm_shared_secret v)"

fun qr_to_qr_code :: "('b, 'c, 'e) qrcode_library \<Rightarrow> qr_verification_data \<Rightarrow> 'e encoding_error + 'c" where
  "qr_to_qr_code qr (Verification v) = verification_data_to_qr_code qr v"
| "qr_to_qr_code qr (SelfVerification v) = self_verification_data_to_qr_code qr v"
| "qr_to_qr_code qr (SelfVerificationNoMasterKey v) = no_master_key_to_qr_code qr v"

section \<open>Decoding\<close>

text \<open>The cursor is what is left to read.\<close>

definition read_exact :: "nat \<Rightarrow> bytes \<Rightarrow> decoding_error + bytes \<times> bytes" where
  "read_exact n bs = (if length bs < n then Inl ErrRead else Inr (take n bs, drop n bs))"

definition read_u8 :: "bytes \<Rightarrow> decoding_error + u8 \<times> bytes" where
  "read_u8 bs = (case bs of [] \<Rightarrow> Inl ErrRead | b # rest \<Rightarrow> Inr (b, rest))"

definition read_u16 :: "bytes \<Rightarrow> decoding_error + nat \<times> bytes" where
  "read_u16 bs = (case bs of a # b # rest \<Rightarrow> Inr (unat a * 256 + unat b, rest) | _ \<Rightarrow> Inl ErrRead)"

definition key_from_slice :: "(bytes \<Rightarrow> bool) \<Rightarrow> bytes \<Rightarrow> decoding_error + bytes" where
  "key_from_slice valid_key k = (if valid_key k then Inr k else Inl ErrKeys)"

definition qr_new :: "u8 \<Rightarrow> bytes \<Rightarrow> bytes \<Rightarrow> bytes \<Rightarrow> bytes \<Rightarrow> decoding_error + qr_verification_data" where
  "qr_new mode flow first_key second_key shared_secret =
     (if \<not> utf8_valid flow then Inl ErrUtf8
      else if mode = VERIFICATION_QR_MODE then
        Inr (Verification \<lparr>flow_id = flow, first_master_key = first_key, second_master_key = second_key,
                           vd_shared_secret = shared_secret\<rparr>)
      else if mode = SELF_VERIFICATION_QR_MODE then
        Inr (SelfVerification \<lparr>sv_transaction_id = flow, sv_master_key = first_key, sv_device_key = second_key,
                               sv_shared_secret = shared_secret\<rparr>)
      else if mode = NO_MASTER_KEY_QR_MODE then
        Inr (SelfVerificationNoMasterKey \<lparr>nm_transaction_id = flow, nm_device_key = first_key,
               nm_master_key = second_key, nm_shared_secret = shared_secret\<rparr>)
      else Inl (ErrMode mode))"

definition decode_bytes :: "(bytes \<Rightarrow> bool) \<Rightarrow> bytes \<Rightarrow> decoding_error + qr_verification_data" where
  "decode_bytes valid_key bs =
     result_bind (read_exact 6 bs) (\<lambda>(header, bs).
     result_bind (read_u8 bs) (\<lambda>(version, bs).
     result_bind (read_u8 bs) (\<lambda>(mode, bs).
     if header \<noteq> HEADER then Inl ErrHeader
     else if version \<noteq> VERSION then Inl (ErrVersion version)
     else if MAX_MODE < mode then Inl (ErrMode mode)
     else
       result_bind (read_u16 bs) (\<lambda>(flow_id_len, bs).
       result_bind (read_exact flow_id_len bs) (\<lambda>(flow, bs).
       result_bind (read_exact 32 bs) (\<lambda>(first_key, bs).
       result_bind (read_exact 32 bs) (\<lambda>(second_key, shared_secret).
       if length shared_secret < MIN_SECRET_LEN then Inl (ErrSharedSecret (length shared_secret))
       else
         result_bind (key_from_slice valid_key first_key) (\<lambda>first_key.
         result_bind (key_from_slice valid_key second_key) (\<lambda>second_key.
         qr_new mode flow first_key second_key shared_secret)))))))))"

fun qr_flow_id :: "qr_verification_data \<Rightarrow> bytes" where
  "qr_flow_id (Verification v) = flow_id v"
| "qr_flow_id (SelfVerification v) = sv_transaction_id v"
| "qr_flow_id (SelfVerificationNoMasterKey v) = nm_transaction_id v"

fun qr_first_key :: "qr_verification_data \<Rightarrow> bytes" where
  "qr_first_key (Verification v) = first_master_key v"
| "qr_first_key (SelfVerification v) = sv_master_key v"
| "qr_first_key (SelfVerificationNoMasterKey v) = nm_device_key v"

fun qr_second_key :: "qr_verification_data \<Rightarrow> bytes" where
  "qr_second_key (Verification v) = second_master_key v"
| "qr_second_key (SelfVerification v) = sv_device_key v"
| "qr_second_key (SelfVerificationNoMasterKey v) = nm_master_key v"

fun qr_secret :: "qr_verification_data \<Rightarrow> bytes" where
  "qr_secret (Verification v) = vd_shared_secret v"
| "qr_secret (SelfVerification v) = sv_shared_secret v"
| "qr_secret (SelfVerificationNoMasterKey v) = nm_shared_secret v"

section \<open>Encoding and decoding are inverse\<close>

text \<open>What the types of the fields guarantee, and the bounds the format adds.\<close>

definition qr_ok :: "(bytes \<Rightarrow> bool) \<Rightarrow> qr_verification_data \<Rightarrow> bool" where
  "qr_ok valid_key d \<longleftrightarrow>
     utf8_valid (qr_flow_id d) \<and> length (qr_flow_id d) < 2 ^ 16 \<and>
     length (qr_first_key d) = 32 \<and> valid_key (qr_first_key d) \<and>
     length (qr_second_key d) = 32 \<and> valid_key (qr_second_key d) \<and>
     MIN_SECRET_LEN \<le> length (qr_secret d)"

fun qr_mode :: "qr_verification_data \<Rightarrow> u8" where
  "qr_mode (Verification v) = VERIFICATION_QR_MODE"
| "qr_mode (SelfVerification v) = SELF_VERIFICATION_QR_MODE"
| "qr_mode (SelfVerificationNoMasterKey v) = NO_MASTER_KEY_QR_MODE"

lemmas qr_modes = VERIFICATION_QR_MODE_def SELF_VERIFICATION_QR_MODE_def NO_MASTER_KEY_QR_MODE_def MAX_MODE_def

lemma qr_to_bytes_mode:
  "qr_to_bytes d = to_bytes (qr_mode d) (qr_flow_id d) (qr_first_key d) (qr_second_key d) (qr_secret d)"
  by (cases d) (simp_all add: verification_data_to_bytes_def self_verification_data_to_bytes_def
      no_master_key_to_bytes_def)

lemma qr_new_mode:
  "utf8_valid (qr_flow_id d) \<Longrightarrow>
   qr_new (qr_mode d) (qr_flow_id d) (qr_first_key d) (qr_second_key d) (qr_secret d) = Inr d"
  by (cases d) (simp_all add: qr_new_def qr_modes)

lemma qr_new_Inr:
  "qr_new mode flow k1 k2 secret = Inr d \<Longrightarrow>
   utf8_valid flow \<and> qr_mode d = mode \<and> qr_flow_id d = flow \<and> qr_first_key d = k1 \<and> qr_second_key d = k2 \<and>
   qr_secret d = secret"
  by (auto simp: qr_new_def split: if_splits)

lemma read_exact_append [simp]: "length a = n \<Longrightarrow> read_exact n (a @ bs) = Inr (a, bs)"
  by (simp add: read_exact_def)

lemma read_exact_Inr: "read_exact n bs = Inr (a, rest) \<longleftrightarrow> bs = a @ rest \<and> length a = n"
  by (auto simp: read_exact_def split: if_splits)

lemma read_u16_be [simp]: "n < 2 ^ 16 \<Longrightarrow> read_u16 (to_be_bytes n @ bs) = Inr (n, bs)"
  by (simp add: read_u16_def to_be_bytes_def unat_of_nat)

lemma read_u16_Inr: "read_u16 bs = Inr (n, rest) \<longleftrightarrow> bs = to_be_bytes n @ rest \<and> n < 2 ^ 16"
proof
  assume "read_u16 bs = Inr (n, rest)"
  then obtain a b where bs: "bs = a # b # rest" and n: "n = unat a * 256 + unat b"
    by (auto simp: read_u16_def split: list.splits)
  have bounds: "unat a < 256" "unat b < 256" using unsigned_less [of a] unsigned_less [of b] by simp_all
  have "n div 256 = unat a" "n mod 256 = unat b" using n bounds by simp_all
  with bs n bounds show "bs = to_be_bytes n @ rest \<and> n < 2 ^ 16" by (simp add: to_be_bytes_def)
qed auto

lemma decode_bytes_Inr:
  "decode_bytes valid_key bs = Inr d \<longleftrightarrow>
     (\<exists>mode flow k1 k2 secret.
        bs = HEADER @ [VERSION, mode] @ to_be_bytes (length flow) @ flow @ k1 @ k2 @ secret \<and>
        mode \<le> MAX_MODE \<and> length flow < 2 ^ 16 \<and> length k1 = 32 \<and> length k2 = 32 \<and>
        MIN_SECRET_LEN \<le> length secret \<and> valid_key k1 \<and> valid_key k2 \<and> qr_new mode flow k1 k2 secret = Inr d)"
  (is "_ \<longleftrightarrow> (\<exists>mode flow k1 k2 secret. ?R mode flow k1 k2 secret)")
proof
  assume "decode_bytes valid_key bs = Inr d"
  then obtain header bs1 version bs2 mode bs3 flen bs4 flow bs5 k1 bs6 k2 secret where r:
    "read_exact 6 bs = Inr (header, bs1)" "read_u8 bs1 = Inr (version, bs2)" "read_u8 bs2 = Inr (mode, bs3)"
    "header = HEADER" "version = VERSION" "\<not> MAX_MODE < mode" "read_u16 bs3 = Inr (flen, bs4)"
    "read_exact flen bs4 = Inr (flow, bs5)" "read_exact 32 bs5 = Inr (k1, bs6)" "read_exact 32 bs6 = Inr (k2, secret)"
    "\<not> length secret < MIN_SECRET_LEN" "valid_key k1" "valid_key k2" "qr_new mode flow k1 k2 secret = Inr d"
    unfolding decode_bytes_def key_from_slice_def by (auto split: if_splits)
  then have "?R mode flow k1 k2 secret"
    by (auto simp: read_exact_Inr read_u16_Inr read_u8_def split: list.splits)
  then show "\<exists>mode flow k1 k2 secret. ?R mode flow k1 k2 secret" by blast
next
  assume "\<exists>mode flow k1 k2 secret. ?R mode flow k1 k2 secret"
  then obtain mode flow k1 k2 secret where "?R mode flow k1 k2 secret" by blast
  moreover have "length HEADER = 6" by (simp add: HEADER_def)
  ultimately show "decode_bytes valid_key bs = Inr d"
    by (simp add: decode_bytes_def read_u8_def key_from_slice_def flip: not_le)
qed

lemma to_bytes_Inr:
  "to_bytes mode flow k1 k2 secret = Inr bs \<longleftrightarrow>
     length flow < 2 ^ 16 \<and> bs = HEADER @ [VERSION, mode] @ to_be_bytes (length flow) @ flow @ k1 @ k2 @ secret"
  by (auto simp: to_bytes_def)

text \<open>C34. The decoder answers verification data for a byte string exactly when the byte
  string is the encoding of these data and they are well-formed: a flow identifier in UTF-8 of at most
  65535 bytes, two valid keys, and a shared secret of at least eight bytes. So every well-formed code
  can be read back, and no other byte string is accepted.\<close>

theorem qr_decode_iff_encoding:
  "decode_bytes valid_key bs = Inr d \<longleftrightarrow> qr_ok valid_key d \<and> qr_to_bytes d = (Inr bs :: 'e encoding_error + bytes)"
proof
  assume "decode_bytes valid_key bs = Inr d"
  then show "qr_ok valid_key d \<and> qr_to_bytes d = (Inr bs :: 'e encoding_error + bytes)"
    unfolding decode_bytes_Inr by (auto simp: qr_ok_def qr_to_bytes_mode to_bytes_Inr dest!: qr_new_Inr)
next
  assume r: "qr_ok valid_key d \<and> qr_to_bytes d = (Inr bs :: 'e encoding_error + bytes)"
  have "qr_mode d \<le> MAX_MODE" by (cases d) (simp_all add: qr_modes)
  with r show "decode_bytes valid_key bs = Inr d"
    unfolding decode_bytes_Inr
    by (intro exI [of _ "qr_mode d"] exI [of _ "qr_flow_id d"] exI [of _ "qr_first_key d"]
        exI [of _ "qr_second_key d"] exI [of _ "qr_secret d"])
      (simp add: qr_ok_def qr_to_bytes_mode to_bytes_Inr qr_new_mode)
qed


end
