(* ===== verification/Failures_Cache.thy ===== *)
theory Failures_Cache
  imports Sdk_Prelude
begin

text \<open>
  The cache of failures with exponential backoff (\<open>matrix-sdk-common/src/failures_cache.rs\<close>). Instants
  and durations are natural numbers of nanoseconds; the clock is an argument of the operations that
  read it. The hash map is a map. The lemmas give the delays of the backoff and how long a key stays
  in the cache.
\<close>

section \<open>Operations\<close>

definition from_secs :: "u64 \<Rightarrow> nat" where
  "from_secs s = unat s * 10 ^ 9"

definition MAX_DELAY :: u64 where
  "MAX_DELAY = 15 * 60"

definition MULTIPLIER :: u64 where
  "MULTIPLIER = 15"

record failures_item =
  insertion_time :: nat
  duration :: nat
  item_failure_count :: u8

record 'k failures_cache =
  max_delay :: nat
  backoff_multiplier :: u64
  failure_items :: "'k \<rightharpoonup> failures_item"

definition failures_cache_new :: "'k failures_cache" where
  "failures_cache_new =
     \<lparr>max_delay = from_secs MAX_DELAY, backoff_multiplier = MULTIPLIER, failure_items = Map.empty\<rparr>"

definition with_settings :: "nat \<Rightarrow> u8 \<Rightarrow> 'k failures_cache" where
  "with_settings d m = \<lparr>max_delay = d, backoff_multiplier = ucast m, failure_items = Map.empty\<rparr>"

definition expired :: "nat \<Rightarrow> failures_item \<Rightarrow> bool" where
  "expired now item = (duration item \<le> now - insertion_time item)"

definition expire_item :: "failures_item \<Rightarrow> failures_item" where
  "expire_item item = item\<lparr>duration := 0\<rparr>"

definition cache_contains :: "nat \<Rightarrow> 'k \<Rightarrow> 'k failures_cache \<Rightarrow> bool" where
  "cache_contains now k c = (case failure_items c k of Some item \<Rightarrow> \<not> expired now item | None \<Rightarrow> False)"

definition failure_count :: "'k \<Rightarrow> 'k failures_cache \<Rightarrow> u8 option" where
  "failure_count k c = map_option item_failure_count (failure_items c k)"

definition saturating_pow :: "u64 \<Rightarrow> nat \<Rightarrow> u64" where
  "saturating_pow b n = (if unat b ^ n < 2 ^ 64 then b ^ n else - 1)"

definition saturating_mul :: "u64 \<Rightarrow> u64 \<Rightarrow> u64" where
  "saturating_mul a b = (if unat a * unat b < 2 ^ 64 then a * b else - 1)"

text \<open>\<open>Ord::clamp\<close> panics when the lower bound exceeds the upper one.\<close>

definition clamp :: "nat \<Rightarrow> nat \<Rightarrow> nat \<Rightarrow> nat run" where
  "clamp lo hi x = (if hi < lo then Panic else Done (max lo (min hi x)))"

definition calculate_delay :: "u8 \<Rightarrow> 'k failures_cache \<Rightarrow> nat run" where
  "calculate_delay n c =
     (let exponential_backoff = saturating_pow 2 (unat n);
          delay = saturating_mul exponential_backoff (backoff_multiplier c)
      in clamp (from_secs 1) (max_delay c) (from_secs delay))"

fun cache_extend :: "nat \<Rightarrow> 'k list \<Rightarrow> 'k failures_cache \<Rightarrow> 'k failures_cache run" where
  "cache_extend now [] c = Done c"
| "cache_extend now (k # ks) c =
     (let n = (case failure_items c k of Some item \<Rightarrow> saturating_add (item_failure_count item) 1 | None \<Rightarrow> 0)
      in run_bind (calculate_delay n c) (\<lambda>delay.
         cache_extend now ks
           (c\<lparr>failure_items := (failure_items c)(k \<mapsto>
                \<lparr>insertion_time = now, duration = delay, item_failure_count = n\<rparr>)\<rparr>)))"

definition cache_insert :: "nat \<Rightarrow> 'k \<Rightarrow> 'k failures_cache \<Rightarrow> 'k failures_cache run" where
  "cache_insert now k c = cache_extend now [k] c"

definition cache_remove :: "'k list \<Rightarrow> 'k failures_cache \<Rightarrow> 'k failures_cache" where
  "cache_remove ks c = c\<lparr>failure_items := (failure_items c) |` (- set ks)\<rparr>"

definition cache_expire :: "'k \<Rightarrow> 'k failures_cache \<Rightarrow> 'k failures_cache" where
  "cache_expire k c =
     (case failure_items c k of
        Some item \<Rightarrow> c\<lparr>failure_items := (failure_items c)(k \<mapsto> expire_item item)\<rparr>
      | None \<Rightarrow> c)"

section \<open>The backoff\<close>

lemma unat_saturating_mul: "unat (saturating_mul a b) = min (unat a * unat b) (2 ^ 64 - 1)"
  by (auto simp: saturating_mul_def unat_word_ariths unat_max_word min_def)

lemma unat_pow_u64: "unat b ^ n < 2 ^ 64 \<Longrightarrow> unat (b ^ n :: u64) = unat b ^ n"
proof (induction n)
  case (Suc n)
  show ?case
  proof (cases "unat b = 0")
    case True
    then show ?thesis by (simp add: unat_eq_zero)
  next
    case False
    then have "unat b ^ n \<le> unat b ^ Suc n" by simp
    with Suc have "unat (b ^ n) = unat b ^ n" by linarith
    with Suc.prems show ?thesis by (simp add: unat_word_ariths)
  qed
qed simp

lemma unat_saturating_pow: "unat (saturating_pow b n) = min (unat b ^ n) (2 ^ 64 - 1)"
  by (auto simp: saturating_pow_def unat_pow_u64 unat_max_word min_def)

text \<open>The delay after \<open>n\<close> further failures, without the limits of the machine integers.\<close>

definition ideal_delay :: "nat \<Rightarrow> nat \<Rightarrow> nat \<Rightarrow> nat" where
  "ideal_delay limit m n = max (10 ^ 9) (min limit (2 ^ n * m * 10 ^ 9))"

lemma calculate_delay_ideal:
  assumes "10 ^ 9 \<le> max_delay c" and "max_delay c \<le> (2 ^ 64 - 1) * 10 ^ 9"
  shows "calculate_delay n c = Done (ideal_delay (max_delay c) (unat (backoff_multiplier c)) (unat n))"
proof -
  let ?m = "unat (backoff_multiplier c)" and ?M = "2 ^ 64 - 1 :: nat"
  let ?p = "min (2 ^ unat n) ?M" and ?lim = "max_delay c"
  have delay: "unat (saturating_mul (saturating_pow 2 (unat n)) (backoff_multiplier c)) = min (?p * ?m) ?M"
    by (simp add: unat_saturating_mul unat_saturating_pow)
  have "min ?lim (min (?p * ?m) ?M * 10 ^ 9) = min ?lim (2 ^ unat n * ?m * 10 ^ 9)"
  proof (cases "?m = 0 \<or> 2 ^ unat n * ?m \<le> ?M")
    case True
    have "?p * ?m = 2 ^ unat n * ?m" if "?m \<noteq> 0"
    proof -
      have "2 ^ unat n * 1 \<le> 2 ^ unat n * ?m" using that by (intro mult_le_mono2) simp
      with True that have "2 ^ unat n \<le> ?M" by linarith
      then show ?thesis by simp
    qed
    with True show ?thesis by (cases "?m = 0") simp_all
  next
    case False
    have "?M \<le> ?p * ?m"
    proof (cases "2 ^ unat n \<le> ?M")
      case True
      with False show ?thesis by simp
    next
      case big: False
      then have "?p = ?M" by simp
      moreover have "?M * 1 \<le> ?M * ?m" using False by (intro mult_le_mono2) simp
      ultimately show ?thesis by simp
    qed
    then have a: "min (?p * ?m) ?M = ?M" by (rule min_absorb2)
    have "?M * 10 ^ 9 \<le> 2 ^ unat n * ?m * 10 ^ 9" using False by (intro mult_le_mono1) linarith
    with assms(2) have "?lim \<le> 2 ^ unat n * ?m * 10 ^ 9" by (rule order_trans)
    then show ?thesis unfolding a using assms(2) by simp
  qed
  with assms(1) show ?thesis
    by (simp add: calculate_delay_def clamp_def from_secs_def delay ideal_delay_def Let_def)
qed

fun fail_at :: "'k \<Rightarrow> nat list \<Rightarrow> 'k failures_cache \<Rightarrow> 'k failures_cache run" where
  "fail_at k [] c = Done c"
| "fail_at k (t # ts) c = run_bind (cache_insert t k c) (fail_at k ts)"

definition settings_ok :: "'k failures_cache \<Rightarrow> bool" where
  "settings_ok c \<longleftrightarrow> 10 ^ 9 \<le> max_delay c \<and> max_delay c \<le> (2 ^ 64 - 1) * 10 ^ 9"

text \<open>The count of failures of a key, which stops at 255.\<close>

definition capped :: "nat \<Rightarrow> u8" where
  "capped n = of_nat (min n 255)"

lemma unat_capped [simp]: "unat (capped n) = min n 255"
proof -
  have "min n 255 mod 2 ^ 8 = min n 255" by (intro mod_less) simp
  then show ?thesis unfolding capped_def unat_of_nat by simp
qed

lemma capped_0 [simp]: "capped 0 = 0"
  by (simp add: capped_def)

lemma next_count: "saturating_add (capped n) 1 = capped (Suc n)"
  by (simp add: word_unat_eq_iff unat_saturating_add)

lemma fail_at_item:
  assumes "settings_ok c" and "failure_items c k = Some \<lparr>insertion_time = t, duration = d, item_failure_count = capped n\<rparr>"
    and "d = ideal_delay (max_delay c) (unat (backoff_multiplier c)) (min n 255)"
  shows "\<exists>c'. fail_at k ts c = Done c' \<and> max_delay c' = max_delay c \<and>
      backoff_multiplier c' = backoff_multiplier c \<and> (\<forall>q. q \<noteq> k \<longrightarrow> failure_items c' q = failure_items c q) \<and>
      failure_items c' k = Some \<lparr>insertion_time = last (t # ts),
        duration = ideal_delay (max_delay c) (unat (backoff_multiplier c)) (min (n + length ts) 255),
        item_failure_count = capped (n + length ts)\<rparr>"
  using assms
proof (induction ts arbitrary: c t d n)
  case (Cons t' ts)
  let ?n = "capped (Suc n)"
  let ?d = "ideal_delay (max_delay c) (unat (backoff_multiplier c)) (min (Suc n) 255)"
  let ?item = "\<lparr>insertion_time = t', duration = ?d, item_failure_count = ?n\<rparr>"
  let ?c = "c\<lparr>failure_items := (failure_items c)(k \<mapsto> ?item)\<rparr>"
  have "calculate_delay ?n c = Done ?d"
    using calculate_delay_ideal [of c ?n] Cons.prems(1) by (simp add: settings_ok_def)
  then have "cache_insert t' k c = Done ?c"
    using Cons.prems(2) by (simp add: cache_insert_def next_count Let_def)
  moreover have "settings_ok ?c" using Cons.prems(1) by (simp add: settings_ok_def)
  ultimately show ?case
    using Cons.IH [of ?c t' ?d "Suc n"] by auto
qed simp

text \<open>C35. Let a key fail at the given instants, with nothing removed in between. The cache then
  holds it until the last failure is as old as the backoff says: the multiplier times two to the
  number of earlier failures, at least a second and at most the maximal delay, computed without
  overflow; the count of failures stops at 255 and other keys are not touched. With the default
  settings the delays are 15, 30, 60, 120, 240, 480 and then 900 seconds.\<close>

theorem backoff_schedule:
  assumes "settings_ok c" and "failure_items c k = None" and "ts \<noteq> []"
  shows "(\<exists>c'. fail_at k ts c = Done c' \<and>
      failure_count k c' = Some (capped (length ts - 1)) \<and>
      (\<forall>now. cache_contains now k c' \<longleftrightarrow>
         now - last ts < ideal_delay (max_delay c) (unat (backoff_multiplier c)) (min (length ts - 1) 255)) \<and>
      (\<forall>q now. q \<noteq> k \<longrightarrow> cache_contains now q c' = cache_contains now q c)) \<and>
    map (\<lambda>n. ideal_delay (from_secs MAX_DELAY) (unat MULTIPLIER) n div 10 ^ 9) [0..<8] =
      [15, 30, 60, 120, 240, 480, 900, 900]"
proof
  obtain t ts' where ts: "ts = t # ts'" using assms(3) by (cases ts) auto
  let ?d = "ideal_delay (max_delay c) (unat (backoff_multiplier c)) 0"
  let ?c = "c\<lparr>failure_items := (failure_items c)(k \<mapsto> \<lparr>insertion_time = t, duration = ?d, item_failure_count = 0\<rparr>)\<rparr>"
  have "calculate_delay 0 c = Done ?d"
    using calculate_delay_ideal [of c 0] assms(1) by (simp add: settings_ok_def)
  then have "cache_insert t k c = Done ?c" using assms(2) by (simp add: cache_insert_def)
  moreover have "settings_ok ?c" using assms(1) by (simp add: settings_ok_def)
  ultimately obtain c' where run: "fail_at k ts c = Done c'"
    and other: "\<forall>q. q \<noteq> k \<longrightarrow> failure_items c' q = failure_items ?c q"
    and item: "failure_items c' k = Some \<lparr>insertion_time = last ts,
        duration = ideal_delay (max_delay c) (unat (backoff_multiplier c)) (min (length ts - 1) 255),
        item_failure_count = capped (length ts - 1)\<rparr>"
    using fail_at_item [of ?c k t ?d 0 ts'] unfolding ts by auto
  show "\<exists>c'. fail_at k ts c = Done c' \<and>
      failure_count k c' = Some (capped (length ts - 1)) \<and>
      (\<forall>now. cache_contains now k c' \<longleftrightarrow>
         now - last ts < ideal_delay (max_delay c) (unat (backoff_multiplier c)) (min (length ts - 1) 255)) \<and>
      (\<forall>q now. q \<noteq> k \<longrightarrow> cache_contains now q c' = cache_contains now q c)"
    by (rule exI [of _ c']) (simp add: run item other failure_count_def cache_contains_def expired_def not_le)
next
  show "map (\<lambda>n. ideal_delay (from_secs MAX_DELAY) (unat MULTIPLIER) n div 10 ^ 9) [0..<8] =
      [15, 30, 60, 120, 240, 480, 900, 900]"
    by (simp add: upt_rec ideal_delay_def from_secs_def MAX_DELAY_def MULTIPLIER_def)
qed

theorem backoff_schedule_witness:
  "\<exists>c'. fail_at ''server'' [5, 7, 9] failures_cache_new = Done c' \<and> failure_count ''server'' c' = Some 2 \<and>
     \<not> cache_contains (60 * 10 ^ 9 + 9) ''server'' c' \<and> cache_contains (60 * 10 ^ 9) ''server'' c'"
proof -
  let ?new = "failures_cache_new :: string failures_cache"
  have ok: "settings_ok ?new"
    by (simp add: settings_ok_def failures_cache_new_def from_secs_def MAX_DELAY_def)
  have none: "failure_items ?new ''server'' = None" by (simp add: failures_cache_new_def)
  have "ideal_delay (max_delay ?new) (unat (backoff_multiplier ?new)) (Suc (Suc 0)) = 60 * 10 ^ 9"
    by (simp add: failures_cache_new_def from_secs_def MAX_DELAY_def MULTIPLIER_def ideal_delay_def)
  moreover have "capped (Suc (Suc 0)) = 2" by (simp add: capped_def)
  ultimately obtain c' where "fail_at ''server'' [5, 7, 9] ?new = Done c'"
    and "failure_count ''server'' c' = Some 2"
    and "\<forall>now. cache_contains now ''server'' c' \<longleftrightarrow> now - 9 < 60 * 10 ^ 9"
    using conjunct1 [OF backoff_schedule [OF ok none, of "[5, 7, 9]"]] by (auto simp del: fail_at.simps)
  then show ?thesis by (intro exI [of _ c']) simp
qed

text \<open>The settings accept a maximal delay below one second, with which the first
  failure panics, since the delay is clamped between one second and the maximal delay.\<close>

theorem small_max_delay_panics:
  "d < from_secs 1 \<Longrightarrow> cache_insert now k (with_settings d m) = Panic"
  by (simp add: cache_insert_def with_settings_def calculate_delay_def clamp_def Let_def)

theorem small_max_delay_panics_witness:
  "cache_insert 0 ''server'' (with_settings (5 * 10 ^ 8) 15) = Panic"
  by (rule small_max_delay_panics) (simp add: from_secs_def)

end
