(* ===== verification/Key_Query.thy ===== *)
theory Key_Query
  imports Failures_Cache Ordered_Map
begin

text \<open>
  Tracking of the users whose device lists are outdated, in \<open>matrix-sdk-crypto\<close>:
  \<open>SequenceNumber\<close> and \<open>UsersForKeyQuery\<close> (\<open>store/caches.rs\<close>), \<open>KeyQueryManager\<close> and
  \<open>SyncedKeyQueryManager\<close> (\<open>store/mod.rs\<close>), and the parts of \<open>IdentityManager\<close>
  (\<open>identities/manager.rs\<close>) that build the \<open>/keys/query\<close> requests and finish their responses.

  An \<open>i64\<close> is a 64-bit word with its signed reading. Hash maps are association lists and sets are
  sets; nothing depends on their order. A waiting task holds the only strong reference to its
  \<open>KeysQueryWaiter\<close>: the waiters are a map from addresses, an address without a waiter is a weak
  reference that cannot be upgraded. The crypto store is a record of its operations. Operations run
  one after another, as they do under the mutex of the users; a task that waits is a state of its own.
\<close>

section \<open>Sequence numbers\<close>

type_synonym i64 = "64 word"

datatype ordering = Less | Equal | Greater

definition sequence_cmp :: "i64 \<Rightarrow> i64 \<Rightarrow> ordering" where
  "sequence_cmp a b = (let d = sint (a - b) in if d < 0 then Less else if d = 0 then Equal else Greater)"

definition sequence_increment :: "i64 \<Rightarrow> i64" where
  "sequence_increment a = a + 1"

definition sequence_previous :: "i64 \<Rightarrow> i64" where
  "sequence_previous a = a - 1"

section \<open>Users waiting for a query\<close>

record 'u keys_query_waiter =
  waiter_user :: 'u
  waiter_sequence :: i64
  waiter_completed :: bool

type_synonym 'u waiters = "nat \<rightharpoonup> 'u keys_query_waiter"

record 'u users_for_key_query =
  next_sequence_number :: i64
  user_map :: "('u \<times> i64) list"
  tasks_awaiting_key_query :: "nat list"

definition users_for_key_query_new :: "'u users_for_key_query" where
  "users_for_key_query_new = \<lparr>next_sequence_number = 0, user_map = [], tasks_awaiting_key_query = []\<rparr>"

definition insert_user :: "'u \<Rightarrow> 'u users_for_key_query \<Rightarrow> 'u users_for_key_query" where
  "insert_user user k =
     (let sequence_number = next_sequence_number k in
      k\<lparr>user_map := AList.update user sequence_number (user_map k),
        next_sequence_number := sequence_increment (next_sequence_number k)\<rparr>)"

fun retain_waiters :: "'u \<Rightarrow> i64 \<Rightarrow> nat list \<Rightarrow> 'u waiters \<Rightarrow> nat list \<times> 'u waiters" where
  "retain_waiters user query_sequence [] h = ([], h)"
| "retain_waiters user query_sequence (i # is) h =
     (case h i of
        None \<Rightarrow> retain_waiters user query_sequence is h
      | Some waiter \<Rightarrow>
          if waiter_user waiter = user \<and> sequence_cmp (waiter_sequence waiter) query_sequence \<noteq> Greater then
            retain_waiters user query_sequence is (h(i \<mapsto> waiter\<lparr>waiter_completed := True\<rparr>))
          else
            (let (js, h) = retain_waiters user query_sequence is h in (i # js, h)))"

definition maybe_remove_user ::
  "'u \<Rightarrow> i64 \<Rightarrow> 'u users_for_key_query \<Rightarrow> 'u waiters \<Rightarrow> bool \<times> 'u users_for_key_query \<times> 'u waiters" where
  "maybe_remove_user user query_sequence k h =
     (let last_invalidation = map_of (user_map k) user;
          (ts, h) = retain_waiters user query_sequence (tasks_awaiting_key_query k) h;
          k = k\<lparr>tasks_awaiting_key_query := ts\<rparr>
      in case last_invalidation of
           Some last_invalidation \<Rightarrow>
             if sequence_cmp last_invalidation query_sequence = Greater then (False, k, h)
             else (True, k\<lparr>user_map := AList.delete user (user_map k)\<rparr>, h)
         | None \<Rightarrow> (True, k, h))"

definition fetch_users_for_key_query :: "'u users_for_key_query \<Rightarrow> 'u list \<times> i64" where
  "fetch_users_for_key_query k = (map fst (user_map k), sequence_previous (next_sequence_number k))"

text \<open>The address is where the new waiter is allocated.\<close>

definition maybe_register_waiting_task ::
  "'u \<Rightarrow> nat \<Rightarrow> 'u users_for_key_query \<Rightarrow> 'u waiters \<Rightarrow> nat option \<times> 'u users_for_key_query \<times> 'u waiters" where
  "maybe_register_waiting_task user i k h =
     (case map_of (user_map k) user of
        None \<Rightarrow> (None, k, h)
      | Some sequence_number \<Rightarrow>
          (Some i, k\<lparr>tasks_awaiting_key_query := tasks_awaiting_key_query k @ [i]\<rparr>,
           h(i \<mapsto> \<lparr>waiter_user = user, waiter_sequence = sequence_number, waiter_completed = False\<rparr>)))"

section \<open>The crypto store and its cache\<close>

record 'u tracked_user =
  tracked_user_id :: 'u
  tracked_dirty :: bool

text \<open>The operations of the crypto store on tracked users: \<open>'s\<close> is its state, \<open>'e\<close> its errors.\<close>

record ('u, 's, 'e) tracked_store =
  load_tracked_users :: "'s \<Rightarrow> 'e + 'u tracked_user list"
  save_tracked_users :: "('u \<times> bool) list \<Rightarrow> 's \<Rightarrow> ('e + unit) \<times> 's"

text \<open>The store in memory.\<close>

definition memory_load :: "('u \<times> 'u tracked_user) list \<Rightarrow> 'e + 'u tracked_user list" where
  "memory_load s = Inr (map snd s)"

definition memory_save ::
  "('u \<times> bool) list \<Rightarrow> ('u \<times> 'u tracked_user) list \<Rightarrow> ('e + unit) \<times> ('u \<times> 'u tracked_user) list" where
  "memory_save us s =
     (Inr (), fold (\<lambda>(u, dirty). AList.update u \<lparr>tracked_user_id = u, tracked_dirty = dirty\<rparr>) us s)"

definition memory_store :: "('u, ('u \<times> 'u tracked_user) list, 'e) tracked_store" where
  "memory_store = \<lparr>load_tracked_users = memory_load, save_tracked_users = memory_save\<rparr>"

datatype user_key_query_result = WasPending | WasNotPending | TimeoutExpired

text \<open>
  A task in \<open>wait_if_user_key_query_pending\<close> is asleep until it is notified, or notified and about to
  take the lock, or done; the first two keep its waiter alive.
\<close>

datatype waiting_task = Sleeping nat | Woken nat | Returned user_key_query_result

text \<open>The manager of key queries together with the part of the store's cache it works on.\<close>

record ('u, 's) key_query_manager =
  kq_users :: "'u users_for_key_query"
  kq_waiters :: "'u waiters"
  kq_next_waiter :: nat
  kq_tasks :: "nat \<rightharpoonup> waiting_task"
  tracked_users :: "'u set"
  loaded_tracked_users :: bool
  crypto_store :: 's

fun load_users :: "'u tracked_user list \<Rightarrow> ('u, 's, 'z) key_query_manager_scheme \<Rightarrow> ('u, 's, 'z) key_query_manager_scheme" where
  "load_users [] m = m"
| "load_users (user # us) m =
     load_users us
       (let m = m\<lparr>tracked_users := insert (tracked_user_id user) (tracked_users m)\<rparr> in
        if tracked_dirty user then m\<lparr>kq_users := insert_user (tracked_user_id user) (kq_users m)\<rparr> else m)"

definition ensure_sync_tracked_users ::
  "('u, 's, 'e) tracked_store \<Rightarrow> ('u, 's, 'z) key_query_manager_scheme \<Rightarrow> ('e + unit) \<times> ('u, 's, 'z) key_query_manager_scheme" where
  "ensure_sync_tracked_users ops m =
     (if loaded_tracked_users m then (Inr (), m)
      else case load_tracked_users ops (crypto_store m) of
        Inl e \<Rightarrow> (Inl e, m)
      | Inr us \<Rightarrow> (Inr (), (load_users us m)\<lparr>loaded_tracked_users := True\<rparr>))"

definition save_updates ::
  "('u, 's, 'e) tracked_store \<Rightarrow> ('u \<times> bool) list \<Rightarrow> ('u, 's, 'z) key_query_manager_scheme
   \<Rightarrow> ('e + unit) \<times> ('u, 's, 'z) key_query_manager_scheme" where
  "save_updates ops store_updates m =
     (let (r, s) = save_tracked_users ops store_updates (crypto_store m) in (r, m\<lparr>crypto_store := s\<rparr>))"

section \<open>The synchronised manager\<close>

fun track_users ::
  "'u list \<Rightarrow> ('u, 's, 'z) key_query_manager_scheme \<Rightarrow> ('u \<times> bool) list \<times> ('u, 's, 'z) key_query_manager_scheme" where
  "track_users [] m = ([], m)"
| "track_users (user # us) m =
     (if user \<in> tracked_users m then track_users us m
      else
        (let (store_updates, m) =
               track_users us (m\<lparr>tracked_users := insert user (tracked_users m), kq_users := insert_user user (kq_users m)\<rparr>)
         in ((user, True) # store_updates, m)))"

definition update_tracked_users ::
  "('u, 's, 'e) tracked_store \<Rightarrow> 'u list \<Rightarrow> ('u, 's, 'z) key_query_manager_scheme
   \<Rightarrow> ('e + unit) \<times> ('u, 's, 'z) key_query_manager_scheme" where
  "update_tracked_users ops us m = (let (store_updates, m) = track_users us m in save_updates ops store_updates m)"

fun flag_tracked_users ::
  "'u list \<Rightarrow> ('u, 's, 'z) key_query_manager_scheme \<Rightarrow> ('u \<times> bool) list \<times> ('u, 's, 'z) key_query_manager_scheme" where
  "flag_tracked_users [] m = ([], m)"
| "flag_tracked_users (user # us) m =
     (if user \<in> tracked_users m then
        (let (store_updates, m) = flag_tracked_users us (m\<lparr>kq_users := insert_user user (kq_users m)\<rparr>)
         in ((user, True) # store_updates, m))
      else flag_tracked_users us m)"

definition mark_tracked_users_as_changed ::
  "('u, 's, 'e) tracked_store \<Rightarrow> 'u list \<Rightarrow> ('u, 's, 'z) key_query_manager_scheme
   \<Rightarrow> ('e + unit) \<times> ('u, 's, 'z) key_query_manager_scheme" where
  "mark_tracked_users_as_changed ops us m =
     (let (store_updates, m) = flag_tracked_users us m in save_updates ops store_updates m)"

fun clear_tracked_users ::
  "'u list \<Rightarrow> i64 \<Rightarrow> ('u, 's, 'z) key_query_manager_scheme \<Rightarrow> ('u \<times> bool) list \<times> ('u, 's, 'z) key_query_manager_scheme" where
  "clear_tracked_users [] sequence_number m = ([], m)"
| "clear_tracked_users (user # us) sequence_number m =
     (if user \<in> tracked_users m then
        (let (clean, k, h) = maybe_remove_user user sequence_number (kq_users m) (kq_waiters m);
             (store_updates, m) = clear_tracked_users us sequence_number (m\<lparr>kq_users := k, kq_waiters := h\<rparr>)
         in ((user, \<not> clean) # store_updates, m))
      else clear_tracked_users us sequence_number m)"

fun wake :: "waiting_task \<Rightarrow> waiting_task" where
  "wake (Sleeping i) = Woken i"
| "wake t = t"

definition notify_waiters :: "('u, 's, 'z) key_query_manager_scheme \<Rightarrow> ('u, 's, 'z) key_query_manager_scheme" where
  "notify_waiters m = m\<lparr>kq_tasks := map_option wake \<circ> kq_tasks m\<rparr>"

definition mark_tracked_users_as_up_to_date ::
  "('u, 's, 'e) tracked_store \<Rightarrow> 'u list \<Rightarrow> i64 \<Rightarrow> ('u, 's, 'z) key_query_manager_scheme
   \<Rightarrow> ('e + unit) \<times> ('u, 's, 'z) key_query_manager_scheme" where
  "mark_tracked_users_as_up_to_date ops us sequence_number m =
     (let (store_updates, m) = clear_tracked_users us sequence_number m in
      case save_updates ops store_updates m of
        (Inl e, m) \<Rightarrow> (Inl e, m)
      | (Inr _, m) \<Rightarrow> (Inr (), notify_waiters m))"

definition mark_user_as_changed ::
  "('u, 's, 'e) tracked_store \<Rightarrow> 'u \<Rightarrow> ('u, 's, 'z) key_query_manager_scheme
   \<Rightarrow> ('e + unit) \<times> ('u, 's, 'z) key_query_manager_scheme" where
  "mark_user_as_changed ops user m =
     save_updates ops [(user, True)]
       (m\<lparr>kq_users := insert_user user (kq_users m), tracked_users := insert user (tracked_users m)\<rparr>)"

section \<open>Waiting for a query\<close>

text \<open>The call of \<open>wait_if_user_key_query_pending\<close> by task \<open>t\<close>, up to its first suspension.\<close>

definition start_waiting ::
  "('u, 's, 'e) tracked_store \<Rightarrow> nat \<Rightarrow> 'u \<Rightarrow> ('u, 's, 'z) key_query_manager_scheme
   \<Rightarrow> ('e + unit) \<times> ('u, 's, 'z) key_query_manager_scheme" where
  "start_waiting ops t user m =
     (case ensure_sync_tracked_users ops m of
        (Inl e, m) \<Rightarrow> (Inl e, m)
      | (Inr _, m) \<Rightarrow>
          (case maybe_register_waiting_task user (kq_next_waiter m) (kq_users m) (kq_waiters m) of
             (None, _, _) \<Rightarrow> (Inr (), m\<lparr>kq_tasks := (kq_tasks m)(t \<mapsto> Returned WasNotPending)\<rparr>)
           | (Some i, k, h) \<Rightarrow>
               (Inr (), m\<lparr>kq_users := k, kq_waiters := h, kq_next_waiter := Suc (kq_next_waiter m),
                          kq_tasks := (kq_tasks m)(t \<mapsto> Sleeping i)\<rparr>)))"

text \<open>A notified task takes the lock and looks at its flag; leaving the call drops the waiter.\<close>

definition resume_waiting :: "nat \<Rightarrow> ('u, 's, 'z) key_query_manager_scheme \<Rightarrow> ('u, 's, 'z) key_query_manager_scheme" where
  "resume_waiting t m =
     (case kq_tasks m t of
        Some (Woken i) \<Rightarrow>
          (case kq_waiters m i of
             Some waiter \<Rightarrow>
               if waiter_completed waiter then
                 m\<lparr>kq_tasks := (kq_tasks m)(t \<mapsto> Returned WasPending), kq_waiters := (kq_waiters m)(i := None)\<rparr>
               else m\<lparr>kq_tasks := (kq_tasks m)(t \<mapsto> Sleeping i)\<rparr>
           | None \<Rightarrow> m)
      | _ \<Rightarrow> m)"

definition expire_waiting :: "nat \<Rightarrow> ('u, 's, 'z) key_query_manager_scheme \<Rightarrow> ('u, 's, 'z) key_query_manager_scheme" where
  "expire_waiting t m =
     (let expired = \<lambda>i. m\<lparr>kq_tasks := (kq_tasks m)(t \<mapsto> Returned TimeoutExpired), kq_waiters := (kq_waiters m)(i := None)\<rparr>
      in case kq_tasks m t of
           Some (Sleeping i) \<Rightarrow> expired i
         | Some (Woken i) \<Rightarrow> expired i
         | _ \<Rightarrow> m)"

section \<open>Requests and responses\<close>

record 't keys_query_request_details =
  query_sequence_number :: i64
  request_ids :: "'t set"

definition MAX_KEY_QUERY_USERS :: nat where
  "MAX_KEY_QUERY_USERS = 250"

record ('u, 's, 'n, 't) identity_manager = "('u, 's) key_query_manager" +
  server_failures :: "'n failures_cache"
  keys_query_request_details :: "'t keys_query_request_details option"
  own_user_id :: 'u

definition identity_manager_new :: "'u \<Rightarrow> 's \<Rightarrow> ('u, 's, 'n, 't) identity_manager" where
  "identity_manager_new user s =
     \<lparr>kq_users = users_for_key_query_new, kq_waiters = Map.empty, kq_next_waiter = 0, kq_tasks = Map.empty,
      tracked_users = {}, loaded_tracked_users = False, crypto_store = s,
      server_failures = failures_cache_new, keys_query_request_details = None, own_user_id = user\<rparr>"

fun user_chunks :: "nat \<Rightarrow> 'u list \<Rightarrow> 'u list list" where
  "user_chunks n us = (if us = [] \<or> n = 0 then [] else take n us # user_chunks n (drop n us))"

declare user_chunks.simps [simp del]

text \<open>\<open>new_id i\<close> is the random identifier of the \<open>i\<close>-th request.\<close>

definition build_requests :: "(nat \<Rightarrow> 't::linorder) \<Rightarrow> 'u list \<Rightarrow> ('t \<times> 'u list) list" where
  "build_requests new_id us =
     fold (\<lambda>(i, user_chunk). btree_insert (new_id i) user_chunk)
       (enumerate 0 (user_chunks MAX_KEY_QUERY_USERS us)) []"

definition users_to_query ::
  "('u, 's, 'e) tracked_store \<Rightarrow> ('u, 's, 'n, 't, 'z) identity_manager_scheme
   \<Rightarrow> ('e + 'u list \<times> i64) \<times> ('u, 's, 'n, 't, 'z) identity_manager_scheme" where
  "users_to_query ops m =
     (case ensure_sync_tracked_users ops m of
        (Inl e, m) \<Rightarrow> (Inl e, m)
      | (Inr _, m) \<Rightarrow>
          (let (users, sequence_number) = fetch_users_for_key_query (kq_users m) in
           if users = [] \<and> own_user_id m \<notin> tracked_users m then
             (case mark_user_as_changed ops (own_user_id m) m of
                (Inl e, m) \<Rightarrow> (Inl e, m)
              | (Inr _, m) \<Rightarrow> (Inr (fetch_users_for_key_query (kq_users m)), m))
           else (Inr (users, sequence_number), m)))"

definition users_for_key_query_requests ::
  "('u, 's, 'e) tracked_store \<Rightarrow> ('u \<Rightarrow> 'n) \<Rightarrow> nat \<Rightarrow> (nat \<Rightarrow> 't::linorder)
   \<Rightarrow> ('u, 's, 'n, 't, 'z) identity_manager_scheme
   \<Rightarrow> ('e + ('t \<times> 'u list) list) \<times> ('u, 's, 'n, 't, 'z) identity_manager_scheme" where
  "users_for_key_query_requests ops server_name now new_id m =
     (case users_to_query ops (m\<lparr>keys_query_request_details := None\<rparr>) of
        (Inl e, m) \<Rightarrow> (Inl e, m)
      | (Inr (users, sequence_number), m) \<Rightarrow>
          if users = [] then (Inr [], m)
          else
            (let users = filter (\<lambda>u. \<not> cache_contains now (server_name u) (server_failures m)) users;
                 requests = build_requests new_id users
             in (Inr requests,
                 m\<lparr>keys_query_request_details :=
                     Some \<lparr>query_sequence_number = sequence_number, request_ids = set (map fst requests)\<rparr>\<rparr>)))"

record 'u keys_query_response =
  response_failures :: "string list"
  response_device_keys :: "'u list"

text \<open>
  The argument \<open>saved\<close> is the outcome of storing the devices and identities of the response, which
  does not change the state modelled here.
\<close>

definition finish_keys_query ::
  "('u, 's, 'e) tracked_store \<Rightarrow> 't \<Rightarrow> 'u list \<Rightarrow> ('u, 's, 'n, 't, 'z) identity_manager_scheme
   \<Rightarrow> ('e + unit) \<times> ('u, 's, 'n, 't, 'z) identity_manager_scheme" where
  "finish_keys_query ops request_id users m =
     (case keys_query_request_details m of
        Some details \<Rightarrow>
          if request_id \<in> request_ids details then
            (let m = m\<lparr>keys_query_request_details := Some (details\<lparr>request_ids := request_ids details - {request_id}\<rparr>)\<rparr> in
             case ensure_sync_tracked_users ops m of
               (Inl e, m) \<Rightarrow> (Inl e, m)
             | (Inr _, m) \<Rightarrow> mark_tracked_users_as_up_to_date ops users (query_sequence_number details) m)
          else (Inr (), m)
      | None \<Rightarrow> (Inr (), m))"

definition receive_keys_query_response ::
  "('u, 's, 'e) tracked_store \<Rightarrow> ('u \<Rightarrow> 'n) \<Rightarrow> (string \<Rightarrow> 'n option) \<Rightarrow> nat \<Rightarrow> 't \<Rightarrow> 'u keys_query_response
   \<Rightarrow> ('e + unit) \<Rightarrow> ('u, 's, 'n, 't, 'z) identity_manager_scheme
   \<Rightarrow> (('e + unit) \<times> ('u, 's, 'n, 't, 'z) identity_manager_scheme) run" where
  "receive_keys_query_response ops server_name parse now request_id response saved m =
     (let failed_servers = filter (\<lambda>s. s \<noteq> server_name (own_user_id m)) (List.map_filter parse (response_failures response));
          successful_servers = map server_name (response_device_keys response)
      in run_bind (cache_extend now failed_servers (server_failures m)) (\<lambda>failures.
         let m = m\<lparr>server_failures := cache_remove successful_servers failures\<rparr> in
         Done (case saved of
                 Inl e \<Rightarrow> (Inl e, m)
               | Inr _ \<Rightarrow> finish_keys_query ops request_id (response_device_keys response) m)))"

definition receive_device_changes ::
  "('u, 's, 'e) tracked_store \<Rightarrow> 'u list \<Rightarrow> ('u, 's, 'z) key_query_manager_scheme
   \<Rightarrow> ('e + unit) \<times> ('u, 's, 'z) key_query_manager_scheme" where
  "receive_device_changes ops us m =
     (case ensure_sync_tracked_users ops m of
        (Inl e, m) \<Rightarrow> (Inl e, m)
      | (Inr _, m) \<Rightarrow> mark_tracked_users_as_changed ops us m)"

definition manager_update_tracked_users ::
  "('u, 's, 'e) tracked_store \<Rightarrow> 'u list \<Rightarrow> ('u, 's, 'z) key_query_manager_scheme
   \<Rightarrow> ('e + unit) \<times> ('u, 's, 'z) key_query_manager_scheme" where
  "manager_update_tracked_users ops us m =
     (case ensure_sync_tracked_users ops m of
        (Inl e, m) \<Rightarrow> (Inl e, m)
      | (Inr _, m) \<Rightarrow> update_tracked_users ops us m)"

definition mark_all_tracked_users_as_dirty ::
  "('u, 's, 'e) tracked_store \<Rightarrow> ('u, 's, 'z) key_query_manager_scheme
   \<Rightarrow> ('e + unit) \<times> ('u, 's, 'z) key_query_manager_scheme" where
  "mark_all_tracked_users_as_dirty ops m =
     (case load_tracked_users ops (crypto_store m) of
        Inl e \<Rightarrow> (Inl e, m)
      | Inr us \<Rightarrow> receive_device_changes ops (map tracked_user_id us) m)"

end
