(* ===== verification/Key_Query_Props.thy ===== *)
theory Key_Query_Props
  imports Key_Query
begin

text \<open>
  Lemmas on the tracking of outdated device lists: the wrapping sequence numbers are ordered like
  unbounded ones as long as they are less than \<open>2 ^ 63\<close> apart; what flagging and clearing users do;
  and the effect of every operation of the manager on the flags, along traces of operations.
\<close>

section \<open>Wrapping sequence numbers\<close>

lemma sequence_cmp_window:
  assumes "\<bar>x - y\<bar> < 2 ^ 63"
  shows "sequence_cmp (word_of_int x) (word_of_int y) = (if x < y then Less else if x = y then Equal else Greater)"
proof -
  have "sint (word_of_int x - word_of_int y :: i64) = signed_take_bit 63 (x - y)"
    unfolding wi_hom_sub sint_sbintrunc' by simp
  also have "\<dots> = x - y" using assms by (intro signed_take_bit_int_eq_self) auto
  finally show ?thesis by (simp add: sequence_cmp_def)
qed

lemma sequence_cmp_sint:
  assumes "\<bar>sint a - sint b\<bar> < 2 ^ 63"
  shows "sequence_cmp a b = (if sint a < sint b then Less else if sint a = sint b then Equal else Greater)"
  using sequence_cmp_window [OF assms] by simp

lemma sint_increment: "sint a < 2 ^ 63 - 1 \<Longrightarrow> sint (sequence_increment a) = sint a + 1"
proof -
  assume "sint a < 2 ^ 63 - 1"
  moreover have "- (2 ^ 63) \<le> sint a" using sint_ge [of a] by simp
  ultimately show ?thesis
    by (simp add: sequence_increment_def sint_word_ariths signed_take_bit_int_eq_self)
qed

lemma sint_previous: "0 \<le> sint a \<Longrightarrow> sint (sequence_previous a) = sint a - 1"
  using sint_lt [of a] by (simp add: sequence_previous_def sint_word_ariths signed_take_bit_int_eq_self)

section \<open>Flagging users\<close>

abbreviation flag :: "'u users_for_key_query \<Rightarrow> 'u \<rightharpoonup> i64" where
  "flag k \<equiv> map_of (user_map k)"

abbreviation next_seq :: "'u users_for_key_query \<Rightarrow> int" where
  "next_seq k \<equiv> sint (next_sequence_number k)"

definition seq_ok :: "'u users_for_key_query \<Rightarrow> bool" where
  "seq_ok k \<longleftrightarrow> 0 \<le> next_seq k \<and> (\<forall>u s. flag k u = Some s \<longrightarrow> 0 \<le> sint s \<and> sint s < next_seq k)"

text \<open>What flagging at most \<open>b\<close> users does: flags stay or become newer.\<close>

definition grows :: "nat \<Rightarrow> 'u users_for_key_query \<Rightarrow> 'u users_for_key_query \<Rightarrow> bool" where
  "grows b k k' \<longleftrightarrow> seq_ok k' \<and> next_seq k \<le> next_seq k' \<and> next_seq k' \<le> next_seq k + int b \<and>
     tasks_awaiting_key_query k' = tasks_awaiting_key_query k \<and>
     (\<forall>u s. flag k u = Some s \<longrightarrow> (\<exists>s'. flag k' u = Some s' \<and> sint s \<le> sint s')) \<and>
     (\<forall>u s. flag k' u = Some s \<longrightarrow> flag k u = Some s \<or> next_seq k \<le> sint s)"

lemma flag_insert_user [simp]: "flag (insert_user u k) = (flag k)(u \<mapsto> next_sequence_number k)"
  by (simp add: insert_user_def Let_def update_conv')

lemma next_insert_user [simp]:
  "next_sequence_number (insert_user u k) = sequence_increment (next_sequence_number k)"
  by (simp add: insert_user_def Let_def)

lemma tasks_insert_user [simp]: "tasks_awaiting_key_query (insert_user u k) = tasks_awaiting_key_query k"
  by (simp add: insert_user_def Let_def)

lemma grows_refl: "seq_ok k \<Longrightarrow> grows b k k"
  by (auto simp: grows_def)

lemma grows_trans:
  assumes "grows a k k1" and "grows b k1 k2"
  shows "grows (a + b) k k2"
  unfolding grows_def
proof (intro conjI allI impI)
  fix u s assume "flag k u = Some s"
  then obtain s1 where s1: "flag k1 u = Some s1" "sint s \<le> sint s1" using assms(1) unfolding grows_def by blast
  then obtain s2 where "flag k2 u = Some s2" "sint s1 \<le> sint s2" using assms(2) unfolding grows_def by blast
  with s1 show "\<exists>s'. flag k2 u = Some s' \<and> sint s \<le> sint s'" by (intro exI [of _ s2]) simp
next
  fix u s assume "flag k2 u = Some s"
  then have "flag k1 u = Some s \<or> next_seq k1 \<le> sint s" using assms(2) unfolding grows_def by blast
  then show "flag k u = Some s \<or> next_seq k \<le> sint s"
  proof
    assume "flag k1 u = Some s"
    then show ?thesis using assms(1) unfolding grows_def by blast
  next
    assume "next_seq k1 \<le> sint s"
    then show ?thesis using assms(1) by (simp add: grows_def)
  qed
qed (use assms in \<open>simp_all add: grows_def\<close>)

lemma grows_insert:
  assumes "seq_ok k" and "next_seq k < 2 ^ 63 - 1"
  shows "grows 1 k (insert_user u k)"
proof -
  have "sint s \<le> next_seq k" "0 \<le> sint s" if "flag k v = Some s" for v s
    using assms(1) that unfolding seq_ok_def by (auto intro: less_imp_le)
  then show ?thesis using assms by (auto simp: grows_def seq_ok_def sint_increment)
qed

lemma grows_fold:
  "seq_ok k \<Longrightarrow> next_seq k + int (length us) < 2 ^ 63 \<Longrightarrow> grows (length us) k (fold insert_user us k)"
proof (induction us arbitrary: k)
  case Nil
  then show ?case by (simp add: grows_refl)
next
  case (Cons u us)
  have step: "grows 1 k (insert_user u k)" using Cons.prems by (intro grows_insert) simp_all
  then have "grows (length us) (insert_user u k) (fold insert_user us (insert_user u k))"
    using Cons.prems by (intro Cons.IH) (auto simp: grows_def)
  from grows_trans [OF step this] show ?case by simp
qed

section \<open>Clearing users\<close>

definition done_by :: "'u \<Rightarrow> i64 \<Rightarrow> 'u keys_query_waiter \<Rightarrow> bool" where
  "done_by u q w \<longleftrightarrow> waiter_user w = u \<and> sequence_cmp (waiter_sequence w) q \<noteq> Greater"

lemma retain_waiters_eq:
  "retain_waiters u q is h =
     (filter (\<lambda>i. case h i of None \<Rightarrow> False | Some w \<Rightarrow> \<not> done_by u q w) is,
      \<lambda>i. if i \<in> set is then map_option (\<lambda>w. if done_by u q w then w\<lparr>waiter_completed := True\<rparr> else w) (h i) else h i)"
proof (induction "is" arbitrary: h)
  case (Cons i "is")
  show ?case
  proof (cases "h i")
    case None
    then show ?thesis using Cons.IH [of h] by (auto simp: fun_eq_iff)
  next
    case (Some w)
    show ?thesis
    proof (cases "done_by u q w")
      case True
      let ?h = "h(i \<mapsto> w\<lparr>waiter_completed := True\<rparr>)"
      have eq: "retain_waiters u q (i # is) h = retain_waiters u q is ?h" using Some True by (simp add: done_by_def)
      have "done_by u q (w\<lparr>waiter_completed := True\<rparr>)" using True by (simp add: done_by_def)
      then show ?thesis unfolding eq Cons.IH using Some True by (auto simp: fun_eq_iff intro!: filter_cong)
    next
      case False
      then show ?thesis using Some Cons.IH [of h] by (auto simp: fun_eq_iff done_by_def)
    qed
  qed
qed (simp add: fun_eq_iff)

lemma sequence_not_greater:
  assumes "0 \<le> sint s" and "sint s < 2 ^ 63 - 1" and "- 1 \<le> sint q"
  shows "sequence_cmp s q \<noteq> Greater \<longleftrightarrow> sint s \<le> sint q"
proof -
  have "sint q < 2 ^ 63" using sint_lt [of q] by simp
  with assms have "\<bar>sint s - sint q\<bar> < 2 ^ 63" by (simp add: abs_less_iff)
  then show ?thesis by (auto simp: sequence_cmp_sint)
qed

text \<open>
  A waiter that is not done is registered, and its user is still flagged at least as recently as
  when it was registered.
\<close>

definition waiters_ok :: "'u users_for_key_query \<Rightarrow> 'u waiters \<Rightarrow> bool" where
  "waiters_ok k h \<longleftrightarrow> (\<forall>i w. h i = Some w \<longrightarrow> 0 \<le> sint (waiter_sequence w) \<and> sint (waiter_sequence w) < next_seq k \<and>
     (\<not> waiter_completed w \<longrightarrow> i \<in> set (tasks_awaiting_key_query k) \<and>
        (\<exists>s. flag k (waiter_user w) = Some s \<and> sint (waiter_sequence w) \<le> sint s)))"

lemma seq_ok_bound: "seq_ok k \<Longrightarrow> flag k u = Some s \<Longrightarrow> 0 \<le> sint s \<and> sint s < next_seq k"
  by (simp add: seq_ok_def)

lemma next_seq_bound: "next_seq k \<le> 2 ^ 63 - 1"
  using sint_lt [of "next_sequence_number k"] by simp

lemma maybe_remove_user_flags:
  assumes "maybe_remove_user u q k h = (clean, k', h')" and "seq_ok k" and "- 1 \<le> sint q"
  shows "next_sequence_number k' = next_sequence_number k" and "seq_ok k'"
    and "clean \<longleftrightarrow> (\<forall>s. flag k u = Some s \<longrightarrow> sint s \<le> sint q)"
    and "flag k' = (if clean then (flag k)(u := None) else flag k)"
proof -
  have le: "sequence_cmp s q \<noteq> Greater \<longleftrightarrow> sint s \<le> sint q" if "flag k u = Some s" for s
    using seq_ok_bound [OF assms(2) that] next_seq_bound [of k] assms(3) by (intro sequence_not_greater) simp_all
  show "next_sequence_number k' = next_sequence_number k"
    using assms(1) by (auto simp: maybe_remove_user_def Let_def split: prod.splits option.splits if_splits)
  show c: "clean \<longleftrightarrow> (\<forall>s. flag k u = Some s \<longrightarrow> sint s \<le> sint q)"
  proof (cases "flag k u")
    case (Some s)
    with le [OF Some] assms(1) show ?thesis
      by (auto simp: maybe_remove_user_def Let_def split: prod.splits if_splits)
  qed (use assms(1) in \<open>auto simp: maybe_remove_user_def Let_def split: prod.splits\<close>)
  show f: "flag k' = (if clean then (flag k)(u := None) else flag k)"
    using assms(1)
    by (auto simp: maybe_remove_user_def Let_def delete_conv' fun_upd_idem split: prod.splits option.splits if_splits)
  show "seq_ok k'"
    using assms(2) f \<open>next_sequence_number k' = next_sequence_number k\<close> by (auto simp: seq_ok_def split: if_splits)
qed

lemma maybe_remove_user_waiters:
  assumes "maybe_remove_user u q k h = (clean, k', h')" and "seq_ok k" and "- 1 \<le> sint q" and "waiters_ok k h"
  shows "waiters_ok k' h'"
  unfolding waiters_ok_def
proof (intro allI impI conjI)
  note flags = maybe_remove_user_flags [OF assms(1-3)]
  have h': "h' = snd (retain_waiters u q (tasks_awaiting_key_query k) h)"
    and tasks: "tasks_awaiting_key_query k' = fst (retain_waiters u q (tasks_awaiting_key_query k) h)"
    using assms(1) by (auto simp: maybe_remove_user_def Let_def split: prod.splits option.splits if_splits)
  fix i w' assume w': "h' i = Some w'"
  then have "h i \<noteq> None" unfolding h' retain_waiters_eq by (auto split: if_splits)
  then obtain w where w0: "h i = Some w" by blast
  have w1: "w' = (if i \<in> set (tasks_awaiting_key_query k) \<and> done_by u q w then w\<lparr>waiter_completed := True\<rparr> else w)"
    using w' w0 unfolding h' retain_waiters_eq by (auto split: if_splits)
  have w: "h i = Some w" "waiter_user w' = waiter_user w" "waiter_sequence w' = waiter_sequence w"
    using w0 w1 by simp_all
  have open_w: "\<not> waiter_completed w \<and> (i \<in> set (tasks_awaiting_key_query k) \<longrightarrow> \<not> done_by u q w)"
    if "\<not> waiter_completed w'" using w1 that by (auto split: if_splits)
  have ok: "0 \<le> sint (waiter_sequence w)" "sint (waiter_sequence w) < next_seq k"
    using assms(4) w(1) by (auto simp: waiters_ok_def)
  then show "0 \<le> sint (waiter_sequence w')" "sint (waiter_sequence w') < next_seq k'"
    by (simp_all add: w flags)
  assume "\<not> waiter_completed w'"
  from open_w [OF this] assms(4) w(1) obtain s where "i \<in> set (tasks_awaiting_key_query k)" "\<not> done_by u q w"
    and s: "flag k (waiter_user w) = Some s" "sint (waiter_sequence w) \<le> sint s"
    by (auto simp: waiters_ok_def)
  then show "i \<in> set (tasks_awaiting_key_query k')" using w(1) by (simp add: tasks retain_waiters_eq)
  have "waiter_user w \<noteq> u \<or> sint q < sint (waiter_sequence w)"
    using \<open>\<not> done_by u q w\<close> ok next_seq_bound [of k] assms(3) sequence_not_greater [of "waiter_sequence w" q]
    by (force simp: done_by_def)
  then have "flag k' (waiter_user w) = Some s" using s by (auto simp: flags)
  with s(2) show "\<exists>s. flag k' (waiter_user w') = Some s \<and> sint (waiter_sequence w') \<le> sint s"
    by (simp add: w)
qed

definition cleared_flags :: "'u set \<Rightarrow> i64 \<Rightarrow> ('u \<rightharpoonup> i64) \<Rightarrow> 'u \<rightharpoonup> i64" where
  "cleared_flags U q f = (\<lambda>v. if v \<in> U \<and> (\<forall>s. f v = Some s \<longrightarrow> sint s \<le> sint q) then None else f v)"

lemma cleared_flags_insert:
  assumes "c \<longleftrightarrow> (\<forall>s. f u = Some s \<longrightarrow> sint s \<le> sint q)"
  shows "cleared_flags U q (if c then f(u := None) else f) = cleared_flags (insert u U) q f"
proof
  show "cleared_flags U q (if c then f(u := None) else f) v = cleared_flags (insert u U) q f v" for v
    by (cases "v = u"; cases c) (auto simp: cleared_flags_def assms [symmetric])
qed

definition clears :: "'u list \<Rightarrow> i64 \<Rightarrow> ('u, 's, 'z) key_query_manager_scheme \<Rightarrow> ('u, 's, 'z) key_query_manager_scheme \<Rightarrow> bool" where
  "clears us q m m' \<longleftrightarrow>
     (\<exists>k h. m' = m\<lparr>kq_users := k, kq_waiters := h\<rparr> \<and> next_sequence_number k = next_sequence_number (kq_users m) \<and>
        seq_ok k \<and> (waiters_ok (kq_users m) (kq_waiters m) \<longrightarrow> waiters_ok k h) \<and> dom h = dom (kq_waiters m) \<and>
        flag k = cleared_flags (set us \<inter> tracked_users m) q (flag (kq_users m)))"

lemma maybe_remove_user_dom:
  "maybe_remove_user u q k h = (clean, k', h') \<Longrightarrow> dom h' = dom h"
  by (auto simp: maybe_remove_user_def Let_def retain_waiters_eq dom_def
      split: prod.splits option.splits if_splits)

lemma clear_tracked_users_clears:
  "seq_ok (kq_users m) \<Longrightarrow> - 1 \<le> sint q \<Longrightarrow> clears us q m (snd (clear_tracked_users us q m))"
proof (induction us arbitrary: m)
  case Nil
  then show ?case by (auto simp: clears_def cleared_flags_def intro!: exI [of _ "kq_users m"] exI [of _ "kq_waiters m"])
next
  case (Cons u us)
  show ?case
  proof (cases "u \<in> tracked_users m")
    case False
    then show ?thesis using Cons.IH [OF Cons.prems] by (auto simp: clears_def)
  next
    case True
    obtain c k h where r: "maybe_remove_user u q (kq_users m) (kq_waiters m) = (c, k, h)" by (metis prod_cases3)
    note flags = maybe_remove_user_flags [OF r Cons.prems]
    let ?m = "m\<lparr>kq_users := k, kq_waiters := h\<rparr>"
    have "clears us q ?m (snd (clear_tracked_users us q ?m))" using Cons.prems flags by (intro Cons.IH) simp_all
    then obtain k' h' where rest: "snd (clear_tracked_users us q ?m) = m\<lparr>kq_users := k', kq_waiters := h'\<rparr>"
      "next_sequence_number k' = next_sequence_number k" "seq_ok k'" "waiters_ok k h \<longrightarrow> waiters_ok k' h'" "dom h' = dom h"
      "flag k' = cleared_flags (set us \<inter> tracked_users m) q (flag k)"
      by (simp add: clears_def) (elim exE conjE, rule that, assumption+)
    have "snd (clear_tracked_users (u # us) q m) = m\<lparr>kq_users := k', kq_waiters := h'\<rparr>"
      using True r rest(1) by (simp add: Let_def case_prod_beta)
    moreover have "dom h' = dom (kq_waiters m)" using rest(5) maybe_remove_user_dom [OF r] by simp
    moreover have "waiters_ok (kq_users m) (kq_waiters m) \<longrightarrow> waiters_ok k' h'"
      using rest(4) maybe_remove_user_waiters [OF r Cons.prems] by blast
    moreover have "flag k' = cleared_flags (set (u # us) \<inter> tracked_users m) q (flag (kq_users m))"
      using True cleared_flags_insert [of c "flag (kq_users m)" u q "set us \<inter> tracked_users m"] flags(3)
      by (simp add: rest(6) flags(4))
    ultimately show ?thesis
      using rest(2,3) flags(1) unfolding clears_def by (intro exI [of _ k'] exI [of _ h'] conjI) simp_all
  qed
qed

section \<open>Operations that only flag users\<close>

definition only_flags :: "nat \<Rightarrow> ('u, 's, 'z) key_query_manager_scheme \<Rightarrow> ('u, 's, 'z) key_query_manager_scheme \<Rightarrow> bool" where
  "only_flags b m m' \<longleftrightarrow>
     (\<exists>us T l s. length us \<le> b \<and>
        m' = m\<lparr>kq_users := fold insert_user us (kq_users m), tracked_users := T, loaded_tracked_users := l, crypto_store := s\<rparr>)"

lemma only_flags_trans: "only_flags a m m1 \<Longrightarrow> only_flags b m1 m2 \<Longrightarrow> only_flags (a + b) m m2"
proof -
  assume "only_flags a m m1" "only_flags b m1 m2"
  then obtain us T l s us' T' l' s' where "length us \<le> a" "length us' \<le> b"
    "m1 = m\<lparr>kq_users := fold insert_user us (kq_users m), tracked_users := T, loaded_tracked_users := l, crypto_store := s\<rparr>"
    "m2 = m1\<lparr>kq_users := fold insert_user us' (kq_users m1), tracked_users := T', loaded_tracked_users := l', crypto_store := s'\<rparr>"
    by (auto simp: only_flags_def)
  then show ?thesis
    unfolding only_flags_def
    by (intro exI [of _ "us @ us'"] exI [of _ T'] exI [of _ l'] exI [of _ s']) simp
qed

lemma only_flagsI:
  assumes "length us \<le> b" and "kq_users m' = fold insert_user us (kq_users m)"
    and "m' = m\<lparr>kq_users := kq_users m', tracked_users := tracked_users m',
           loaded_tracked_users := loaded_tracked_users m', crypto_store := crypto_store m'\<rparr>"
  shows "only_flags b m m'"
  using assms(1) assms(3) [unfolded assms(2)] unfolding only_flags_def
  by (intro exI [of _ us] exI [of _ "tracked_users m'"] exI [of _ "loaded_tracked_users m'"]
      exI [of _ "crypto_store m'"] conjI)

lemma only_flags_refl: "only_flags b m m"
  by (rule only_flagsI [of "[]"]) simp_all

lemma only_flags_mono: "only_flags a m m' \<Longrightarrow> a \<le> b \<Longrightarrow> only_flags b m m'"
  unfolding only_flags_def by (elim exE conjE, intro exI conjI) (erule (1) order_trans, assumption)

lemma load_users_eq:
  "load_users us m = m\<lparr>tracked_users := tracked_users m \<union> tracked_user_id ` set us,
     kq_users := fold insert_user (map tracked_user_id (filter tracked_dirty us)) (kq_users m)\<rparr>"
  by (induction us arbitrary: m) (simp_all add: Let_def)

fun new_users :: "'u set \<Rightarrow> 'u list \<Rightarrow> 'u list" where
  "new_users T [] = []"
| "new_users T (u # us) = (if u \<in> T then new_users T us else u # new_users (insert u T) us)"

lemma length_new_users: "length (new_users T us) \<le> length us"
  by (induction us arbitrary: T) (auto simp: le_SucI)

lemma set_new_users: "set (new_users T us) = set us - T"
  by (induction us arbitrary: T) auto

lemma track_users_eq:
  "track_users us m = (map (\<lambda>u. (u, True)) (new_users (tracked_users m) us),
     m\<lparr>tracked_users := tracked_users m \<union> set us,
       kq_users := fold insert_user (new_users (tracked_users m) us) (kq_users m)\<rparr>)"
  by (induction us arbitrary: m) (simp_all add: Let_def insert_absorb)

lemma flag_tracked_users_eq:
  "flag_tracked_users us m = (map (\<lambda>u. (u, True)) (filter (\<lambda>u. u \<in> tracked_users m) us),
     m\<lparr>kq_users := fold insert_user (filter (\<lambda>u. u \<in> tracked_users m) us) (kq_users m)\<rparr>)"
  by (induction us arbitrary: m) (simp_all add: Let_def)

definition load_size :: "('u, 's, 'e) tracked_store \<Rightarrow> ('u, 's, 'z) key_query_manager_scheme \<Rightarrow> nat" where
  "load_size ops m = (case load_tracked_users ops (crypto_store m) of Inl _ \<Rightarrow> 0 | Inr us \<Rightarrow> length us)"

lemma ensure_only_flags: "only_flags (load_size ops m) m (snd (ensure_sync_tracked_users ops m))"
proof (cases "loaded_tracked_users m")
  case True
  then show ?thesis by (simp add: ensure_sync_tracked_users_def only_flags_refl)
next
  case False
  then show ?thesis
  proof (cases "load_tracked_users ops (crypto_store m)")
    case (Inr us)
    have "length (map tracked_user_id (filter tracked_dirty us)) \<le> length us" by simp
    then show ?thesis using False Inr
      by (intro only_flagsI [of "map tracked_user_id (filter tracked_dirty us)"])
        (simp_all add: ensure_sync_tracked_users_def load_size_def load_users_eq)
  qed (simp add: ensure_sync_tracked_users_def only_flags_refl)
qed

lemma save_updates_only_flags: "only_flags 0 m (snd (save_updates ops upd m))"
  by (rule only_flagsI [of "[]"]) (simp_all add: save_updates_def split: prod.splits)

lemma update_tracked_users_only_flags: "only_flags (length us) m (snd (update_tracked_users ops us m))"
proof -
  have "only_flags (length us) m (snd (track_users us m))"
    by (rule only_flagsI [of "new_users (tracked_users m) us"]) (simp_all add: track_users_eq length_new_users)
  from only_flags_trans [OF this save_updates_only_flags] show ?thesis
    by (simp add: update_tracked_users_def track_users_eq)
qed

lemma mark_changed_only_flags: "only_flags (length us) m (snd (mark_tracked_users_as_changed ops us m))"
proof -
  have "only_flags (length us) m (snd (flag_tracked_users us m))"
    by (rule only_flagsI [of "filter (\<lambda>u. u \<in> tracked_users m) us"]) (simp_all add: flag_tracked_users_eq)
  from only_flags_trans [OF this save_updates_only_flags] show ?thesis
    by (simp add: mark_tracked_users_as_changed_def flag_tracked_users_eq)
qed

lemma mark_user_only_flags: "only_flags 1 m (snd (mark_user_as_changed ops u m))"
proof -
  let ?m = "m\<lparr>kq_users := insert_user u (kq_users m), tracked_users := insert u (tracked_users m)\<rparr>"
  have "only_flags 1 m ?m" by (rule only_flagsI [of "[u]"]) simp_all
  from only_flags_trans [OF this save_updates_only_flags] show ?thesis by (simp add: mark_user_as_changed_def)
qed

lemma only_flags_frame:
  "only_flags b m m' \<Longrightarrow> kq_waiters m' = kq_waiters m \<and> kq_next_waiter m' = kq_next_waiter m \<and> kq_tasks m' = kq_tasks m"
  by (auto simp: only_flags_def)

lemma only_flags_manager_frame:
  fixes m :: "('u, 's, 'n, 't, 'z) identity_manager_scheme"
  shows "only_flags b m m' \<Longrightarrow> keys_query_request_details m' = keys_query_request_details m \<and>
    server_failures m' = server_failures m \<and> own_user_id m' = own_user_id m"
  by (auto simp: only_flags_def)

lemma only_flags_grows:
  assumes "only_flags b m m'" and "seq_ok (kq_users m)" and "next_seq (kq_users m) + int b < 2 ^ 63"
  shows "grows b (kq_users m) (kq_users m')"
proof -
  obtain us where us: "length us \<le> b" "kq_users m' = fold insert_user us (kq_users m)"
    using assms(1) by (auto simp: only_flags_def)
  have "grows (length us) (kq_users m) (kq_users m')"
    unfolding us(2) using assms(2,3) us(1) by (intro grows_fold) simp_all
  then show ?thesis using us(1) by (simp add: grows_def)
qed

lemma grows_waiters: "grows b k k' \<Longrightarrow> waiters_ok k h \<Longrightarrow> waiters_ok k' h"
  unfolding waiters_ok_def
proof (intro allI impI conjI)
  assume g: "grows b k k'" and ok: "\<forall>i w. h i = Some w \<longrightarrow> 0 \<le> sint (waiter_sequence w) \<and> sint (waiter_sequence w) < next_seq k \<and>
     (\<not> waiter_completed w \<longrightarrow> i \<in> set (tasks_awaiting_key_query k) \<and>
        (\<exists>s. flag k (waiter_user w) = Some s \<and> sint (waiter_sequence w) \<le> sint s))"
  fix i w assume w: "h i = Some w"
  with ok have b: "0 \<le> sint (waiter_sequence w)" "sint (waiter_sequence w) < next_seq k" by simp_all
  then show "0 \<le> sint (waiter_sequence w)" "sint (waiter_sequence w) < next_seq k'" using g by (simp_all add: grows_def)
  assume "\<not> waiter_completed w"
  with ok w obtain s where s: "flag k (waiter_user w) = Some s" "sint (waiter_sequence w) \<le> sint s"
    and "i \<in> set (tasks_awaiting_key_query k)" by blast
  then show "i \<in> set (tasks_awaiting_key_query k')" using g by (simp add: grows_def)
  obtain s' where "flag k' (waiter_user w) = Some s'" "sint s \<le> sint s'" using g s(1) unfolding grows_def by blast
  with s(2) show "\<exists>s. flag k' (waiter_user w) = Some s \<and> sint (waiter_sequence w) \<le> sint s"
    by (intro exI [of _ s']) simp
qed

lemma ensure_then:
  assumes "\<And>m. only_flags b m (snd (f m))"
  shows "only_flags (load_size ops m + b) m
    (snd (case ensure_sync_tracked_users ops m of (Inl e, m) \<Rightarrow> (Inl e, m) | (Inr _, m) \<Rightarrow> f m))"
proof -
  obtain r m1 where e: "ensure_sync_tracked_users ops m = (r, m1)" by fastforce
  have 1: "only_flags (load_size ops m) m m1" using ensure_only_flags [of ops m] e by simp
  show ?thesis
  proof (cases r)
    case (Inl err)
    with e only_flags_mono [OF 1] show ?thesis by simp
  next
    case (Inr x)
    with e only_flags_trans [OF 1 assms] show ?thesis by simp
  qed
qed

section \<open>Runs\<close>

datatype ('u, 't, 'e) key_query_op =
    UpdateTracked "'u list"
  | DeviceChanges "'u list"
  | UserChanged 'u
  | AllDirty
  | BuildRequests nat "nat \<Rightarrow> 't"
  | Response nat 't "'u keys_query_response" "'e + unit"
  | StartWaiting nat 'u
  | ResumeWaiting nat
  | ExpireWaiting nat

definition synced_user_changed ::
  "('u, 's, 'e) tracked_store \<Rightarrow> 'u \<Rightarrow> ('u, 's, 'z) key_query_manager_scheme
   \<Rightarrow> ('e + unit) \<times> ('u, 's, 'z) key_query_manager_scheme" where
  "synced_user_changed ops u m =
     (case ensure_sync_tracked_users ops m of
        (Inl e, m) \<Rightarrow> (Inl e, m)
      | (Inr _, m) \<Rightarrow> mark_user_as_changed ops u m)"

fun key_query_exec ::
  "('u, 's, 'e) tracked_store \<Rightarrow> ('u \<Rightarrow> 'n) \<Rightarrow> (string \<Rightarrow> 'n option) \<Rightarrow> ('u, 't::linorder, 'e) key_query_op
   \<Rightarrow> ('u, 's, 'n, 't) identity_manager \<Rightarrow> ('u, 's, 'n, 't) identity_manager run" where
  "key_query_exec ops sn ps (UpdateTracked us) m = Done (snd (manager_update_tracked_users ops us m))"
| "key_query_exec ops sn ps (DeviceChanges us) m = Done (snd (receive_device_changes ops us m))"
| "key_query_exec ops sn ps (UserChanged u) m = Done (snd (synced_user_changed ops u m))"
| "key_query_exec ops sn ps AllDirty m = Done (snd (mark_all_tracked_users_as_dirty ops m))"
| "key_query_exec ops sn ps (BuildRequests now new_id) m = Done (snd (users_for_key_query_requests ops sn now new_id m))"
| "key_query_exec ops sn ps (Response now rid resp saved) m =
     run_bind (receive_keys_query_response ops sn ps now rid resp saved m) (\<lambda>r. Done (snd r))"
| "key_query_exec ops sn ps (StartWaiting t u) m =
     Done (if kq_tasks m t = None then snd (start_waiting ops t u m) else m)"
| "key_query_exec ops sn ps (ResumeWaiting t) m = Done (resume_waiting t m)"
| "key_query_exec ops sn ps (ExpireWaiting t) m = Done (expire_waiting t m)"

fun key_query_run ::
  "('u, 's, 'e) tracked_store \<Rightarrow> ('u \<Rightarrow> 'n) \<Rightarrow> (string \<Rightarrow> 'n option) \<Rightarrow> ('u, 't::linorder, 'e) key_query_op list
   \<Rightarrow> ('u, 's, 'n, 't) identity_manager \<Rightarrow> ('u, 's, 'n, 't) identity_manager run" where
  "key_query_run ops sn ps [] m = Done m"
| "key_query_run ops sn ps (op # os) m = run_bind (key_query_exec ops sn ps op m) (key_query_run ops sn ps os)"

text \<open>How many users an operation can flag, and a sequence of them.\<close>

fun kq_op_cost :: "('u, 's, 'e) tracked_store \<Rightarrow> ('u, 't, 'e) key_query_op \<Rightarrow> ('u, 's, 'z) key_query_manager_scheme \<Rightarrow> nat" where
  "kq_op_cost ops (UpdateTracked us) m = load_size ops m + length us"
| "kq_op_cost ops (DeviceChanges us) m = load_size ops m + length us"
| "kq_op_cost ops (UserChanged u) m = load_size ops m + 1"
| "kq_op_cost ops AllDirty m = load_size ops m + load_size ops m"
| "kq_op_cost ops (BuildRequests now new_id) m = load_size ops m + 1"
| "kq_op_cost ops (Response now rid resp saved) m = load_size ops m"
| "kq_op_cost ops (StartWaiting t u) m = load_size ops m"
| "kq_op_cost ops (ResumeWaiting t) m = 0"
| "kq_op_cost ops (ExpireWaiting t) m = 0"

fun kq_run_cost ::
  "('u, 's, 'e) tracked_store \<Rightarrow> ('u \<Rightarrow> 'n) \<Rightarrow> (string \<Rightarrow> 'n option) \<Rightarrow> ('u, 't::linorder, 'e) key_query_op list
   \<Rightarrow> ('u, 's, 'n, 't) identity_manager \<Rightarrow> nat" where
  "kq_run_cost ops sn ps [] m = 0"
| "kq_run_cost ops sn ps (op # os) m =
     kq_op_cost ops op m + (case key_query_exec ops sn ps op m of Done m' \<Rightarrow> kq_run_cost ops sn ps os m' | _ \<Rightarrow> 0)"

lemma only_flags_ops:
  "only_flags (kq_op_cost ops (UpdateTracked us) m) m (snd (manager_update_tracked_users ops us m))"
  "only_flags (kq_op_cost ops (DeviceChanges us) m) m (snd (receive_device_changes ops us m))"
  "only_flags (kq_op_cost ops (UserChanged u) m) m (snd (synced_user_changed ops u m))"
  "only_flags (kq_op_cost ops AllDirty m) m (snd (mark_all_tracked_users_as_dirty ops m))"
proof -
  show "only_flags (kq_op_cost ops (UpdateTracked us) m) m (snd (manager_update_tracked_users ops us m))"
    unfolding manager_update_tracked_users_def kq_op_cost.simps by (rule ensure_then, rule update_tracked_users_only_flags)
  show dev: "only_flags (kq_op_cost ops (DeviceChanges us) m) m (snd (receive_device_changes ops us m))" for us
    unfolding receive_device_changes_def kq_op_cost.simps by (rule ensure_then, rule mark_changed_only_flags)
  show "only_flags (kq_op_cost ops (UserChanged u) m) m (snd (synced_user_changed ops u m))"
    unfolding synced_user_changed_def kq_op_cost.simps by (rule ensure_then, rule mark_user_only_flags)
  show "only_flags (kq_op_cost ops AllDirty m) m (snd (mark_all_tracked_users_as_dirty ops m))"
  proof (cases "load_tracked_users ops (crypto_store m)")
    case (Inr us)
    then show ?thesis using dev [of "map tracked_user_id us"]
      by (simp add: mark_all_tracked_users_as_dirty_def load_size_def)
  qed (simp add: mark_all_tracked_users_as_dirty_def only_flags_refl)
qed

lemma users_to_query_only_flags:
  fixes m :: "('u, 's, 'n, 't) identity_manager"
  shows "only_flags (load_size ops m + 1) m (snd (users_to_query ops m))"
proof -
  obtain r m1 where e: "ensure_sync_tracked_users ops m = (r, m1)" by fastforce
  have 1: "only_flags (load_size ops m) m m1" using ensure_only_flags [of ops m] e by simp
  obtain r' m2 where e': "mark_user_as_changed ops (own_user_id m1) m1 = (r', m2)" by fastforce
  have 2: "only_flags (load_size ops m + 1) m m2"
    using only_flags_trans [OF 1 mark_user_only_flags] e' by (metis snd_conv)
  show ?thesis
    using e e' only_flags_mono [OF 1] 2
    by (cases r; cases r') (simp_all add: users_to_query_def Let_def split: prod.splits)
qed

section \<open>What a step does to the flags\<close>

definition flags_step :: "nat \<Rightarrow> ('u \<Rightarrow> i64 \<Rightarrow> bool) \<Rightarrow> 'u users_for_key_query \<Rightarrow> 'u users_for_key_query \<Rightarrow> bool" where
  "flags_step b P k k' \<longleftrightarrow> seq_ok k' \<and> next_seq k \<le> next_seq k' \<and> next_seq k' \<le> next_seq k + int b \<and>
     (\<forall>u s. flag k u = Some s \<longrightarrow> (\<exists>s'. flag k' u = Some s' \<and> sint s \<le> sint s') \<or> P u s) \<and>
     (\<forall>u s. flag k' u = Some s \<longrightarrow> flag k u = Some s \<or> next_seq k \<le> sint s)"

lemma grows_flags_step: "grows b k k' \<Longrightarrow> flags_step b P k k'"
  unfolding grows_def flags_step_def by blast

lemma clears_flags_step:
  assumes "grows b k (kq_users m)" and "clears us q m m'"
  shows "flags_step b (\<lambda>u s. u \<in> set us \<and> sint s \<le> sint q) k (kq_users m')"
proof -
  let ?k = "kq_users m" and ?k' = "kq_users m'"
  have seq: "seq_ok ?k'" "next_sequence_number ?k' = next_sequence_number ?k"
    and flags: "flag ?k' = cleared_flags (set us \<inter> tracked_users m) q (flag ?k)"
    using assms(2) by (auto simp: clears_def)
  show ?thesis unfolding flags_step_def
  proof (intro conjI allI impI)
    fix u s assume "flag k u = Some s"
    then obtain s' where s': "flag ?k u = Some s'" "sint s \<le> sint s'" using assms(1) unfolding grows_def by blast
    show "(\<exists>s'. flag ?k' u = Some s' \<and> sint s \<le> sint s') \<or> (u \<in> set us \<and> sint s \<le> sint q)"
    proof (cases "flag ?k' u = flag ?k u")
      case True
      with s' show ?thesis by simp
    next
      case False
      then have "u \<in> set us" "sint s' \<le> sint q" using s'(1) unfolding flags by (auto simp: cleared_flags_def split: if_splits)
      with s'(2) show ?thesis by simp
    qed
  next
    fix u s assume "flag ?k' u = Some s"
    then have "flag ?k u = Some s" unfolding flags by (auto simp: cleared_flags_def split: if_splits)
    then show "flag k u = Some s \<or> next_seq k \<le> sint s" using assms(1) unfolding grows_def by blast
  qed (use assms(1) seq in \<open>simp_all add: grows_def\<close>)
qed

lemma mark_up_to_date_effect:
  fixes m :: "('u, 's, 'n, 't, 'z) identity_manager_scheme" and ops :: "('u, 's, 'e) tracked_store" and us q
  defines "m' \<equiv> snd (mark_tracked_users_as_up_to_date ops us q m)"
    and "m1 \<equiv> snd (clear_tracked_users us q m)"
  shows "kq_users m' = kq_users m1" "kq_waiters m' = kq_waiters m1" "kq_next_waiter m' = kq_next_waiter m1"
    "tracked_users m' = tracked_users m1" "loaded_tracked_users m' = loaded_tracked_users m1"
    "keys_query_request_details m' = keys_query_request_details m1" "own_user_id m' = own_user_id m1"
    "server_failures m' = server_failures m1"
proof -
  obtain upd where c: "clear_tracked_users us q m = (upd, m1)" by (simp add: m1_def prod_eq_iff)
  obtain r s where sv: "save_tracked_users ops upd (crypto_store m1) = (r, s)" by fastforce
  have "m' = (case r of Inl _ \<Rightarrow> m1\<lparr>crypto_store := s\<rparr> | Inr _ \<Rightarrow> notify_waiters (m1\<lparr>crypto_store := s\<rparr>))"
    using c sv by (cases r) (simp_all add: m'_def mark_tracked_users_as_up_to_date_def save_updates_def)
  then show "kq_users m' = kq_users m1" "kq_waiters m' = kq_waiters m1" "kq_next_waiter m' = kq_next_waiter m1"
    "tracked_users m' = tracked_users m1" "loaded_tracked_users m' = loaded_tracked_users m1"
    "keys_query_request_details m' = keys_query_request_details m1" "own_user_id m' = own_user_id m1"
    "server_failures m' = server_failures m1"
    by (cases r; simp add: notify_waiters_def)+
qed

text \<open>The requests in flight were built before the current sequence number.\<close>

definition query_inv :: "('u, 's, 'n, 't, 'z) identity_manager_scheme \<Rightarrow> bool" where
  "query_inv m \<longleftrightarrow> seq_ok (kq_users m) \<and>
     (\<forall>d. keys_query_request_details m = Some d \<longrightarrow>
        - 1 \<le> sint (query_sequence_number d) \<and> sint (query_sequence_number d) < next_seq (kq_users m))"

text \<open>The operation is the response to a request in flight, for user \<open>u\<close>, and not older than \<open>s\<close>.\<close>

fun answers :: "('u, 't, 'e) key_query_op \<Rightarrow> ('u, 's, 'n, 't, 'z) identity_manager_scheme \<Rightarrow> 'u \<Rightarrow> i64 \<Rightarrow> bool" where
  "answers (Response now rid resp saved) m u s =
     (case keys_query_request_details m of
        Some d \<Rightarrow> saved = Inr () \<and> rid \<in> request_ids d \<and> u \<in> set (response_device_keys resp) \<and>
          sint s \<le> sint (query_sequence_number d)
      | None \<Rightarrow> False)"
| "answers op m u s = False"

definition details_step ::
  "('u, 't, 'e) key_query_op \<Rightarrow> ('u, 's, 'n, 't, 'z) identity_manager_scheme \<Rightarrow> ('u, 's, 'n, 't, 'z) identity_manager_scheme \<Rightarrow> bool" where
  "details_step op m m' \<longleftrightarrow>
     (\<forall>d. keys_query_request_details m' = Some d \<longrightarrow>
        (\<exists>now new_id. op = BuildRequests now new_id) \<or>
        (\<exists>d0. keys_query_request_details m = Some d0 \<and> query_sequence_number d = query_sequence_number d0 \<and>
              request_ids d \<subseteq> request_ids d0))"

definition step_effect ::
  "('u, 's, 'e) tracked_store \<Rightarrow> ('u, 't, 'e) key_query_op \<Rightarrow> ('u, 's, 'n, 't) identity_manager
   \<Rightarrow> ('u, 's, 'n, 't) identity_manager \<Rightarrow> bool" where
  "step_effect ops op m m' \<longleftrightarrow> query_inv m' \<and> details_step op m m' \<and>
     flags_step (kq_op_cost ops op m) (answers op m) (kq_users m) (kq_users m')"

lemma only_flags_effect:
  assumes "only_flags (kq_op_cost ops op m) m m'" and "query_inv m" and "next_seq (kq_users m) + int (kq_op_cost ops op m) < 2 ^ 63"
  shows "step_effect ops op m m'"
proof -
  have g: "grows (kq_op_cost ops op m) (kq_users m) (kq_users m')"
    using assms by (intro only_flags_grows) (simp_all add: query_inv_def)
  then have "seq_ok (kq_users m')" "next_seq (kq_users m) \<le> next_seq (kq_users m')" by (simp_all add: grows_def)
  with only_flags_manager_frame [OF assms(1)] assms(2) grows_flags_step [OF g] show ?thesis
    by (auto simp: step_effect_def query_inv_def details_step_def)
qed

lemma same_users_effect:
  assumes "kq_users m' = kq_users m" and "keys_query_request_details m' = keys_query_request_details m" and "query_inv m"
  shows "step_effect ops op m m'"
  using assms by (simp add: step_effect_def query_inv_def details_step_def flags_step_def)

lemma users_to_query_result:
  assumes "users_to_query ops m = (Inr (users, q), m1)"
  shows "users = map fst (user_map (kq_users m1))" and "q = sequence_previous (next_sequence_number (kq_users m1))"
    and "users = [] \<Longrightarrow> own_user_id m1 \<in> tracked_users m1"
proof -
  obtain r m2 where e: "ensure_sync_tracked_users ops m = (r, m2)" by fastforce
  obtain r' m3 where e': "mark_user_as_changed ops (own_user_id m2) m2 = (r', m3)" by fastforce
  have "m1 = m3" if "map fst (user_map (kq_users m2)) = []" "own_user_id m2 \<notin> tracked_users m2"
    using assms e e' that by (cases r; cases r') (auto simp: users_to_query_def fetch_users_for_key_query_def Let_def)
  moreover have "user_map (kq_users m3) \<noteq> []"
    using e' by (auto simp: mark_user_as_changed_def save_updates_def insert_user_def Let_def
        update_nonempty split: prod.splits)
  ultimately show "users = map fst (user_map (kq_users m1))" "q = sequence_previous (next_sequence_number (kq_users m1))"
    "users = [] \<Longrightarrow> own_user_id m1 \<in> tracked_users m1"
    using assms e e' by (cases r; cases r'; auto simp: users_to_query_def fetch_users_for_key_query_def Let_def split: if_splits)+
qed

lemma build_effect:
  fixes m :: "('u, 's, 'n, 't::linorder) identity_manager"
  assumes "query_inv m" and "next_seq (kq_users m) + int (load_size ops m + 1) < 2 ^ 63"
  shows "step_effect ops (BuildRequests now new_id) m (snd (users_for_key_query_requests ops sn now new_id m))"
proof -
  let ?m0 = "m\<lparr>keys_query_request_details := None\<rparr>"
  let ?m' = "snd (users_for_key_query_requests ops sn now new_id m)"
  obtain r m1 where u: "users_to_query ops ?m0 = (r, m1)" by fastforce
  have f: "only_flags (load_size ops m + 1) ?m0 m1"
    using users_to_query_only_flags [of ops ?m0] u by (simp add: load_size_def)
  have g: "grows (load_size ops m + 1) (kq_users m) (kq_users m1)"
    using only_flags_grows [OF f] assms by (simp add: query_inv_def)
  then have seq: "seq_ok (kq_users m1)" "0 \<le> next_seq (kq_users m1)" by (simp_all add: grows_def seq_ok_def)
  have "kq_users ?m' = kq_users m1 \<and>
    (\<forall>d. keys_query_request_details ?m' = Some d \<longrightarrow> sint (query_sequence_number d) = next_seq (kq_users m1) - 1)"
  proof (cases r)
    case (Inl e)
    then show ?thesis using u only_flags_manager_frame [OF f] by (simp add: users_for_key_query_requests_def)
  next
    case (Inr p)
    obtain users q where p: "p = (users, q)" by fastforce
    have "q = sequence_previous (next_sequence_number (kq_users m1))"
      using users_to_query_result(2) [of ops ?m0 users q m1] u Inr p by simp
    then have "sint q = next_seq (kq_users m1) - 1" using seq by (simp add: sint_previous)
    then show ?thesis using u Inr p only_flags_manager_frame [OF f] by (auto simp: users_for_key_query_requests_def Let_def)
  qed
  with seq grows_flags_step [OF g] show ?thesis
    by (auto simp: step_effect_def query_inv_def details_step_def)
qed

lemma finish_effect:
  fixes m :: "('u, 's, 'n, 't) identity_manager" and ops :: "('u, 's, 'e) tracked_store"
  assumes "query_inv m" and "next_seq (kq_users m) + int (load_size ops m) < 2 ^ 63"
  shows "step_effect ops (Response now rid resp (Inr ())) m (snd (finish_keys_query ops rid (response_device_keys resp) m))"
proof (cases "\<exists>d. keys_query_request_details m = Some d \<and> rid \<in> request_ids d")
  case False
  then have "snd (finish_keys_query ops rid (response_device_keys resp) m) = m"
    by (auto simp: finish_keys_query_def split: option.splits)
  then show ?thesis using assms(1) by (simp add: same_users_effect)
next
  case True
  then obtain d where d: "keys_query_request_details m = Some d" "rid \<in> request_ids d" by blast
  let ?op = "Response now rid resp (Inr ()) :: ('u, 't, 'e) key_query_op"
  let ?d = "d\<lparr>request_ids := request_ids d - {rid}\<rparr>"
  let ?m0 = "m\<lparr>keys_query_request_details := Some ?d\<rparr>" and ?q = "query_sequence_number d"
  let ?m' = "snd (finish_keys_query ops rid (response_device_keys resp) m)"
  have q: "- 1 \<le> sint ?q" "sint ?q < next_seq (kq_users m)" using assms(1) d(1) by (simp_all add: query_inv_def)
  obtain r m1 where e: "ensure_sync_tracked_users ops ?m0 = (r, m1)" by fastforce
  have f: "only_flags (load_size ops m) ?m0 m1" using ensure_only_flags [of ops ?m0] e by (simp add: load_size_def)
  have g: "grows (load_size ops m) (kq_users m) (kq_users m1)"
    using only_flags_grows [OF f] assms by (simp add: query_inv_def)
  have c: "clears (response_device_keys resp) ?q m1 (snd (clear_tracked_users (response_device_keys resp) ?q m1))"
    using g q(1) by (intro clear_tracked_users_clears) (simp_all add: grows_def)
  have "flags_step (load_size ops m) (answers ?op m) (kq_users m) (kq_users ?m') \<and>
     keys_query_request_details ?m' = Some ?d"
  proof (cases r)
    case (Inl err)
    then show ?thesis using d e grows_flags_step [OF g] only_flags_manager_frame [OF f] by (simp add: finish_keys_query_def)
  next
    case (Inr x)
    have "keys_query_request_details (snd (clear_tracked_users (response_device_keys resp) ?q m1)) = Some ?d"
      using c only_flags_manager_frame [OF f] by (auto simp: clears_def)
    moreover have "answers ?op m =
        (\<lambda>u s. u \<in> set (response_device_keys resp) \<and> sint s \<le> sint ?q)"
      using d by (simp add: fun_eq_iff)
    ultimately show ?thesis
      using Inr d e clears_flags_step [OF g c] by (simp add: finish_keys_query_def mark_up_to_date_effect)
  qed
  moreover from this have "seq_ok (kq_users ?m')" "next_seq (kq_users m) \<le> next_seq (kq_users ?m')"
    by (simp_all add: flags_step_def)
  ultimately show ?thesis using q d(1) by (auto simp: step_effect_def query_inv_def details_step_def)
qed

lemma response_effect:
  assumes "receive_keys_query_response ops sn ps now rid resp saved m = Done (r, m')"
    and "query_inv m" and "next_seq (kq_users m) + int (load_size ops m) < 2 ^ 63"
  shows "step_effect ops (Response now rid resp saved) m m'"
proof -
  obtain f where m': "(case saved of Inl e \<Rightarrow> (Inl e, m\<lparr>server_failures := f\<rparr>)
      | Inr _ \<Rightarrow> finish_keys_query ops rid (response_device_keys resp) (m\<lparr>server_failures := f\<rparr>)) = (r, m')"
    using assms(1) by (auto simp: receive_keys_query_response_def Let_def)
  have inv: "query_inv (m\<lparr>server_failures := f\<rparr>)" using assms(2) by (simp add: query_inv_def)
  show ?thesis
  proof (cases saved)
    case (Inl e)
    with m' have "m' = m\<lparr>server_failures := f\<rparr>" by auto
    then show ?thesis using assms(2) by (simp add: same_users_effect)
  next
    case (Inr x)
    have "step_effect ops (Response now rid resp saved) (m\<lparr>server_failures := f\<rparr>) m'"
      using finish_effect [OF inv, of ops now rid resp] assms(3) m' Inr by (simp add: load_size_def prod_eq_iff)
    then show ?thesis by (simp add: step_effect_def details_step_def load_size_def flags_step_def)
  qed
qed

lemma start_waiting_users:
  fixes m :: "('u, 's, 'n, 't) identity_manager"
  assumes "ensure_sync_tracked_users ops m = (r, m1)"
  shows "flag (kq_users (snd (start_waiting ops t u m))) = flag (kq_users m1)"
    and "next_sequence_number (kq_users (snd (start_waiting ops t u m))) = next_sequence_number (kq_users m1)"
    and "keys_query_request_details (snd (start_waiting ops t u m)) = keys_query_request_details m1"
  using assms
  by (cases r; cases "flag (kq_users m1) u"; simp add: start_waiting_def maybe_register_waiting_task_def)+

lemma resume_expire_frame:
  fixes m :: "('u, 's, 'n, 't) identity_manager"
  shows "kq_users (resume_waiting t m) = kq_users m"
    "keys_query_request_details (resume_waiting t m) = keys_query_request_details m"
    "kq_users (expire_waiting t m) = kq_users m"
    "keys_query_request_details (expire_waiting t m) = keys_query_request_details m"
  by (auto simp: resume_waiting_def expire_waiting_def Let_def split: option.splits waiting_task.splits)

lemma exec_effect:
  assumes "key_query_exec ops sn ps op m = Done m'" and "query_inv m"
    and "next_seq (kq_users m) + int (kq_op_cost ops op m) < 2 ^ 63"
  shows "step_effect ops op m m'"
proof (cases op)
  case (BuildRequests now new_id)
  then show ?thesis using assms build_effect [of m ops now new_id sn] by simp
next
  case (Response now rid resp saved)
  then show ?thesis using assms response_effect [of ops sn ps now rid resp saved m _ m'] by auto
next
  case (StartWaiting t u)
  show ?thesis
  proof (cases "kq_tasks m t")
    case None
    obtain r m1 where e: "ensure_sync_tracked_users ops m = (r, m1)" by fastforce
    have "only_flags (kq_op_cost ops op m) m m1" using ensure_only_flags [of ops m] e StartWaiting by simp
    then have "step_effect ops op m m1" using assms(2,3) by (rule only_flags_effect)
    moreover have "m' = snd (start_waiting ops t u m)" using assms(1) StartWaiting None by simp
    ultimately show ?thesis
      by (simp add: step_effect_def query_inv_def seq_ok_def details_step_def flags_step_def start_waiting_users [OF e])
  qed (use assms StartWaiting in \<open>auto intro: same_users_effect\<close>)
next
  case (UpdateTracked us)
  with assms(1) only_flags_ops(1) [of ops us m] have "only_flags (kq_op_cost ops op m) m m'" by simp
  then show ?thesis using assms(2,3) by (rule only_flags_effect)
next
  case (DeviceChanges us)
  with assms(1) only_flags_ops(2) [of ops us m] have "only_flags (kq_op_cost ops op m) m m'" by simp
  then show ?thesis using assms(2,3) by (rule only_flags_effect)
next
  case (UserChanged u)
  with assms(1) only_flags_ops(3) [of ops u m] have "only_flags (kq_op_cost ops op m) m m'" by simp
  then show ?thesis using assms(2,3) by (rule only_flags_effect)
next
  case AllDirty
  with assms(1) only_flags_ops(4) [of ops m] have "only_flags (kq_op_cost ops op m) m m'" by simp
  then show ?thesis using assms(2,3) by (rule only_flags_effect)
qed (use assms in \<open>auto simp: resume_expire_frame same_users_effect\<close>)

section \<open>Traces\<close>

lemma cache_extend_total: "settings_ok c \<Longrightarrow> \<exists>c'. cache_extend now ks c = Done c' \<and> settings_ok c'"
proof (induction ks arbitrary: c)
  case (Cons k ks)
  let ?n = "case failure_items c k of Some item \<Rightarrow> saturating_add (item_failure_count item) 1 | None \<Rightarrow> 0"
  obtain d where d: "calculate_delay ?n c = Done d"
    using calculate_delay_ideal [of c ?n] Cons.prems by (auto simp: settings_ok_def)
  let ?c = "c\<lparr>failure_items := (failure_items c)(k \<mapsto> \<lparr>insertion_time = now, duration = d, item_failure_count = ?n\<rparr>)\<rparr>"
  have "settings_ok ?c" using Cons.prems by (simp add: settings_ok_def)
  from Cons.IH [OF this] d show ?case by (simp add: Let_def)
qed simp

lemma server_failures_frame:
  fixes m :: "('u, 's, 'n, 't::linorder) identity_manager"
  shows "server_failures (snd (users_for_key_query_requests ops sn now new_id m)) = server_failures m"
    and "server_failures (snd (start_waiting ops t u m)) = server_failures m"
    and "server_failures (snd (finish_keys_query ops rid us m)) = server_failures m"
    and "server_failures (resume_waiting t m) = server_failures m"
    and "server_failures (expire_waiting t m) = server_failures m"
proof -
  let ?m0 = "m\<lparr>keys_query_request_details := None\<rparr>"
  obtain r m1 where u: "users_to_query ops ?m0 = (r, m1)" by fastforce
  have "server_failures m1 = server_failures m"
    using only_flags_manager_frame [OF users_to_query_only_flags [of ops ?m0]] u by simp
  then show "server_failures (snd (users_for_key_query_requests ops sn now new_id m)) = server_failures m"
    using u by (cases r) (auto simp: users_for_key_query_requests_def Let_def)
  have ensure: "server_failures (snd (ensure_sync_tracked_users ops m')) = server_failures m'" for m' :: "('u, 's, 'n, 't) identity_manager"
    using only_flags_manager_frame [OF ensure_only_flags [of ops m']] by simp
  obtain r2 m2 where e: "ensure_sync_tracked_users ops m = (r2, m2)" by fastforce
  show "server_failures (snd (start_waiting ops t u m)) = server_failures m"
    using e ensure [of m]
    by (cases r2; cases "flag (kq_users m2) u") (simp_all add: start_waiting_def maybe_register_waiting_task_def)
  have clear: "server_failures (snd (clear_tracked_users us q m')) = server_failures m'" for q and m' :: "('u, 's, 'n, 't) identity_manager"
    by (induction us arbitrary: m') (simp_all add: Let_def case_prod_beta)
  show "server_failures (snd (finish_keys_query ops rid us m)) = server_failures m"
  proof (cases "\<exists>d. keys_query_request_details m = Some d \<and> rid \<in> request_ids d")
    case True
    then obtain d where d: "keys_query_request_details m = Some d" "rid \<in> request_ids d" by blast
    let ?m = "m\<lparr>keys_query_request_details := Some (d\<lparr>request_ids := request_ids d - {rid}\<rparr>)\<rparr>"
    obtain r3 m3 where e3: "ensure_sync_tracked_users ops ?m = (r3, m3)" by fastforce
    then show ?thesis using d ensure [of ?m]
      by (cases r3) (simp_all add: finish_keys_query_def mark_up_to_date_effect clear)
  qed (auto simp: finish_keys_query_def split: option.splits)
qed (auto simp: resume_waiting_def expire_waiting_def Let_def split: option.splits waiting_task.splits)

lemma exec_total:
  assumes "settings_ok (server_failures m)"
  shows "\<exists>m'. key_query_exec ops sn ps op m = Done m' \<and> settings_ok (server_failures m')"
proof (cases op)
  case (Response now rid resp saved)
  obtain f where f: "cache_extend now (filter (\<lambda>s. s \<noteq> sn (own_user_id m)) (List.map_filter ps (response_failures resp)))
      (server_failures m) = Done f" "settings_ok f"
    using cache_extend_total [OF assms] by blast
  let ?f = "cache_remove (map sn (response_device_keys resp)) f"
  have "settings_ok ?f" using f(2) by (simp add: settings_ok_def cache_remove_def)
  then show ?thesis using f Response
    by (cases saved) (simp_all add: receive_keys_query_response_def Let_def server_failures_frame)
qed (use assms only_flags_manager_frame [OF only_flags_ops(1) [of ops _ m]] only_flags_manager_frame [OF only_flags_ops(2) [of ops _ m]]
    only_flags_manager_frame [OF only_flags_ops(3) [of ops _ m]] only_flags_manager_frame [OF only_flags_ops(4) [of ops m]]
    in \<open>simp_all add: server_failures_frame\<close>)

fun key_query_trace ::
  "('u, 's, 'e) tracked_store \<Rightarrow> ('u \<Rightarrow> 'n) \<Rightarrow> (string \<Rightarrow> 'n option) \<Rightarrow> ('u, 't::linorder, 'e) key_query_op list
   \<Rightarrow> ('u, 's, 'n, 't) identity_manager \<Rightarrow> ('u, 's, 'n, 't) identity_manager list" where
  "key_query_trace ops sn ps [] m = [m]"
| "key_query_trace ops sn ps (op # os) m =
     m # (case key_query_exec ops sn ps op m of Done m' \<Rightarrow> key_query_trace ops sn ps os m' | _ \<Rightarrow> [])"

lemma trace_steps:
  assumes "query_inv m" and "settings_ok (server_failures m)"
    and "next_seq (kq_users m) + int (kq_run_cost ops sn ps os m) < 2 ^ 63"
  shows "length (key_query_trace ops sn ps os m) = Suc (length os) \<and>
    (\<forall>n < length os. query_inv (key_query_trace ops sn ps os m ! n) \<and>
       step_effect ops (os ! n) (key_query_trace ops sn ps os m ! n) (key_query_trace ops sn ps os m ! Suc n))"
  using assms
proof (induction os arbitrary: m)
  case (Cons op os)
  obtain m' where m': "key_query_exec ops sn ps op m = Done m'" "settings_ok (server_failures m')"
    using exec_total [OF Cons.prems(2)] by blast
  have e: "step_effect ops op m m'" using m'(1) Cons.prems by (intro exec_effect) simp_all
  then have "query_inv m'" "next_seq (kq_users m') \<le> next_seq (kq_users m) + int (kq_op_cost ops op m)"
    by (simp_all add: step_effect_def flags_step_def)
  with Cons.IH [of m'] m' Cons.prems(3)
  have IH: "length (key_query_trace ops sn ps os m') = Suc (length os)"
    "\<And>n. n < length os \<Longrightarrow> query_inv (key_query_trace ops sn ps os m' ! n) \<and>
       step_effect ops (os ! n) (key_query_trace ops sn ps os m' ! n) (key_query_trace ops sn ps os m' ! Suc n)"
    by simp_all
  have "key_query_trace ops sn ps os m' ! 0 = m'" by (cases os) simp_all
  with IH m'(1) e Cons.prems(1) show ?case by (auto simp: nth_Cons split: nat.splits)
qed simp

end
