(* ===== verification/Key_Query_Safety.thy ===== *)
theory Key_Query_Safety
  imports Key_Query_Props "HOL-Library.Multiset"
begin

text \<open>
  The properties of the tracking of outdated device lists: a response clears a user only if its
  request was built after the user was flagged, no task sleeps on a finished query, the requests
  cover the flagged users, and the crypto store holds what a restart needs.
\<close>

section \<open>Stale responses\<close>

lemma query_inv_new: "query_inv (identity_manager_new own s)"
  by (simp add: query_inv_def identity_manager_new_def users_for_key_query_new_def seq_ok_def)

lemma settings_ok_new: "settings_ok failures_cache_new"
  by (simp add: settings_ok_def failures_cache_new_def from_secs_def MAX_DELAY_def)

definition answered ::
  "('u, 't, 'e) key_query_op list \<Rightarrow> (nat \<Rightarrow> ('u, 's, 'n, 't) identity_manager) \<Rightarrow> 'u \<Rightarrow> nat \<Rightarrow> nat \<Rightarrow> bool" where
  "answered os st u i n \<longleftrightarrow>
     (\<exists>j k now new_id d now' rid resp. i \<le> j \<and> j < k \<and> k < n \<and> os ! j = BuildRequests now new_id \<and>
        keys_query_request_details (st (Suc j)) = Some d \<and> rid \<in> request_ids d \<and>
        os ! k = Response now' rid resp (Inr ()) \<and> u \<in> set (response_device_keys resp))"

text \<open>The requests in flight that are not older than \<open>b\<close> were built at or after step \<open>i\<close>.\<close>

definition built_since ::
  "('u, 't, 'e) key_query_op list \<Rightarrow> (nat \<Rightarrow> ('u, 's, 'n, 't) identity_manager) \<Rightarrow> int \<Rightarrow> nat \<Rightarrow> nat \<Rightarrow> bool" where
  "built_since os st b i n \<longleftrightarrow>
     (\<forall>d. keys_query_request_details (st n) = Some d \<longrightarrow> b \<le> sint (query_sequence_number d) \<longrightarrow>
        (\<exists>j now new_id dj. i \<le> j \<and> j < n \<and> os ! j = BuildRequests now new_id \<and>
           keys_query_request_details (st (Suc j)) = Some dj \<and> request_ids d \<subseteq> request_ids dj))"

lemma built_since_step:
  assumes "step_effect ops (os ! n) (st n) (st (Suc n))" and "built_since os st b i n" and "i \<le> n"
  shows "built_since os st b i (Suc n)"
  unfolding built_since_def
proof (intro allI impI)
  fix d assume d: "keys_query_request_details (st (Suc n)) = Some d" "b \<le> sint (query_sequence_number d)"
  from assms(1) d(1) consider now new_id where "os ! n = BuildRequests now new_id"
    | d0 where "keys_query_request_details (st n) = Some d0" "query_sequence_number d = query_sequence_number d0"
        "request_ids d \<subseteq> request_ids d0"
    unfolding step_effect_def details_step_def by blast
  then show "\<exists>j now new_id dj. i \<le> j \<and> j < Suc n \<and> os ! j = BuildRequests now new_id \<and>
       keys_query_request_details (st (Suc j)) = Some dj \<and> request_ids d \<subseteq> request_ids dj"
  proof cases
    case 1
    with d(1) assms(3) show ?thesis by blast
  next
    case 2
    then obtain j now new_id dj where "i \<le> j" "j < n" "os ! j = BuildRequests now new_id"
      "keys_query_request_details (st (Suc j)) = Some dj" "request_ids d0 \<subseteq> request_ids dj"
      using assms(2) d(2) unfolding built_since_def by metis
    with 2(3) show ?thesis by (meson less_SucI order_trans)
  qed
qed

lemma flag_kept_or_answered:
  assumes steps: "\<And>m. m < N \<Longrightarrow> query_inv (st m) \<and> step_effect ops (os ! m) (st m) (st (Suc m))"
    and x: "flag (kq_users (st (Suc i))) u = Some x" "flag (kq_users (st i)) u \<noteq> Some x"
    and "Suc i \<le> n" and "n \<le> N"
  shows "answered os st u i n \<or>
    (\<exists>s. flag (kq_users (st n)) u = Some s \<and> next_seq (kq_users (st i)) \<le> sint s) \<and>
    built_since os st (next_seq (kq_users (st i))) i n"
  using assms(4,5)
proof (induction n rule: dec_induct)
  case base
  let ?b = "next_seq (kq_users (st i))"
  have i: "query_inv (st i)" "step_effect ops (os ! i) (st i) (st (Suc i))" using steps [of i] base by simp_all
  then have "?b \<le> sint x" using x unfolding step_effect_def flags_step_def by blast
  moreover have "built_since os st ?b i i" using i(1) by (auto simp: built_since_def query_inv_def)
  ultimately show ?case using x(1) built_since_step [of ops os i st ?b i] i(2) by simp
next
  case (step n)
  let ?b = "next_seq (kq_users (st i))"
  have e: "step_effect ops (os ! n) (st n) (st (Suc n))" using steps [of n] step by simp
  have mono: "answered os st u i n \<Longrightarrow> answered os st u i (Suc n)" unfolding answered_def by (meson less_SucI)
  show ?case
  proof (cases "answered os st u i n")
    case False
    with step obtain s where s: "flag (kq_users (st n)) u = Some s" "?b \<le> sint s" and b: "built_since os st ?b i n"
      by auto
    from e s(1) consider s' where "flag (kq_users (st (Suc n))) u = Some s'" "sint s \<le> sint s'"
      | "answers (os ! n) (st n) u s" unfolding step_effect_def flags_step_def by blast
    then show ?thesis
    proof cases
      case 1
      with s(2) built_since_step [of ops os n st ?b i] e b step.hyps show ?thesis by (auto intro: order_trans)
    next
      case 2
      then obtain now rid resp d where r: "os ! n = Response now rid resp (Inr ())" "keys_query_request_details (st n) = Some d"
        "rid \<in> request_ids d" "u \<in> set (response_device_keys resp)" "sint s \<le> sint (query_sequence_number d)"
        by (cases "os ! n") (auto split: option.splits)
      with b s(2) obtain j now' new_id dj where "i \<le> j" "j < n" "os ! j = BuildRequests now' new_id"
        "keys_query_request_details (st (Suc j)) = Some dj" "request_ids d \<subseteq> request_ids dj"
        unfolding built_since_def by (meson order_trans)
      with r have "answered os st u i (Suc n)" unfolding answered_def by blast
      then show ?thesis ..
    qed
  qed (use mono in simp)
qed

text \<open>C4. A user whose device list was invalidated at some step, and who is not flagged
  any more later, was cleared by a response that was stored and that names the user, to a request that
  was built at or after that step. So a response to an older request never hides a change of the
  device list, however invalidations, requests, responses, waits and restarts of requests interleave.
  The sequence numbers wrap around; fewer than 2 ^ 63 users are flagged in the run.\<close>

theorem stale_response_ignored:
  assumes "m = identity_manager_new own s" and "tr = key_query_trace ops sn ps os m"
    and "kq_run_cost ops sn ps os m < 2 ^ 63" and "i < n" and "n \<le> length os"
    and "flag (kq_users (tr ! Suc i)) u = Some x" and "flag (kq_users (tr ! i)) u \<noteq> Some x"
    and "flag (kq_users (tr ! n)) u = None"
  shows "\<exists>j k now new_id d now' rid resp. i \<le> j \<and> j < k \<and> k < n \<and> os ! j = BuildRequests now new_id \<and>
    keys_query_request_details (tr ! Suc j) = Some d \<and> rid \<in> request_ids d \<and>
    os ! k = Response now' rid resp (Inr ()) \<and> u \<in> set (response_device_keys resp)"
proof -
  have "next_seq (kq_users m) = 0" "settings_ok (server_failures m)" "query_inv m"
    using query_inv_new [of own s]
    by (simp_all add: assms(1) identity_manager_new_def users_for_key_query_new_def settings_ok_new)
  then have "\<forall>k < length os. query_inv (tr ! k) \<and> step_effect ops (os ! k) (tr ! k) (tr ! Suc k)"
    using trace_steps [of m ops sn ps os] assms(2,3) by simp
  then have "answered os ((!) tr) u i n"
    using flag_kept_or_answered [of "length os" "(!) tr" ops os i u x n] assms(4-8) by auto
  then show ?thesis unfolding answered_def .
qed

section \<open>Waiting tasks\<close>

definition holds :: "('u, 's, 'z) key_query_manager_scheme \<Rightarrow> nat \<Rightarrow> nat \<Rightarrow> bool" where
  "holds m t i \<longleftrightarrow> kq_tasks m t = Some (Sleeping i) \<or> kq_tasks m t = Some (Woken i)"

definition wait_inv :: "('u, 's, 'z) key_query_manager_scheme \<Rightarrow> bool" where
  "wait_inv m \<longleftrightarrow> waiters_ok (kq_users m) (kq_waiters m) \<and>
     (\<forall>i. kq_waiters m i \<noteq> None \<longrightarrow> i < kq_next_waiter m) \<and>
     (\<forall>t i. holds m t i \<longrightarrow> kq_waiters m i \<noteq> None) \<and>
     (\<forall>t t' i. holds m t i \<longrightarrow> holds m t' i \<longrightarrow> t = t') \<and>
     (\<forall>t i w. kq_tasks m t = Some (Sleeping i) \<longrightarrow> kq_waiters m i = Some w \<longrightarrow> \<not> waiter_completed w)"

lemma wait_inv_frame [simp]:
  "wait_inv (m\<lparr>keys_query_request_details := x\<rparr>) = wait_inv m"
  "wait_inv (m\<lparr>server_failures := f\<rparr>) = wait_inv m"
  by (simp_all add: wait_inv_def holds_def)

lemma wait_inv_grows:
  assumes "wait_inv m" and "grows b (kq_users m) (kq_users m')" and "kq_waiters m' = kq_waiters m"
    and "kq_tasks m' = kq_tasks m" and "kq_next_waiter m' = kq_next_waiter m"
  shows "wait_inv m'"
  using assms grows_waiters [OF assms(2)] by (simp add: wait_inv_def holds_def)

lemma wait_inv_only_flags:
  assumes "wait_inv m" and "only_flags b m m'" and "seq_ok (kq_users m)" and "next_seq (kq_users m) + int b < 2 ^ 63"
  shows "wait_inv m'"
  using wait_inv_grows [OF assms(1) only_flags_grows [OF assms(2-4)]] only_flags_frame [OF assms(2)] by simp

lemma wait_inv_clears:
  assumes "wait_inv m" and "clears us q m m1" and "m' = notify_waiters (m1\<lparr>crypto_store := s\<rparr>)"
  shows "wait_inv m'"
proof -
  obtain k h where "m1 = m\<lparr>kq_users := k, kq_waiters := h\<rparr>" "dom h = dom (kq_waiters m)"
    "waiters_ok (kq_users m) (kq_waiters m) \<longrightarrow> waiters_ok k h"
    using assms(2) unfolding clears_def by blast
  with assms(1) have c: "waiters_ok (kq_users m1) (kq_waiters m1)" "dom (kq_waiters m1) = dom (kq_waiters m)"
    "kq_tasks m1 = kq_tasks m" "kq_next_waiter m1 = kq_next_waiter m"
    by (simp_all add: wait_inv_def)
  have tasks: "kq_tasks m' t = map_option wake (kq_tasks m t)" for t
    by (simp add: assms(3) notify_waiters_def c)
  have no_sleep: "kq_tasks m' t \<noteq> Some (Sleeping i)" for t i
    unfolding tasks by (cases "kq_tasks m t") (auto elim: wake.elims)
  have holds: "holds m' t i \<longleftrightarrow> holds m t i" for t i
    unfolding holds_def tasks by (cases "kq_tasks m t") (auto elim: wake.elims)
  have "kq_waiters m' i \<noteq> None \<longleftrightarrow> kq_waiters m i \<noteq> None" for i
    using c(2) by (auto simp: assms(3) notify_waiters_def dom_def)
  then show ?thesis
    using assms(1) c(1,4) no_sleep holds by (simp add: wait_inv_def) (simp add: assms(3) notify_waiters_def)
qed

lemma wait_inv_drop:
  assumes "wait_inv m" and "holds m t i" and "r \<noteq> Sleeping i" and "\<And>j. r \<noteq> Sleeping j \<and> r \<noteq> Woken j"
  shows "wait_inv (m\<lparr>kq_tasks := (kq_tasks m)(t \<mapsto> r), kq_waiters := (kq_waiters m)(i := None)\<rparr>)"
proof -
  let ?m = "m\<lparr>kq_tasks := (kq_tasks m)(t \<mapsto> r), kq_waiters := (kq_waiters m)(i := None)\<rparr>"
  have h: "holds ?m t' j \<longleftrightarrow> t' \<noteq> t \<and> holds m t' j" for t' j using assms(4) [of j] by (auto simp: holds_def)
  have other: "j \<noteq> i" if "holds m t' j" "t' \<noteq> t" for t' j using assms(1,2) that by (auto simp: wait_inv_def)
  show ?thesis
    unfolding wait_inv_def
  proof (intro conjI allI impI)
    show "waiters_ok (kq_users ?m) (kq_waiters ?m)" using assms(1) by (auto simp: wait_inv_def waiters_ok_def)
    show "kq_waiters ?m j \<noteq> None" if "holds ?m t' j" for t' j
      using assms(1) that other [of t' j] by (auto simp: h wait_inv_def)
    show "t1 = t2" if "holds ?m t1 j" "holds ?m t2 j" for t1 t2 j using assms(1) that by (auto simp: h wait_inv_def)
    show "\<not> waiter_completed w" if "kq_tasks ?m t' = Some (Sleeping j)" "kq_waiters ?m j = Some w" for t' j w
      using assms(1,4) that by (auto simp: wait_inv_def split: if_splits)
  qed (use assms(1) in \<open>auto simp: wait_inv_def split: if_splits\<close>)
qed

lemma wait_inv_resume: "wait_inv m \<Longrightarrow> wait_inv (resume_waiting t m)"
proof -
  assume inv: "wait_inv m"
  show ?thesis
  proof (cases "\<exists>i w. kq_tasks m t = Some (Woken i) \<and> kq_waiters m i = Some w")
    case True
    then obtain i w where w: "kq_tasks m t = Some (Woken i)" "kq_waiters m i = Some w" by blast
    then have hold: "holds m t i" by (simp add: holds_def)
    show ?thesis
    proof (cases "waiter_completed w")
      case True
      then show ?thesis using w wait_inv_drop [OF inv hold, of "Returned WasPending"] by (simp add: resume_waiting_def)
    next
      case False
      let ?m = "m\<lparr>kq_tasks := (kq_tasks m)(t \<mapsto> Sleeping i)\<rparr>"
      have "holds ?m t' j \<longleftrightarrow> holds m t' j" for t' j using w by (auto simp: holds_def)
      then have "wait_inv ?m" using inv w False by (simp add: wait_inv_def)
      then show ?thesis using w False by (simp add: resume_waiting_def)
    qed
  qed (use inv in \<open>auto simp: resume_waiting_def split: option.splits waiting_task.splits\<close>)
qed

lemma wait_inv_expire: "wait_inv m \<Longrightarrow> wait_inv (expire_waiting t m)"
proof -
  assume inv: "wait_inv m"
  show ?thesis
  proof (cases "\<exists>i. holds m t i")
    case True
    then obtain i where i: "holds m t i" by blast
    then show ?thesis using wait_inv_drop [OF inv i, of "Returned TimeoutExpired"]
      by (auto simp: expire_waiting_def holds_def Let_def)
  qed (use inv in \<open>auto simp: expire_waiting_def holds_def Let_def split: option.splits waiting_task.splits\<close>)
qed

lemma wait_inv_register:
  assumes "wait_inv m" and "seq_ok (kq_users m)" and "flag (kq_users m) u = Some s" and "kq_tasks m t = None"
    and "i = kq_next_waiter m" and "k = (kq_users m)\<lparr>tasks_awaiting_key_query := tasks_awaiting_key_query (kq_users m) @ [i]\<rparr>"
    and "w = \<lparr>waiter_user = u, waiter_sequence = s, waiter_completed = False\<rparr>"
  shows "wait_inv (m\<lparr>kq_users := k, kq_waiters := (kq_waiters m)(i \<mapsto> w), kq_next_waiter := Suc i,
           kq_tasks := (kq_tasks m)(t \<mapsto> Sleeping i)\<rparr>)" (is "wait_inv ?m")
proof -
  have h: "holds ?m t' j \<longleftrightarrow> (if t' = t then j = i else holds m t' j)" for t' j by (auto simp: holds_def)
  have other: "j < i" if "holds m t' j" for t' j using assms(1) that by (auto simp: wait_inv_def assms(5))
  have lt: "0 \<le> sint s" "sint s < next_seq (kq_users m)" using seq_ok_bound [OF assms(2,3)] by simp_all
  show ?thesis
    unfolding wait_inv_def
  proof (intro conjI allI impI)
    show "waiters_ok (kq_users ?m) (kq_waiters ?m)"
      using assms(1,3) lt unfolding wait_inv_def waiters_ok_def by (auto simp: assms(6,7))
    show "kq_waiters ?m j \<noteq> None" if "holds ?m t' j" for t' j
      using assms(1) that by (auto simp: h wait_inv_def split: if_splits)
    show "t1 = t2" if "holds ?m t1 j" "holds ?m t2 j" for t1 t2 j
      using assms(1) that other [of t1 j] other [of t2 j] by (auto simp: h wait_inv_def split: if_splits)
    show "\<not> waiter_completed w'" if "kq_tasks ?m t' = Some (Sleeping j)" "kq_waiters ?m j = Some w'" for t' j w'
      using assms(1) that by (auto simp: wait_inv_def assms(7) split: if_splits)
  qed (use assms(1) in \<open>auto simp: wait_inv_def assms(5) less_SucI split: if_splits\<close>)
qed

lemma wait_inv_start:
  fixes m :: "('u, 's, 'n, 't) identity_manager"
  assumes "wait_inv m" and "seq_ok (kq_users m)" and "next_seq (kq_users m) + int (load_size ops m) < 2 ^ 63"
    and "kq_tasks m t = None"
  shows "wait_inv (snd (start_waiting ops t u m))"
proof -
  obtain r m1 where e: "ensure_sync_tracked_users ops m = (r, m1)" by fastforce
  have f: "only_flags (load_size ops m) m m1" using ensure_only_flags [of ops m] e by simp
  have inv: "wait_inv m1" using wait_inv_only_flags [OF assms(1) f assms(2,3)] .
  have seq: "seq_ok (kq_users m1)" using only_flags_grows [OF f assms(2,3)] by (simp add: grows_def)
  have t: "kq_tasks m1 t = None" using only_flags_frame [OF f] assms(4) by simp
  show ?thesis
  proof (cases r)
    case (Inr x)
    show ?thesis
    proof (cases "flag (kq_users m1) u")
      case None
      have "holds (m1\<lparr>kq_tasks := (kq_tasks m1)(t \<mapsto> Returned WasNotPending)\<rparr>) t' j \<longleftrightarrow> holds m1 t' j" for t' j
        using t by (auto simp: holds_def)
      then have "wait_inv (m1\<lparr>kq_tasks := (kq_tasks m1)(t \<mapsto> Returned WasNotPending)\<rparr>)"
        using inv by (simp add: wait_inv_def)
      with e Inr None show ?thesis by (simp add: start_waiting_def maybe_register_waiting_task_def)
    next
      case (Some s)
      with e Inr wait_inv_register [OF inv seq Some t refl refl refl] show ?thesis
        by (simp add: start_waiting_def maybe_register_waiting_task_def)
    qed
  qed (use e inv in \<open>simp add: start_waiting_def\<close>)
qed

definition durable :: "('u, 's, 'e) tracked_store \<Rightarrow> bool" where
  "durable ops \<longleftrightarrow> (\<forall>us s. fst (save_tracked_users ops us s) = Inr ())"

lemma wait_inv_finish:
  fixes m :: "('u, 's, 'n, 't) identity_manager"
  assumes "wait_inv m" and "query_inv m" and "next_seq (kq_users m) + int (load_size ops m) < 2 ^ 63" and "durable ops"
  shows "wait_inv (snd (finish_keys_query ops rid us m))"
proof (cases "\<exists>d. keys_query_request_details m = Some d \<and> rid \<in> request_ids d")
  case True
  then obtain d where d: "keys_query_request_details m = Some d" "rid \<in> request_ids d" by blast
  let ?m0 = "m\<lparr>keys_query_request_details := Some (d\<lparr>request_ids := request_ids d - {rid}\<rparr>)\<rparr>"
  let ?q = "query_sequence_number d"
  have inv0: "wait_inv ?m0" using assms(1) by simp
  have seq0: "seq_ok (kq_users ?m0)" "- 1 \<le> sint ?q" using assms(2) d(1) by (simp_all add: query_inv_def)
  obtain r m1 where e: "ensure_sync_tracked_users ops ?m0 = (r, m1)" by fastforce
  have f: "only_flags (load_size ops m) ?m0 m1" using ensure_only_flags [of ops ?m0] e by (simp add: load_size_def)
  have inv1: "wait_inv m1" using wait_inv_only_flags [OF inv0 f seq0(1)] assms(3) by simp
  have "seq_ok (kq_users m1)" using only_flags_grows [OF f seq0(1)] assms(3) by (simp add: grows_def)
  then have c: "clears us ?q m1 (snd (clear_tracked_users us ?q m1))" using seq0(2) by (rule clear_tracked_users_clears)
  obtain upd m2 where cl: "clear_tracked_users us ?q m1 = (upd, m2)" by fastforce
  obtain s where sv: "save_tracked_users ops upd (crypto_store m2) = (Inr (), s)"
    using assms(4) by (metis durable_def prod.collapse)
  have "snd (mark_tracked_users_as_up_to_date ops us ?q m1) = notify_waiters (m2\<lparr>crypto_store := s\<rparr>)"
    using cl sv by (simp add: mark_tracked_users_as_up_to_date_def save_updates_def)
  then have "wait_inv (snd (mark_tracked_users_as_up_to_date ops us ?q m1))"
    using wait_inv_clears [OF inv1 c] cl by simp
  then show ?thesis using d e inv1 by (cases r) (simp_all add: finish_keys_query_def)
qed (use assms(1) in \<open>auto simp: finish_keys_query_def split: option.splits\<close>)

lemma wait_inv_build:
  fixes m :: "('u, 's, 'n, 't::linorder) identity_manager"
  assumes "wait_inv m" and "query_inv m" and "next_seq (kq_users m) + int (load_size ops m + 1) < 2 ^ 63"
  shows "wait_inv (snd (users_for_key_query_requests ops sn now new_id m))"
proof -
  let ?m0 = "m\<lparr>keys_query_request_details := None\<rparr>"
  obtain r m1 where u: "users_to_query ops ?m0 = (r, m1)" by fastforce
  have f: "only_flags (load_size ops m + 1) ?m0 m1"
    using users_to_query_only_flags [of ops ?m0] u by (simp add: load_size_def)
  have inv0: "wait_inv ?m0" using assms(1) by simp
  have "wait_inv m1" using wait_inv_only_flags [OF inv0 f] assms(2,3) by (simp add: query_inv_def)
  then show ?thesis using u
    by (cases r) (auto simp: users_for_key_query_requests_def Let_def)
qed

lemma wait_inv_exec:
  assumes "key_query_exec ops sn ps op m = Done m'" and "wait_inv m" and "query_inv m"
    and "next_seq (kq_users m) + int (kq_op_cost ops op m) < 2 ^ 63" and "durable ops"
  shows "wait_inv m'"
proof -
  have seq: "seq_ok (kq_users m)" using assms(3) by (simp add: query_inv_def)
  note flags = wait_inv_only_flags [OF assms(2) _ seq assms(4)]
  show ?thesis
  proof (cases op)
    case (UpdateTracked us)
    then show ?thesis using assms(1) flags only_flags_ops(1) [of ops us m] by simp
  next
    case (DeviceChanges us)
    then show ?thesis using assms(1) flags only_flags_ops(2) [of ops us m] by simp
  next
    case (UserChanged u)
    then show ?thesis using assms(1) flags only_flags_ops(3) [of ops u m] by simp
  next
    case AllDirty
    then show ?thesis using assms(1) flags only_flags_ops(4) [of ops m] by simp
  next
    case (BuildRequests now new_id)
    then show ?thesis using assms wait_inv_build [of m ops sn now new_id] by simp
  next
    case (Response now rid resp saved)
    then obtain r f where "(case saved of Inl e \<Rightarrow> (Inl e, m\<lparr>server_failures := f\<rparr>)
        | Inr _ \<Rightarrow> finish_keys_query ops rid (response_device_keys resp) (m\<lparr>server_failures := f\<rparr>)) = (r, m')"
      using assms(1) by (auto simp: receive_keys_query_response_def Let_def)
    moreover have "wait_inv (m\<lparr>server_failures := f\<rparr>)" "query_inv (m\<lparr>server_failures := f\<rparr>)"
      using assms(2,3) by (simp_all add: query_inv_def)
    ultimately show ?thesis
      using wait_inv_finish [of "m\<lparr>server_failures := f\<rparr>" ops rid "response_device_keys resp"] assms(4,5) Response
      by (cases saved) (auto simp: load_size_def)
  next
    case (StartWaiting t u)
    then show ?thesis using assms wait_inv_start [OF assms(2) seq, of ops t u] by (auto split: if_splits)
  qed (use assms in \<open>auto simp: wait_inv_resume wait_inv_expire\<close>)
qed

lemma wait_inv_run:
  assumes "wait_inv m" and "query_inv m" and "settings_ok (server_failures m)" and "durable ops"
    and "next_seq (kq_users m) + int (kq_run_cost ops sn ps os m) < 2 ^ 63"
  shows "\<exists>m'. key_query_run ops sn ps os m = Done m' \<and> wait_inv m'"
  using assms(1-3,5)
proof (induction os arbitrary: m)
  case (Cons op os)
  obtain m' where m': "key_query_exec ops sn ps op m = Done m'" "settings_ok (server_failures m')"
    using exec_total [OF Cons.prems(3)] by blast
  have e: "step_effect ops op m m'" using m'(1) Cons.prems by (intro exec_effect) simp_all
  then have "query_inv m'" "next_seq (kq_users m') \<le> next_seq (kq_users m) + int (kq_op_cost ops op m)"
    by (simp_all add: step_effect_def flags_step_def)
  moreover have "wait_inv m'" using wait_inv_exec [OF m'(1) Cons.prems(1,2) _ assms(4)] Cons.prems(4) by simp
  ultimately show ?case using Cons.IH [of m'] m' Cons.prems(4) by simp
qed simp


section \<open>The requests\<close>

lemma concat_user_chunks: "0 < n \<Longrightarrow> concat (user_chunks n us) = us"
proof (induction n us rule: user_chunks.induct)
  case (1 n us)
  then show ?case by (subst user_chunks.simps) auto
qed

lemma user_chunks_size: "c \<in> set (user_chunks n us) \<Longrightarrow> 0 < length c \<and> length c \<le> n"
proof (induction n us rule: user_chunks.induct)
  case (1 n us)
  from "1.prems" have "us \<noteq> []" "n \<noteq> 0" by (subst (asm) user_chunks.simps; auto split: if_splits)+
  with "1.prems" have "c = take n us \<or> c \<in> set (user_chunks n (drop n us))"
    by (subst (asm) user_chunks.simps) auto
  with "1.IH" \<open>us \<noteq> []\<close> \<open>n \<noteq> 0\<close> show ?case by auto
qed

lemma length_user_chunks: "0 < n \<Longrightarrow> length (user_chunks n us) = (length us + n - 1) div n"
proof (induction n us rule: user_chunks.induct)
  case (1 n us)
  show ?case
  proof (cases "us = []")
    case True
    with "1.prems" show ?thesis by (subst user_chunks.simps) simp
  next
    case False
    have "length (user_chunks n us) = Suc (length (user_chunks n (drop n us)))"
      using False "1.prems" by (subst user_chunks.simps) simp
    also have "\<dots> = Suc ((length us - n + n - 1) div n)" using "1.IH" False "1.prems" by simp
    also have "\<dots> = (length us - n + n - 1 + n) div n" using "1.prems" by (simp only: div_add_self2 Suc_eq_plus1)
    also have "\<dots> = (length us + n - 1) div n"
    proof (cases "n \<le> length us")
      case True
      with "1.prems" show ?thesis by (intro arg_cong [where f = "\<lambda>x. x div n"]) linarith
    next
      case small: False
      have "length us - n + n - 1 + n = (n - 1) + n" using small "1.prems" by linarith
      moreover have "length us + n - 1 = (length us - 1) + n" using False by (cases us) simp_all
      moreover have "(n - 1) div n = 0" "(length us - 1) div n = 0" using small "1.prems" by simp_all
      ultimately show ?thesis using "1.prems" by (simp only: div_add_self2)
    qed
    finally show ?thesis .
  qed
qed

lemma mset_btree_insert: "k \<notin> fst ` set m \<Longrightarrow> mset (btree_insert k v m) = add_mset (k, v) (mset m)"
  by (induction m) auto

lemma fold_btree_insert:
  assumes "inj new_id" and "\<forall>j \<ge> i. new_id j \<notin> fst ` set acc"
  shows "mset (fold (\<lambda>(j, c). btree_insert (new_id j) c) (enumerate i cs) acc) =
    mset acc + mset (map (\<lambda>(j, c). (new_id j, c)) (enumerate i cs))"
  using assms(2)
proof (induction cs arbitrary: i acc)
  case (Cons c cs)
  have "mset (btree_insert (new_id i) c acc) = add_mset (new_id i, c) (mset acc)"
    using Cons.prems by (intro mset_btree_insert) simp
  moreover have "\<forall>j \<ge> Suc i. new_id j \<notin> fst ` set (btree_insert (new_id i) c acc)"
    using Cons.prems assms(1) by (auto simp: inj_eq)
  ultimately show ?case using Cons.IH [of "Suc i" "btree_insert (new_id i) c acc"] by simp
qed simp

lemma mset_concat_cong: "mset xs = mset ys \<Longrightarrow> mset (concat xs) = mset (concat ys)"
  by (metis mset_concat mset_map sum_mset_sum_list)

lemma build_requests_partition:
  assumes "inj new_id"
  shows "mset (concat (map snd (build_requests new_id us))) = mset us"
    and "length (build_requests new_id us) = (length us + 249) div 250"
    and "(rid, c) \<in> set (build_requests new_id us) \<Longrightarrow> 0 < length c \<and> length c \<le> 250"
proof -
  let ?cs = "user_chunks MAX_KEY_QUERY_USERS us"
  let ?es = "map (\<lambda>(j, c). (new_id j, c)) (enumerate 0 ?cs)"
  have eq: "mset (build_requests new_id us) = mset ?es"
    unfolding build_requests_def using fold_btree_insert [OF assms, of 0 "[]" ?cs] by simp
  have snd: "map snd ?es = ?cs" by (simp add: comp_def case_prod_beta)
  have "mset (concat (map snd (build_requests new_id us))) = mset (concat (map snd ?es))"
    using eq by (intro mset_concat_cong) (simp only: mset_map)
  then show "mset (concat (map snd (build_requests new_id us))) = mset us"
    unfolding snd by (simp add: concat_user_chunks MAX_KEY_QUERY_USERS_def)
  have "length (build_requests new_id us) = length ?es" using eq by (metis size_mset)
  then show "length (build_requests new_id us) = (length us + 249) div 250"
    by (simp add: length_user_chunks MAX_KEY_QUERY_USERS_def)
  assume "(rid, c) \<in> set (build_requests new_id us)"
  then have "(rid, c) \<in> set ?es" using mset_eq_setD [OF eq] by simp
  then have "c \<in> set (map snd ?es)" by force
  then have "c \<in> set ?cs" unfolding snd .
  from user_chunks_size [OF this] show "0 < length c \<and> length c \<le> 250" by (simp add: MAX_KEY_QUERY_USERS_def)
qed

lemma distinct_fold_insert_user:
  "distinct (map fst (user_map k)) \<Longrightarrow> distinct (map fst (user_map (fold insert_user us k)))"
proof (induction us arbitrary: k)
  case (Cons u us)
  have "distinct (map fst (user_map (insert_user u k)))"
    using Cons.prems by (simp add: insert_user_def Let_def distinct_update)
  from Cons.IH [OF this] show ?case by simp
qed simp

text \<open>C13. The requests for keys contain exactly the flagged users whose server is not in
  the cache of failures, each once, in as few requests of at most 250 users as possible, and the
  manager remembers exactly their identifiers as in flight with the sequence number of the last
  invalidation. When nobody needs a query no request is built, and the own user is tracked. Identifiers
  of requests are distinct, and so are the keys of the map of users.\<close>

theorem requests_cover_flagged_users:
  fixes m :: "('u, 's, 'n, 't::linorder) identity_manager"
  assumes "users_for_key_query_requests ops sn now new_id m = (Inr reqs, m')" and "inj new_id"
    and "distinct (map fst (user_map (kq_users m)))"
  shows "(let us = filter (\<lambda>u. \<not> cache_contains now (sn u) (server_failures m')) (map fst (user_map (kq_users m'))) in
     distinct (concat (map snd reqs)) \<and> set (concat (map snd reqs)) = set us \<and> length reqs = (length us + 249) div 250) \<and>
   (\<forall>r \<in> set reqs. 0 < length (snd r) \<and> length (snd r) \<le> 250) \<and>
   (if user_map (kq_users m') = [] then keys_query_request_details m' = None \<and> own_user_id m' \<in> tracked_users m'
    else keys_query_request_details m' =
      Some \<lparr>query_sequence_number = sequence_previous (next_sequence_number (kq_users m')), request_ids = set (map fst reqs)\<rparr>)"
proof -
  let ?m0 = "m\<lparr>keys_query_request_details := None\<rparr>"
  obtain users q m1 where u: "users_to_query ops ?m0 = (Inr (users, q), m1)"
    using assms(1) by (cases "users_to_query ops ?m0"; cases "fst (users_to_query ops ?m0)")
      (auto simp: users_for_key_query_requests_def)
  note res = users_to_query_result [OF u]
  have frame: "keys_query_request_details m1 = None"
    using only_flags_manager_frame [OF users_to_query_only_flags [of ops ?m0]] u by simp
  have dist: "distinct users"
    using users_to_query_only_flags [of ops ?m0] u res(1) assms(3) distinct_fold_insert_user
    by (auto simp: only_flags_def)
  show ?thesis
  proof (cases "users = []")
    case True
    then have "m' = m1" "reqs = []" using assms(1) u by (simp_all add: users_for_key_query_requests_def)
    then show ?thesis using True res frame by simp
  next
    case False
    let ?us = "filter (\<lambda>u. \<not> cache_contains now (sn u) (server_failures m1)) users"
    have r: "reqs = build_requests new_id ?us" and m': "m' = m1\<lparr>keys_query_request_details :=
        Some \<lparr>query_sequence_number = q, request_ids = set (map fst reqs)\<rparr>\<rparr>"
      using assms(1) u False by (auto simp: users_for_key_query_requests_def Let_def)
    have parts: "mset (concat (map snd reqs)) = mset ?us" "length reqs = (length ?us + 249) div 250"
      "\<forall>x \<in> set reqs. 0 < length (snd x) \<and> length (snd x) \<le> 250"
      unfolding r using build_requests_partition [OF assms(2), where us = ?us] by auto
    have "distinct (concat (map snd reqs))" "set (concat (map snd reqs)) = set ?us"
      using parts(1) dist by (metis distinct_filter mset_eq_imp_distinct_iff, metis mset_eq_setD)
    moreover have "user_map (kq_users m') \<noteq> []" using False res(1) by (simp add: m')
    ultimately show ?thesis using parts(2,3) res(1,2) by (simp add: m')
  qed
qed

section \<open>An example run\<close>

definition example_key_ops :: "(string, nat, unit) key_query_op list" where
  "example_key_ops =
     [UpdateTracked [''@a:x''], StartWaiting 0 ''@a:x'', BuildRequests 0 (\<lambda>i. i),
      Response 0 0 \<lparr>response_failures = [], response_device_keys = [''@a:x'']\<rparr> (Inr ())]"

definition example_manager :: "(string, (string \<times> string tracked_user) list, string, nat) identity_manager" where
  "example_manager = identity_manager_new ''@me:x'' []"

definition example_store :: "(string, (string \<times> string tracked_user) list, unit) tracked_store" where
  "example_store = memory_store"

lemmas key_query_eval =
  example_store_def
  example_key_ops_def example_manager_def identity_manager_new_def users_for_key_query_new_def
  manager_update_tracked_users_def ensure_sync_tracked_users_def memory_store_def memory_load_def memory_save_def
  update_tracked_users_def save_updates_def insert_user_def sequence_increment_def sequence_previous_def sequence_cmp_def
  start_waiting_def maybe_register_waiting_task_def users_for_key_query_requests_def users_to_query_def
  fetch_users_for_key_query_def build_requests_def user_chunks.simps MAX_KEY_QUERY_USERS_def
  cache_contains_def failures_cache_new_def receive_keys_query_response_def map_filter_simps cache_remove_def
  finish_keys_query_def mark_tracked_users_as_up_to_date_def maybe_remove_user_def notify_waiters_def
  load_size_def Let_def

lemma example_cost: "kq_run_cost example_store (\<lambda>u. u) Some example_key_ops example_manager < 2 ^ 63"
  by (simp add: key_query_eval)

theorem stale_response_ignored_witness:
  "\<exists>j k now new_id d now' rid resp. 0 \<le> j \<and> j < k \<and> k < 4 \<and> example_key_ops ! j = BuildRequests now new_id \<and>
    keys_query_request_details (key_query_trace example_store (\<lambda>u. u) Some example_key_ops example_manager ! Suc j) = Some d \<and>
    rid \<in> request_ids d \<and> example_key_ops ! k = Response now' rid resp (Inr ()) \<and> ''@a:x'' \<in> set (response_device_keys resp)"
proof (rule stale_response_ignored [of example_manager "''@me:x''" "[]" _ example_store "\<lambda>u. u" Some example_key_ops 0 4 "''@a:x''" 0])
  let ?tr = "key_query_trace example_store (\<lambda>u. u) Some example_key_ops example_manager"
  show "flag (kq_users (?tr ! Suc 0)) ''@a:x'' = Some 0" by (simp add: key_query_eval)
  show "flag (kq_users (?tr ! 0)) ''@a:x'' \<noteq> Some 0" by (simp add: key_query_eval)
  show "flag (kq_users (?tr ! 4)) ''@a:x'' = None" by (simp add: key_query_eval)
  show "4 \<le> length example_key_ops" by (simp add: example_key_ops_def)
qed (rule example_manager_def example_cost refl | simp)+


theorem requests_cover_flagged_users_witness:
  "\<exists>reqs m. users_for_key_query_requests example_store (\<lambda>u. u) 0 (\<lambda>i. i)
        (snd (manager_update_tracked_users example_store [''@a:x''] example_manager)) = (Inr reqs, m) \<and>
     set (concat (map snd reqs)) = {''@a:x''} \<and> length reqs = 1 \<and> keys_query_request_details m \<noteq> None"
proof -
  let ?m = "snd (manager_update_tracked_users example_store [''@a:x''] example_manager)"
  obtain reqs m where r: "users_for_key_query_requests example_store (\<lambda>u. u) 0 (\<lambda>i. i) ?m = (Inr reqs, m)"
    by (simp add: key_query_eval)
  have "distinct (map fst (user_map (kq_users ?m)))" by (simp add: key_query_eval)
  note cover = requests_cover_flagged_users [OF r _ this]
  have "user_map (kq_users m) = [(''@a:x'', 0)]" "server_failures m = failures_cache_new"
    using r by (auto simp: key_query_eval)
  with cover r show ?thesis by (intro exI [of _ reqs] exI [of _ m]) (simp add: Let_def inj_def cache_contains_def failures_cache_new_def)
qed

section \<open>A store that fails\<close>

text \<open>
  When the write that follows the clearing of the users fails, the waiters are marked as completed but
  nobody is notified: the task sleeps although the user is up to date.
\<close>

definition failing_store :: "(string, nat, unit) tracked_store" where
  "failing_store = \<lparr>load_tracked_users = \<lambda>s. Inr [], save_tracked_users = \<lambda>us s. (if s = 0 then Inr () else Inl (), Suc s)\<rparr>"

theorem failed_write_loses_wakeup:
  "\<exists>m w. key_query_run failing_store (\<lambda>u. u) Some example_key_ops
       (identity_manager_new ''@me:x'' 0 :: (string, nat, string, nat) identity_manager) = Done m \<and>
     kq_tasks m 0 = Some (Sleeping 0) \<and> kq_waiters m 0 = Some w \<and> waiter_completed w \<and>
     flag (kq_users m) ''@a:x'' = None"
  by (simp add: key_query_eval failing_store_def)

end
