(* ===== verification/Tracked_Users_Store.thy ===== *)
theory Tracked_Users_Store
  imports Key_Query_Safety
begin

text \<open>
  The contract of the crypto store on tracked users (\<open>load_tracked_users\<close> and \<open>save_tracked_users\<close> of
  the trait \<open>CryptoStore\<close>) as a locale, what the manager of key queries guarantees on top of it, and
  the memory store (\<open>store/memorystore.rs\<close>) as an instance.
\<close>

section \<open>The contract\<close>

lemma flag_fold_insert_user: "flag (fold insert_user us k) u = None \<longleftrightarrow> u \<notin> set us \<and> flag k u = None"
  by (induction us arbitrary: k) auto

lemma map_of_rev_True: "map_of (rev (map (\<lambda>u. (u, True)) us)) = (\<lambda>u. if u \<in> set us then Some True else None)"
  by (induction us) (auto simp: fun_eq_iff map_add_def split: option.splits)

lemma clear_updates:
  assumes "seq_ok (kq_users m)" and "- 1 \<le> sint q" and "clear_tracked_users us q m = (upd, m')"
  shows "fst ` set upd = set us \<inter> tracked_users m \<and> (\<forall>(u, dirty) \<in> set upd. dirty \<longleftrightarrow> flag (kq_users m') u \<noteq> None)"
  using assms(1,3)
proof (induction us arbitrary: m upd)
  case (Cons u us)
  show ?case
  proof (cases "u \<in> tracked_users m")
    case True
    obtain c k h where r: "maybe_remove_user u q (kq_users m) (kq_waiters m) = (c, k, h)" by (metis prod_cases3)
    note flags = maybe_remove_user_flags [OF r Cons.prems(1) assms(2)]
    let ?m = "m\<lparr>kq_users := k, kq_waiters := h\<rparr>"
    obtain upd' where rest: "clear_tracked_users us q ?m = (upd', m')" "upd = (u, \<not> c) # upd'"
      using Cons.prems(2) True r by (auto simp: Let_def split: prod.splits)
    have IH: "fst ` set upd' = set us \<inter> tracked_users m" "\<forall>(u, dirty) \<in> set upd'. dirty \<longleftrightarrow> flag (kq_users m') u \<noteq> None"
      using Cons.IH [of ?m upd'] rest(1) flags(2) by simp_all
    have "flag (kq_users m') = cleared_flags (set (u # us) \<inter> tracked_users m) q (flag (kq_users m))"
      using clear_tracked_users_clears [OF Cons.prems(1) assms(2), of "u # us"] Cons.prems(2)
      by (auto simp: clears_def)
    then have "(\<not> c) \<longleftrightarrow> flag (kq_users m') u \<noteq> None" using True flags(3) by (auto simp: cleared_flags_def)
    then show ?thesis using IH rest(2) True by auto
  next
    case False
    then show ?thesis using Cons.IH [of m upd] Cons.prems by simp
  qed
qed simp

lemma map_of_rev_const:
  assumes "\<forall>(u, b) \<in> set xs. b = f u"
  shows "map_of (rev xs) u = (if u \<in> fst ` set xs then Some (f u) else None)"
proof (cases "map_of (rev xs) u")
  case None
  then show ?thesis by (auto simp: map_of_eq_None_iff)
next
  case (Some b)
  then have "(u, b) \<in> set xs" using map_of_SomeD by fastforce
  with assms Some show ?thesis by force
qed

text \<open>What a store should say about the users, given the state of the manager.\<close>

definition view :: "('u, 's, 'z) key_query_manager_scheme \<Rightarrow> 'u \<rightharpoonup> bool" where
  "view m = (\<lambda>u. if u \<in> tracked_users m then Some (flag (kq_users m) u \<noteq> None) else None)"

locale tracked_users_contract =
  fixes ops :: "('u, 's, 'e) tracked_store" and store_inv :: "'s \<Rightarrow> bool" and content :: "'s \<Rightarrow> 'u \<rightharpoonup> bool"
  assumes load: "store_inv s \<Longrightarrow> \<exists>us. load_tracked_users ops s = Inr us \<and> distinct (map tracked_user_id us) \<and>
      content s = map_of (map (\<lambda>t. (tracked_user_id t, tracked_dirty t)) us)"
    and save: "store_inv s \<Longrightarrow> \<exists>s'. save_tracked_users ops us s = (Inr (), s') \<and> store_inv s' \<and>
      content s' = content s ++ map_of (rev us)"
begin

definition synced :: "('u, 's, 'z) key_query_manager_scheme \<Rightarrow> bool" where
  "synced m \<longleftrightarrow> store_inv (crypto_store m) \<and> dom (flag (kq_users m)) \<subseteq> tracked_users m \<and>
     (if loaded_tracked_users m then content (crypto_store m) = view m
      else tracked_users m = {} \<and> user_map (kq_users m) = [])"

lemma ensure_synced:
  assumes "synced m"
  obtains m' where "ensure_sync_tracked_users ops m = (Inr (), m')" and "synced m'" and "loaded_tracked_users m'"
    and "crypto_store m' = crypto_store m"
proof (cases "loaded_tracked_users m")
  case True
  with assms that [of m] show ?thesis by (simp add: ensure_sync_tracked_users_def)
next
  case False
  then have e: "tracked_users m = {}" "user_map (kq_users m) = []" and i: "store_inv (crypto_store m)"
    using assms by (simp_all add: synced_def)
  obtain us where us: "load_tracked_users ops (crypto_store m) = Inr us" "distinct (map tracked_user_id us)"
    "content (crypto_store m) = map_of (map (\<lambda>t. (tracked_user_id t, tracked_dirty t)) us)"
    using load [OF i] by blast
  let ?m = "(load_users us m)\<lparr>loaded_tracked_users := True\<rparr>"
  have flags: "flag (kq_users ?m) u = None \<longleftrightarrow> (\<forall>t \<in> set us. tracked_user_id t = u \<longrightarrow> \<not> tracked_dirty t)" for u
    using e by (auto simp: load_users_eq flag_fold_insert_user)
  have "content (crypto_store m) u = view ?m u" for u
  proof (cases "u \<in> tracked_user_id ` set us")
    case False
    then have "u \<notin> fst ` set (map (\<lambda>t. (tracked_user_id t, tracked_dirty t)) us)" by auto
    then have "content (crypto_store m) u = None" unfolding us(3) map_of_eq_None_iff .
    moreover have "view ?m u = None" using False e by (auto simp: view_def load_users_eq)
    ultimately show ?thesis by simp
  next
    case True
    then obtain t where t: "t \<in> set us" "u = tracked_user_id t" by blast
    have only: "t' = t" if "t' \<in> set us" "tracked_user_id t' = u" for t'
      using us(2) t that by (auto simp: distinct_map inj_on_def)
    have "content (crypto_store m) u = Some (tracked_dirty t)"
      unfolding us(3) using us(2) t by (intro map_of_is_SomeI) (auto simp: comp_def)
    moreover have "flag (kq_users ?m) u = None \<longleftrightarrow> \<not> tracked_dirty t" unfolding flags using t only by blast
    moreover have "u \<in> tracked_users ?m" using True by (simp add: load_users_eq)
    ultimately show ?thesis by (simp add: view_def)
  qed
  then have "content (crypto_store m) = view ?m" by blast
  moreover have "dom (flag (kq_users ?m)) \<subseteq> tracked_users ?m"
    using flags by (auto simp: dom_def load_users_eq)
  moreover have "crypto_store ?m = crypto_store m" by (simp add: load_users_eq)
  ultimately show ?thesis
    using False us(1) i by (intro that [of ?m]) (simp_all add: ensure_sync_tracked_users_def synced_def)
qed

lemma save_synced:
  assumes "store_inv (crypto_store m)" and "loaded_tracked_users m" and "dom (flag (kq_users m)) \<subseteq> tracked_users m"
    and "content (crypto_store m) ++ map_of (rev upd) = view m"
  obtains m' where "save_updates ops upd m = (Inr (), m')" and "synced m'" and "loaded_tracked_users m'"
    and "kq_tasks m' = kq_tasks m"
proof -
  obtain s where s: "save_tracked_users ops upd (crypto_store m) = (Inr (), s)" "store_inv s"
    "content s = content (crypto_store m) ++ map_of (rev upd)" using save [OF assms(1), of upd] by blast
  have "view (m\<lparr>crypto_store := s\<rparr>) = view m" by (simp add: view_def cong: if_cong)
  then show ?thesis using s assms by (intro that [of "m\<lparr>crypto_store := s\<rparr>"]) (simp_all add: save_updates_def synced_def)
qed

end

context tracked_users_contract
begin

lemma flags_synced:
  assumes "synced m" and "loaded_tracked_users m" and "tracked_users m \<subseteq> T" and "set us \<subseteq> T"
    and "T \<subseteq> tracked_users m \<union> set us"
  obtains m' where "save_updates ops (map (\<lambda>u. (u, True)) us)
      (m\<lparr>tracked_users := T, kq_users := fold insert_user us (kq_users m)\<rparr>) = (Inr (), m')"
    and "synced m'" and "loaded_tracked_users m'" and "kq_tasks m' = kq_tasks m"
proof -
  let ?m = "m\<lparr>tracked_users := T, kq_users := fold insert_user us (kq_users m)\<rparr>"
  have c: "content (crypto_store m) = view m" "store_inv (crypto_store m)" "dom (flag (kq_users m)) \<subseteq> tracked_users m"
    using assms(1,2) by (simp_all add: synced_def)
  have "content (crypto_store ?m) ++ map_of (rev (map (\<lambda>u. (u, True)) us)) = view ?m"
    unfolding map_of_rev_True using assms(3-5)
    by (auto simp: fun_eq_iff c(1) view_def map_add_def flag_fold_insert_user)
  moreover have "dom (flag (kq_users ?m)) \<subseteq> tracked_users ?m"
    using c(3) assms(3,4) by (auto simp: dom_def flag_fold_insert_user simp del: not_None_eq)
  ultimately show ?thesis using save_synced [of ?m "map (\<lambda>u. (u, True)) us"] c(2) assms(2) that by auto
qed

lemma update_tracked_synced:
  assumes "synced m" and "loaded_tracked_users m"
  obtains m' where "update_tracked_users ops us m = (Inr (), m')" and "synced m'"
proof -
  let ?us = "new_users (tracked_users m) us"
  obtain m' where "save_updates ops (map (\<lambda>u. (u, True)) ?us)
      (m\<lparr>tracked_users := tracked_users m \<union> set us, kq_users := fold insert_user ?us (kq_users m)\<rparr>) = (Inr (), m')"
    "synced m'"
    by (rule flags_synced [OF assms, of "tracked_users m \<union> set us" ?us]) (auto simp: set_new_users)
  then show ?thesis by (intro that) (simp_all add: update_tracked_users_def track_users_eq)
qed

lemma mark_changed_synced:
  assumes "synced m" and "loaded_tracked_users m"
  obtains m' where "mark_tracked_users_as_changed ops us m = (Inr (), m')" and "synced m'"
proof -
  let ?us = "filter (\<lambda>u. u \<in> tracked_users m) us"
  obtain m' where "save_updates ops (map (\<lambda>u. (u, True)) ?us)
      (m\<lparr>tracked_users := tracked_users m, kq_users := fold insert_user ?us (kq_users m)\<rparr>) = (Inr (), m')"
    "synced m'"
    by (rule flags_synced [OF assms, of "tracked_users m" ?us]) auto
  then show ?thesis by (intro that) (simp_all add: mark_tracked_users_as_changed_def flag_tracked_users_eq)
qed

lemma mark_user_synced:
  assumes "synced m" and "loaded_tracked_users m"
  obtains m' where "mark_user_as_changed ops u m = (Inr (), m')" and "synced m'"
proof -
  obtain m' where "save_updates ops (map (\<lambda>u. (u, True)) [u])
      (m\<lparr>tracked_users := insert u (tracked_users m), kq_users := fold insert_user [u] (kq_users m)\<rparr>) = (Inr (), m')"
    "synced m'"
    by (rule flags_synced [OF assms, of "insert u (tracked_users m)" "[u]"]) auto
  moreover have "m\<lparr>tracked_users := insert u (tracked_users m), kq_users := insert_user u (kq_users m)\<rparr> =
      m\<lparr>kq_users := insert_user u (kq_users m), tracked_users := insert u (tracked_users m)\<rparr>"
    by (rule key_query_manager.equality) simp_all
  ultimately show ?thesis by (intro that) (simp_all add: mark_user_as_changed_def)
qed

lemma up_to_date_synced:
  assumes "synced m" and "loaded_tracked_users m" and "seq_ok (kq_users m)" and "- 1 \<le> sint q"
  obtains m' where "mark_tracked_users_as_up_to_date ops us q m = (Inr (), m')" and "synced m'"
proof -
  obtain upd m1 where c: "clear_tracked_users us q m = (upd, m1)" by fastforce
  note upd = clear_updates [OF assms(3,4) c]
  obtain k h where m1: "m1 = m\<lparr>kq_users := k, kq_waiters := h\<rparr>"
    and flags: "flag k = cleared_flags (set us \<inter> tracked_users m) q (flag (kq_users m))"
    using clear_tracked_users_clears [OF assms(3,4), of us] c by (auto simp: clears_def)
  have s: "content (crypto_store m) = view m" "store_inv (crypto_store m)" "dom (flag (kq_users m)) \<subseteq> tracked_users m"
    using assms(1,2) by (simp_all add: synced_def)
  have dom: "dom (flag k) \<subseteq> tracked_users m" using s(3) by (auto simp: flags cleared_flags_def split: if_splits)
  have "map_of (rev upd) u = (if u \<in> set us \<inter> tracked_users m then Some (flag k u \<noteq> None) else None)" for u
    using map_of_rev_const [of upd "\<lambda>u. flag k u \<noteq> None" u] upd by (simp add: m1)
  then have "content (crypto_store m1) ++ map_of (rev upd) = view m1"
    using flags by (auto simp: fun_eq_iff m1 s(1) view_def map_add_def cleared_flags_def)
  then obtain m2 where m2: "save_updates ops upd m1 = (Inr (), m2)" "synced m2"
    by (rule save_synced [of m1 upd, rotated 3]) (use s(2) assms(2) dom in \<open>simp_all add: m1\<close>)
  have "synced (notify_waiters m2)"
    using m2(2) by (simp add: synced_def notify_waiters_def view_def cong: if_cong)
  then show ?thesis
    using c m2(1) by (intro that [of "notify_waiters m2"]) (simp_all add: mark_tracked_users_as_up_to_date_def)
qed

end

context tracked_users_contract
begin

lemma ensure_then_synced:
  assumes "synced m" and "\<And>m. synced m \<Longrightarrow> loaded_tracked_users m \<Longrightarrow> \<exists>m'. f m = (Inr (), m') \<and> synced m'"
  shows "\<exists>m'. (case ensure_sync_tracked_users ops m of (Inl e, m) \<Rightarrow> (Inl e, m) | (Inr _, m) \<Rightarrow> f m) = (Inr (), m') \<and> synced m'"
proof -
  obtain m1 where "ensure_sync_tracked_users ops m = (Inr (), m1)" "synced m1" "loaded_tracked_users m1"
    by (rule ensure_synced [OF assms(1)])
  with assms(2) [of m1] show ?thesis by simp
qed

lemma synced_frame [simp]:
  "synced (m\<lparr>keys_query_request_details := d\<rparr>) = synced m"
  "synced (m\<lparr>server_failures := f\<rparr>) = synced m"
  "synced (m\<lparr>kq_tasks := ts\<rparr>) = synced m"
  "synced (m\<lparr>kq_waiters := h\<rparr>) = synced m"
  "synced (m\<lparr>kq_next_waiter := n\<rparr>) = synced m"
  by (simp_all add: synced_def view_def cong: if_cong)

lemma synced_ops:
  fixes m :: "('u, 's, 'z) key_query_manager_scheme"
  assumes "synced m"
  shows "synced (snd (manager_update_tracked_users ops us m))" and "synced (snd (receive_device_changes ops us m))"
    and "synced (snd (synced_user_changed ops u m))" and "synced (snd (mark_all_tracked_users_as_dirty ops m))"
proof -
  have step: "synced (snd (case ensure_sync_tracked_users ops m of (Inl e, m) \<Rightarrow> (Inl e, m) | (Inr _, m) \<Rightarrow> f m))"
    if hyp: "\<And>m. synced m \<Longrightarrow> loaded_tracked_users m \<Longrightarrow> \<exists>m'. f m = (Inr (), m') \<and> synced m'"
    for f :: "('u, 's, 'z) key_query_manager_scheme \<Rightarrow> ('e + unit) \<times> ('u, 's, 'z) key_query_manager_scheme"
  proof -
    obtain m' where "(case ensure_sync_tracked_users ops m of (Inl e, m) \<Rightarrow> (Inl e, m) | (Inr _, m) \<Rightarrow> f m) = (Inr (), m')"
      "synced m'"
      using ensure_then_synced [where f = f, OF assms] hyp by blast
    then show ?thesis by simp
  qed
  show "synced (snd (manager_update_tracked_users ops us m))"
    unfolding manager_update_tracked_users_def by (rule step, erule (1) update_tracked_synced, intro exI conjI)
  show dev: "synced (snd (receive_device_changes ops us m))" for us
    unfolding receive_device_changes_def by (rule step, erule (1) mark_changed_synced, intro exI conjI)
  show "synced (snd (synced_user_changed ops u m))"
    unfolding synced_user_changed_def by (rule step, erule (1) mark_user_synced, intro exI conjI)
  show "synced (snd (mark_all_tracked_users_as_dirty ops m))"
    using assms dev by (cases "load_tracked_users ops (crypto_store m)") (simp_all add: mark_all_tracked_users_as_dirty_def)
qed

lemma synced_build:
  fixes m :: "('u, 's, 'n, 't::linorder) identity_manager"
  assumes "synced m"
  shows "synced (snd (users_for_key_query_requests ops sn now new_id m))"
proof -
  let ?m0 = "m\<lparr>keys_query_request_details := None\<rparr>"
  have "synced ?m0" using assms by simp
  then obtain m1 where e: "ensure_sync_tracked_users ops ?m0 = (Inr (), m1)" "synced m1" "loaded_tracked_users m1"
    by (rule ensure_synced)
  obtain m2 where c: "mark_user_as_changed ops (own_user_id m1) m1 = (Inr (), m2)" "synced m2"
    by (rule mark_user_synced [OF e(2,3)])
  obtain r m3 where u: "users_to_query ops ?m0 = (r, m3)" by fastforce
  have "synced m3" using u e c by (auto simp: users_to_query_def fetch_users_for_key_query_def Let_def split: if_splits)
  then show ?thesis using u by (cases r) (auto simp: users_for_key_query_requests_def Let_def)
qed

lemma synced_finish:
  fixes m :: "('u, 's, 'n, 't) identity_manager"
  assumes "synced m" and "query_inv m" and "next_seq (kq_users m) + int (load_size ops m) < 2 ^ 63"
  shows "synced (snd (finish_keys_query ops rid us m))"
proof (cases "\<exists>d. keys_query_request_details m = Some d \<and> rid \<in> request_ids d")
  case True
  then obtain d where d: "keys_query_request_details m = Some d" "rid \<in> request_ids d" by blast
  let ?m0 = "m\<lparr>keys_query_request_details := Some (d\<lparr>request_ids := request_ids d - {rid}\<rparr>)\<rparr>"
  have "synced ?m0" using assms(1) by simp
  then obtain m1 where e: "ensure_sync_tracked_users ops ?m0 = (Inr (), m1)" "synced m1" "loaded_tracked_users m1"
    by (rule ensure_synced)
  have "only_flags (load_size ops m) ?m0 m1" using ensure_only_flags [of ops ?m0] e by (simp add: load_size_def)
  from only_flags_grows [OF this] assms(2,3) have seq: "seq_ok (kq_users m1)" by (simp add: query_inv_def grows_def)
  have q: "- 1 \<le> sint (query_sequence_number d)" using assms(2) d(1) by (simp add: query_inv_def)
  obtain m2 where "mark_tracked_users_as_up_to_date ops us (query_sequence_number d) m1 = (Inr (), m2)" "synced m2"
    by (rule up_to_date_synced [OF e(2,3) seq q])
  then show ?thesis using d e(1) by (simp add: finish_keys_query_def)
qed (use assms(1) in \<open>auto simp: finish_keys_query_def split: option.splits\<close>)

lemma synced_start:
  fixes m :: "('u, 's, 'n, 't) identity_manager"
  assumes "synced m"
  shows "synced (snd (start_waiting ops t u m))"
proof -
  obtain m1 where e: "ensure_sync_tracked_users ops m = (Inr (), m1)" "synced m1" by (rule ensure_synced [OF assms])
  have "synced (m1\<lparr>kq_users := (kq_users m1)\<lparr>tasks_awaiting_key_query := x\<rparr>\<rparr>)" for x
    using e(2) by (simp add: synced_def view_def cong: if_cong)
  then show ?thesis using e
    by (cases "flag (kq_users m1) u") (simp_all add: start_waiting_def maybe_register_waiting_task_def)
qed

lemma synced_exec:
  assumes "key_query_exec ops sn ps op m = Done m'" and "synced m" and "query_inv m"
    and "next_seq (kq_users m) + int (kq_op_cost ops op m) < 2 ^ 63"
  shows "synced m'"
proof (cases op)
  case (Response now rid resp saved)
  then obtain r f where r: "(case saved of Inl e \<Rightarrow> (Inl e, m\<lparr>server_failures := f\<rparr>)
      | Inr _ \<Rightarrow> finish_keys_query ops rid (response_device_keys resp) (m\<lparr>server_failures := f\<rparr>)) = (r, m')"
    using assms(1) by (auto simp: receive_keys_query_response_def Let_def)
  have "query_inv (m\<lparr>server_failures := f\<rparr>)" using assms(3) by (simp add: query_inv_def)
  with r show ?thesis
    using synced_finish [of "m\<lparr>server_failures := f\<rparr>" rid "response_device_keys resp"] assms(2,4) Response
    by (cases saved) (auto simp: load_size_def)
next
  case (StartWaiting t u)
  then show ?thesis using assms synced_start [OF assms(2), of t u] by (auto split: if_splits)
next
  case (ResumeWaiting t)
  then show ?thesis using assms
    by (auto simp: resume_waiting_def split: option.splits waiting_task.splits if_splits)
next
  case (ExpireWaiting t)
  then show ?thesis using assms
    by (auto simp: expire_waiting_def Let_def split: option.splits waiting_task.splits)
qed (use assms synced_ops [OF assms(2)] synced_build [OF assms(2)] in auto)

lemma synced_run:
  assumes "synced m" and "query_inv m" and "settings_ok (server_failures m)"
    and "next_seq (kq_users m) + int (kq_run_cost ops sn ps os m) < 2 ^ 63"
  shows "\<exists>m'. key_query_run ops sn ps os m = Done m' \<and> synced m'"
  using assms
proof (induction os arbitrary: m)
  case (Cons op os)
  obtain m' where m': "key_query_exec ops sn ps op m = Done m'" "settings_ok (server_failures m')"
    using exec_total [OF Cons.prems(3)] by blast
  have e: "step_effect ops op m m'" using m'(1) Cons.prems by (intro exec_effect) simp_all
  then have "query_inv m'" "next_seq (kq_users m') \<le> next_seq (kq_users m) + int (kq_op_cost ops op m)"
    by (simp_all add: step_effect_def flags_step_def)
  moreover have "synced m'" using synced_exec [OF m'(1) Cons.prems(1,2)] Cons.prems(4) by simp
  ultimately show ?case using Cons.IH [of m'] m' Cons.prems(4) by simp
qed simp

text \<open>Two managers over the same store agree once they have loaded it.\<close>

lemma synced_agree:
  assumes "synced m" and "loaded_tracked_users m" and "synced m'" and "loaded_tracked_users m'"
    and "crypto_store m' = crypto_store m"
  shows "tracked_users m' = tracked_users m \<and> (\<forall>u. flag (kq_users m') u = None \<longleftrightarrow> flag (kq_users m) u = None)"
proof -
  have v: "view m = view m'" using assms by (simp add: synced_def)
  have dom: "dom (flag (kq_users m)) \<subseteq> tracked_users m" "dom (flag (kq_users m')) \<subseteq> tracked_users m'"
    using assms(1,3) by (simp_all add: synced_def)
  have "tracked_users m = {u. view m u \<noteq> None}" "tracked_users m' = {u. view m' u \<noteq> None}" by (auto simp: view_def)
  with v have t: "tracked_users m' = tracked_users m" by simp
  have "flag (kq_users m') u = None \<longleftrightarrow> flag (kq_users m) u = None" for u
    using fun_cong [OF v, of u] dom t by (cases "u \<in> tracked_users m") (auto simp: view_def)
  with t show ?thesis by blast
qed

end

section \<open>The memory store\<close>

definition memory_inv :: "('u \<times> 'u tracked_user) list \<Rightarrow> bool" where
  "memory_inv s \<longleftrightarrow> distinct (map fst s) \<and> (\<forall>(u, t) \<in> set s. tracked_user_id t = u)"

definition memory_content :: "('u \<times> 'u tracked_user) list \<Rightarrow> 'u \<rightharpoonup> bool" where
  "memory_content s = map_option tracked_dirty \<circ> map_of s"

lemma memory_save_fold:
  "memory_inv s \<Longrightarrow>
   memory_inv (fold (\<lambda>(u, dirty). AList.update u \<lparr>tracked_user_id = u, tracked_dirty = dirty\<rparr>) us s) \<and>
   memory_content (fold (\<lambda>(u, dirty). AList.update u \<lparr>tracked_user_id = u, tracked_dirty = dirty\<rparr>) us s) =
     memory_content s ++ map_of (rev us)"
proof (induction us arbitrary: s)
  case (Cons e us)
  obtain u b where e: "e = (u, b)" by fastforce
  let ?t = "\<lparr>tracked_user_id = u, tracked_dirty = b\<rparr>"
  have "memory_inv (AList.update u ?t s)"
    using Cons.prems set_AList_update_subset [of u ?t s] by (auto simp: memory_inv_def distinct_update)
  moreover have "memory_content (AList.update u ?t s) ++ f = memory_content s ++ ([u \<mapsto> b] ++ f)" for f
    by (auto simp: memory_content_def fun_eq_iff update_conv' map_add_def split: option.splits)
  ultimately show ?case using Cons.IH [of "AList.update u ?t s"] e by simp
qed simp

interpretation memory: tracked_users_contract memory_store memory_inv memory_content
proof
  fix s :: "('u \<times> 'u tracked_user) list" assume inv: "memory_inv s"
  have "map tracked_user_id (map snd s) = map fst s" using inv by (auto simp: memory_inv_def)
  with inv have "distinct (map tracked_user_id (map snd s))" by (simp only: memory_inv_def)
  moreover have "memory_content s = map_of (map (\<lambda>t. (tracked_user_id t, tracked_dirty t)) (map snd s))"
    using inv
  proof (induction s)
    case (Cons e s)
    then show ?case by (cases e) (auto simp: memory_inv_def memory_content_def fun_eq_iff)
  qed (simp add: memory_content_def)
  ultimately show "\<exists>us. load_tracked_users memory_store s = Inr us \<and> distinct (map tracked_user_id us) \<and>
      memory_content s = map_of (map (\<lambda>t. (tracked_user_id t, tracked_dirty t)) us)"
    by (intro exI [of _ "map snd s"]) (simp add: memory_store_def memory_load_def)
  show "\<exists>s'. save_tracked_users memory_store us s = (Inr (), s') \<and> memory_inv s' \<and>
      memory_content s' = memory_content s ++ map_of (rev us)" for us
    using memory_save_fold [OF inv, of us] by (simp add: memory_store_def memory_save_def)
qed



end
