(* ===== verification/Store_Lock.thy ===== *)
theory Store_Lock
  imports Sdk_Prelude
begin

text \<open>
  The lock between processes that is kept in a store by leases: \<open>CrossProcessStoreLock\<close>
  (\<open>matrix-sdk-common/src/store_locks.rs\<close>), with \<open>try_take_leased_lock\<close> of the memory store
  (\<open>matrix-sdk-crypto/src/store/memorystore.rs\<close>) and of the SQLite store
  (\<open>matrix-sdk-sqlite/src/crypto_store.rs\<close>) as its backing stores. Time is a natural number of
  milliseconds and an argument of the operations that read the clock. A call of \<open>try_lock_once\<close>
  is one step, as it is under the mutex of locking attempts; the task that renews the lease is a
  state with its two suspension points. The number of holders is a natural number.
\<close>

section \<open>The lock\<close>

type_synonym ('s, 'e) backing_store = "nat \<Rightarrow> u32 \<Rightarrow> string \<Rightarrow> string \<Rightarrow> 's \<Rightarrow> ('e + bool) \<times> 's"

datatype waiting_time = WaitSome u32 | WaitStop

datatype 'e lock_store_error = LockTimeout | BackingStoreError 'e

definition LEASE_DURATION_MS :: u32 where
  "LEASE_DURATION_MS = 500"

definition EXTEND_LEASE_EVERY_MS :: u64 where
  "EXTEND_LEASE_EVERY_MS = 50"

definition INITIAL_BACKOFF_MS :: u32 where
  "INITIAL_BACKOFF_MS = 10"

definition MAX_BACKOFF_MS :: u32 where
  "MAX_BACKOFF_MS = 1000"

text \<open>
  The renew task is about to check the number of holders since the given time, or asleep until the
  given time, after which it extends the lease.
\<close>

datatype renew_state = AtCheck nat | Asleep nat

record store_lock =
  num_holders :: nat
  renew_task :: "renew_state option"
  lock_key :: string
  lock_holder :: string
  backoff :: waiting_time

definition store_lock_new :: "string \<Rightarrow> string \<Rightarrow> store_lock" where
  "store_lock_new key holder =
     \<lparr>num_holders = 0, renew_task = None, lock_key = key, lock_holder = holder, backoff = WaitSome INITIAL_BACKOFF_MS\<rparr>"

text \<open>The result says whether a guard was given out.\<close>

definition try_lock_once ::
  "('s, 'e) backing_store \<Rightarrow> nat \<Rightarrow> store_lock \<Rightarrow> 's \<Rightarrow> ('e lock_store_error + bool) \<times> store_lock \<times> 's" where
  "try_lock_once try_lock now l s =
     (if 0 < num_holders l then (Inr True, l\<lparr>num_holders := num_holders l + 1\<rparr>, s)
      else case try_lock now LEASE_DURATION_MS (lock_key l) (lock_holder l) s of
             (Inl err, s) \<Rightarrow> (Inl (BackingStoreError err), l, s)
           | (Inr acquired, s) \<Rightarrow>
               if \<not> acquired then (Inr False, l, s)
               else (Inr True, l\<lparr>renew_task := Some (AtCheck now), num_holders := num_holders l + 1\<rparr>, s))"

definition drop_guard :: "store_lock \<Rightarrow> store_lock" where
  "drop_guard l = l\<lparr>num_holders := num_holders l - 1\<rparr>"

definition renew_step :: "('s, 'e) backing_store \<Rightarrow> nat \<Rightarrow> store_lock \<Rightarrow> 's \<Rightarrow> store_lock \<times> 's" where
  "renew_step try_lock now l s =
     (case renew_task l of
        None \<Rightarrow> (l, s)
      | Some (AtCheck _) \<Rightarrow>
          if num_holders l = 0 then
            (l\<lparr>renew_task := None\<rparr>, snd (try_lock now 0 (lock_key l) (lock_holder l) s))
          else (l\<lparr>renew_task := Some (Asleep (now + unat EXTEND_LEASE_EVERY_MS))\<rparr>, s)
      | Some (Asleep _) \<Rightarrow>
          (case try_lock now LEASE_DURATION_MS (lock_key l) (lock_holder l) s of
             (Inl err, s) \<Rightarrow> (l\<lparr>renew_task := None\<rparr>, s)
           | (Inr _, s) \<Rightarrow> (l\<lparr>renew_task := Some (AtCheck now)\<rparr>, s)))"

definition saturating_double :: "u32 \<Rightarrow> u32" where
  "saturating_double v = (if unat v * 2 < 2 ^ 32 then v * 2 else - 1)"

definition next_wait :: "u32 \<Rightarrow> store_lock \<Rightarrow> ('e lock_store_error + u32) \<times> store_lock" where
  "next_wait max_backoff l =
     (case backoff l of
        WaitSome wait \<Rightarrow>
          (let val = saturating_double wait in
           (Inr wait, l\<lparr>backoff := if max_backoff \<le> val then WaitStop else WaitSome val\<rparr>))
      | WaitStop \<Rightarrow> (Inl LockTimeout, l))"

text \<open>
  \<open>env wait\<close> is what other processes do to the store while this one sleeps. The result has the time
  at which the call returns; the fuel bounds the number of attempts.
\<close>

fun spin_lock_loop ::
  "nat \<Rightarrow> ('s, 'e) backing_store \<Rightarrow> (u32 \<Rightarrow> 's \<Rightarrow> 's) \<Rightarrow> u32 \<Rightarrow> nat \<Rightarrow> store_lock \<Rightarrow> 's
   \<Rightarrow> (('e lock_store_error + unit) \<times> nat \<times> store_lock \<times> 's) run" where
  "spin_lock_loop 0 try_lock env max_backoff now l s = Stuck"
| "spin_lock_loop (Suc fuel) try_lock env max_backoff now l s =
     (case try_lock_once try_lock now l s of
        (Inl err, l, s) \<Rightarrow> Done (Inl err, now, l, s)
      | (Inr True, l, s) \<Rightarrow> Done (Inr (), now, l\<lparr>backoff := WaitSome INITIAL_BACKOFF_MS\<rparr>, s)
      | (Inr False, l, s) \<Rightarrow>
          (case next_wait max_backoff l of
             (Inl err, l) \<Rightarrow> Done (Inl err, now, l, s)
           | (Inr wait, l) \<Rightarrow> spin_lock_loop fuel try_lock env max_backoff (now + unat wait) l (env wait s)))"

definition spin_lock ::
  "nat \<Rightarrow> ('s, 'e) backing_store \<Rightarrow> (u32 \<Rightarrow> 's \<Rightarrow> 's) \<Rightarrow> u32 option \<Rightarrow> nat \<Rightarrow> store_lock \<Rightarrow> 's
   \<Rightarrow> (('e lock_store_error + unit) \<times> nat \<times> store_lock \<times> 's) run" where
  "spin_lock fuel try_lock env max_backoff =
     spin_lock_loop fuel try_lock env (case max_backoff of Some b \<Rightarrow> b | None \<Rightarrow> MAX_BACKOFF_MS)"

section \<open>Backing stores\<close>

type_synonym leases = "string \<rightharpoonup> string \<times> nat"

definition memory_try_lock :: "(leases, 'e) backing_store" where
  "memory_try_lock now lease_duration_ms key holder ls =
     (let expiration = now + unat lease_duration_ms in
      case ls key of
        Some (prev_holder, prev_expiration) \<Rightarrow>
          if prev_holder = holder then (Inr True, ls(key \<mapsto> (prev_holder, expiration)))
          else if prev_expiration < now then (Inr True, ls(key \<mapsto> (holder, expiration)))
          else (Inr False, ls)
      | None \<Rightarrow> (Inr True, ls(key \<mapsto> (holder, now + unat lease_duration_ms))))"

record lease_row =
  row_key :: string
  row_holder :: string
  row_expiration_ts :: nat

text \<open>
  The statement \<open>INSERT INTO lease_locks ... ON CONFLICT (key) DO UPDATE SET ... WHERE ...\<close> on the rows of
  the table, whose key is primary; the result is the number of rows it touched.
\<close>

fun upsert_lease :: "lease_row \<Rightarrow> nat \<Rightarrow> lease_row list \<Rightarrow> nat \<times> lease_row list" where
  "upsert_lease new now_ts [] = (1, [new])"
| "upsert_lease new now_ts (row # rows) =
     (if row_key row = row_key new then
        (if row_holder row = row_holder new \<or> row_expiration_ts row < now_ts then
           (1, row\<lparr>row_holder := row_holder new, row_expiration_ts := row_expiration_ts new\<rparr> # rows)
         else (0, row # rows))
      else (let (n, rows) = upsert_lease new now_ts rows in (n, row # rows)))"

definition sqlite_try_lock :: "(lease_row list, 'e) backing_store" where
  "sqlite_try_lock now_ts lease_duration_ms key holder rows =
     (let expiration_ts = now_ts + unat lease_duration_ms;
          (num_touched, rows) = upsert_lease \<lparr>row_key = key, row_holder = holder, row_expiration_ts = expiration_ts\<rparr> now_ts rows
      in (Inr (num_touched = 1), rows))"

section \<open>Processes\<close>

text \<open>
  Processes are named by their holder. A renew task runs when it is about to check or its sleep is
  over; the clock advances only while no task is late by more than the latency.
\<close>

record 's lock_world =
  procs :: "string \<Rightarrow> store_lock"
  lease_db :: 's
  clock :: nat

fun task_due :: "renew_state option \<Rightarrow> nat option" where
  "task_due None = None"
| "task_due (Some (AtCheck t)) = Some t"
| "task_due (Some (Asleep t)) = Some t"

definition runnable :: "nat \<Rightarrow> store_lock \<Rightarrow> bool" where
  "runnable now l = (case task_due (renew_task l) of Some t \<Rightarrow> t \<le> now | None \<Rightarrow> False)"

definition overdue :: "nat \<Rightarrow> nat \<Rightarrow> store_lock \<Rightarrow> bool" where
  "overdue latency now l = (case task_due (renew_task l) of Some t \<Rightarrow> t + latency < now | None \<Rightarrow> False)"

inductive lock_step :: "('s, 'e) backing_store \<Rightarrow> nat \<Rightarrow> 's lock_world \<Rightarrow> 's lock_world \<Rightarrow> bool"
  for try_lock :: "('s, 'e) backing_store" and latency :: nat where
  attempt: "try_lock_once try_lock (clock w) (procs w p) (lease_db w) = (r, l, s) \<Longrightarrow>
    lock_step try_lock latency w (w\<lparr>procs := (procs w)(p := l), lease_db := s\<rparr>)"
| release: "0 < num_holders (procs w p) \<Longrightarrow>
    lock_step try_lock latency w (w\<lparr>procs := (procs w)(p := drop_guard (procs w p))\<rparr>)"
| renew: "runnable (clock w) (procs w p) \<Longrightarrow>
    renew_step try_lock (clock w) (procs w p) (lease_db w) = (l, s) \<Longrightarrow>
    lock_step try_lock latency w (w\<lparr>procs := (procs w)(p := l), lease_db := s\<rparr>)"
| tick: "(\<And>p. \<not> overdue latency (Suc (clock w)) (procs w p)) \<Longrightarrow>
    lock_step try_lock latency w (w\<lparr>clock := Suc (clock w)\<rparr>)"

definition lock_world_new :: "string \<Rightarrow> 's \<Rightarrow> nat \<Rightarrow> 's lock_world" where
  "lock_world_new key s now = \<lparr>procs = store_lock_new key, lease_db = s, clock = now\<rparr>"

section \<open>Mutual exclusion\<close>

text \<open>The contract of \<open>try_take_leased_lock\<close>; \<open>lease\<close> reads the holder and the end of the lease of a key.\<close>

locale lease_store =
  fixes try_lock :: "('s, 'e) backing_store" and store_inv :: "'s \<Rightarrow> bool"
    and lease :: "'s \<Rightarrow> string \<rightharpoonup> string \<times> nat"
  assumes total: "store_inv s \<Longrightarrow> \<exists>b s'. try_lock now d key holder s = (Inr b, s') \<and> store_inv s'"
    and taken: "store_inv s \<Longrightarrow> try_lock now d key holder s = (Inr True, s') \<Longrightarrow>
      lease s' = (lease s)(key \<mapsto> (holder, now + unat d)) \<and>
      (\<forall>h t. lease s key = Some (h, t) \<longrightarrow> h = holder \<or> t < now)"
    and refused: "store_inv s \<Longrightarrow> try_lock now d key holder s = (Inr False, s') \<Longrightarrow> lease s' = lease s"
    and extended: "store_inv s \<Longrightarrow> lease s key = Some (holder, t) \<Longrightarrow> fst (try_lock now d key holder s) = Inr True"
begin

text \<open>A process with guards has the lease, and its renew task will extend it in time.\<close>

definition holds_lease :: "string \<Rightarrow> 's \<Rightarrow> nat \<Rightarrow> string \<Rightarrow> store_lock \<Rightarrow> bool" where
  "holds_lease key s latency p l \<longleftrightarrow>
     (\<exists>e. lease s key = Some (p, e) \<and>
        (\<exists>t. renew_task l = Some (AtCheck t) \<and> t + 500 \<le> e \<or>
             renew_task l = Some (Asleep t) \<and> t + 450 \<le> e + latency))"

definition lock_inv :: "string \<Rightarrow> nat \<Rightarrow> 's lock_world \<Rightarrow> bool" where
  "lock_inv key latency w \<longleftrightarrow> store_inv (lease_db w) \<and>
     (\<forall>p. lock_key (procs w p) = key \<and> lock_holder (procs w p) = p \<and> \<not> overdue latency (clock w) (procs w p) \<and>
        (0 < num_holders (procs w p) \<longrightarrow> holds_lease key (lease_db w) latency p (procs w p)))"

lemma lock_inv_new: "store_inv s \<Longrightarrow> lock_inv key latency (lock_world_new key s now)"
  by (simp add: lock_inv_def lock_world_new_def store_lock_new_def overdue_def)

text \<open>The lease of a process with guards has not ended.\<close>

lemma lease_valid:
  assumes "lock_inv key latency w" and "50 + 2 * latency < 500" and "0 < num_holders (procs w p)"
  obtains e where "lease (lease_db w) key = Some (p, e)" and "clock w \<le> e"
proof -
  have "\<not> overdue latency (clock w) (procs w p)" "holds_lease key (lease_db w) latency p (procs w p)"
    using assms(1,3) by (auto simp: lock_inv_def)
  then obtain e where "lease (lease_db w) key = Some (p, e)" "clock w \<le> e"
    using assms(2) by (auto simp: holds_lease_def overdue_def)
  then show ?thesis by (rule that)
qed

lemma exclusive:
  assumes "lock_inv key latency w" and "50 + 2 * latency < 500"
    and "0 < num_holders (procs w p)" and "0 < num_holders (procs w q)"
  shows "p = q"
  using lease_valid [OF assms(1-3)] lease_valid [OF assms(1,2,4)] by (metis Pair_inject option.inject)

text \<open>Another process cannot touch the lease of a process with guards.\<close>

lemma others_keep_lease:
  assumes "lock_inv key latency w" and "50 + 2 * latency < 500" and "0 < num_holders (procs w q)" and "q \<noteq> p"
    and "try_lock (clock w) d key p (lease_db w) = (Inr b, s)"
  shows "lease s = lease (lease_db w)"
proof -
  have inv: "store_inv (lease_db w)" using assms(1) by (simp add: lock_inv_def)
  obtain e where e: "lease (lease_db w) key = Some (q, e)" "clock w \<le> e" by (rule lease_valid [OF assms(1-3)])
  show ?thesis
  proof (cases b)
    case True
    with taken [OF inv] assms(5) e assms(4) show ?thesis by force
  next
    case False
    with refused [OF inv] assms(5) show ?thesis by simp
  qed
qed

lemma lock_inv_update:
  assumes "lock_inv key latency w" and "store_inv s" and "lock_key l = key" and "lock_holder l = p"
    and "\<not> overdue latency (clock w) l" and "0 < num_holders l \<Longrightarrow> holds_lease key s latency p l"
    and "\<And>q. q \<noteq> p \<Longrightarrow> 0 < num_holders (procs w q) \<Longrightarrow> lease s = lease (lease_db w)"
  shows "lock_inv key latency (w\<lparr>procs := (procs w)(p := l), lease_db := s\<rparr>)"
  unfolding lock_inv_def
proof (intro conjI allI impI)
  fix q
  assume h: "0 < num_holders (procs (w\<lparr>procs := (procs w)(p := l), lease_db := s\<rparr>) q)"
  show "holds_lease key (lease_db (w\<lparr>procs := (procs w)(p := l), lease_db := s\<rparr>)) latency q
      (procs (w\<lparr>procs := (procs w)(p := l), lease_db := s\<rparr>) q)"
  proof (cases "q = p")
    case True
    with h assms(6) show ?thesis by simp
  next
    case False
    with h assms(1) have "holds_lease key (lease_db w) latency q (procs w q)" by (simp add: lock_inv_def)
    with False h assms(7) [of q] show ?thesis by (simp add: holds_lease_def)
  qed
qed (use assms(1-5) in \<open>auto simp: lock_inv_def\<close>)

lemma lock_inv_attempt:
  assumes "lock_inv key latency w" and "50 + 2 * latency < 500"
    and "try_lock_once try_lock (clock w) (procs w p) (lease_db w) = (r, l, s)"
  shows "lock_inv key latency (w\<lparr>procs := (procs w)(p := l), lease_db := s\<rparr>)"
proof -
  let ?l = "procs w p"
  have l: "lock_key ?l = key" "lock_holder ?l = p" "\<not> overdue latency (clock w) ?l"
    "0 < num_holders ?l \<Longrightarrow> holds_lease key (lease_db w) latency p ?l" and inv: "store_inv (lease_db w)"
    using assms(1) by (simp_all add: lock_inv_def)
  show ?thesis
  proof (cases "0 < num_holders ?l")
    case True
    then have "l = ?l\<lparr>num_holders := num_holders ?l + 1\<rparr>" "s = lease_db w"
      using assms(3) by (auto simp: try_lock_once_def)
    with l True inv show ?thesis
      by (intro lock_inv_update [OF assms(1)]) (auto simp: overdue_def holds_lease_def)
  next
    case False
    obtain b s' where t: "try_lock (clock w) LEASE_DURATION_MS key p (lease_db w) = (Inr b, s')" "store_inv s'"
      using total [OF inv] by blast
    with False assms(3) l have s: "s = s'" "l = (if b then ?l\<lparr>renew_task := Some (AtCheck (clock w)), num_holders := 1\<rparr> else ?l)"
      by (auto simp: try_lock_once_def split: if_splits)
    have "holds_lease key s latency p l" if b
      using taken [OF inv] t(1) that by (simp add: s holds_lease_def LEASE_DURATION_MS_def)
    moreover have "lease s = lease (lease_db w)" if "q \<noteq> p" "0 < num_holders (procs w q)" for q
      using others_keep_lease [OF assms(1,2) that(2,1) t(1)] s by simp
    ultimately show ?thesis
      using l t(2) False by (intro lock_inv_update [OF assms(1)]) (auto simp: s overdue_def split: if_splits)
  qed
qed

lemma lock_inv_renew:
  assumes "lock_inv key latency w" and "50 + 2 * latency < 500"
    and "renew_step try_lock (clock w) (procs w p) (lease_db w) = (l, s)"
  shows "lock_inv key latency (w\<lparr>procs := (procs w)(p := l), lease_db := s\<rparr>)"
proof -
  let ?l = "procs w p"
  have l: "lock_key ?l = key" "lock_holder ?l = p" "\<not> overdue latency (clock w) ?l"
    "0 < num_holders ?l \<Longrightarrow> holds_lease key (lease_db w) latency p ?l" and inv: "store_inv (lease_db w)"
    using assms(1) by (simp_all add: lock_inv_def)
  obtain b0 s0 where t0: "try_lock (clock w) 0 key p (lease_db w) = (Inr b0, s0)" "store_inv s0" using total [OF inv] by blast
  obtain b1 s1 where t1: "try_lock (clock w) LEASE_DURATION_MS key p (lease_db w) = (Inr b1, s1)" "store_inv s1"
    using total [OF inv] by blast
  have keep: "lease s' = lease (lease_db w)"
    if "q \<noteq> p" "0 < num_holders (procs w q)" "try_lock (clock w) d key p (lease_db w) = (Inr b, s')" for q d b s'
    using others_keep_lease [OF assms(1,2) that(2,1,3)] .
  consider (none) "renew_task ?l = None" | (check) t where "renew_task ?l = Some (AtCheck t)"
    | (asleep) t where "renew_task ?l = Some (Asleep t)" by (metis option.exhaust renew_state.exhaust)
  then show ?thesis
  proof cases
    case none
    then have "l = ?l" "s = lease_db w" using assms(3) by (simp_all add: renew_step_def)
    with l inv show ?thesis by (intro lock_inv_update [OF assms(1)]) auto
  next
    case check
    show ?thesis
    proof (cases "num_holders ?l = 0")
      case True
      with check assms(3) t0 l have "l = ?l\<lparr>renew_task := None\<rparr>" "s = s0" by (auto simp: renew_step_def)
      with l t0 True keep [OF _ _ t0(1)] show ?thesis
        by (intro lock_inv_update [OF assms(1)]) (auto simp: overdue_def)
    next
      case False
      with check assms(3) have "l = ?l\<lparr>renew_task := Some (Asleep (clock w + 50))\<rparr>" "s = lease_db w"
        by (auto simp: renew_step_def EXTEND_LEASE_EVERY_MS_def)
      with l inv False check show ?thesis
        by (intro lock_inv_update [OF assms(1)]) (auto simp: overdue_def holds_lease_def)
    qed
  next
    case asleep
    with assms(3) t1 l have ls: "l = ?l\<lparr>renew_task := Some (AtCheck (clock w))\<rparr>" "s = s1" by (auto simp: renew_step_def)
    have "holds_lease key s latency p l" if "0 < num_holders l"
    proof -
      have "0 < num_holders ?l" using that by (simp add: ls)
      from l(4) [OF this] obtain e where "lease (lease_db w) key = Some (p, e)" by (auto simp: holds_lease_def)
      from extended [OF inv this] t1(1) have "b1" by (metis fst_conv sum.inject(2))
      with taken [OF inv] t1(1) show ?thesis by (simp add: ls holds_lease_def LEASE_DURATION_MS_def)
    qed
    with l t1 keep [OF _ _ t1(1)] show ?thesis
      by (intro lock_inv_update [OF assms(1)]) (auto simp: ls overdue_def)
  qed
qed

lemma lock_inv_step:
  assumes "lock_step try_lock latency w w'" and "lock_inv key latency w" and "50 + 2 * latency < 500"
  shows "lock_inv key latency w'"
  using assms(1)
proof cases
  case (attempt p r l s)
  then show ?thesis using lock_inv_attempt [OF assms(2,3)] by simp
next
  case (release p)
  let ?l = "procs w p"
  have "lock_inv key latency (w\<lparr>procs := (procs w)(p := drop_guard ?l), lease_db := lease_db w\<rparr>)"
    using assms(2) release(2)
    by (intro lock_inv_update [OF assms(2)]) (auto simp: lock_inv_def drop_guard_def overdue_def holds_lease_def)
  then show ?thesis using release by simp
next
  case (renew p l s)
  then show ?thesis using lock_inv_renew [OF assms(2,3)] by simp
next
  case tick
  then show ?thesis using assms(2) by (simp add: lock_inv_def)
qed

lemma mutual_exclusion:
  assumes "(lock_step try_lock latency)\<^sup>*\<^sup>* (lock_world_new key s now) w" and "store_inv s" and "50 + 2 * latency < 500"
    and "0 < num_holders (procs w p)" and "0 < num_holders (procs w q)"
  shows "p = q"
proof -
  have "lock_inv key latency w"
    using assms(1)
  proof (induction rule: rtranclp_induct)
    case base
    then show ?case using assms(2) by (rule lock_inv_new)
  next
    case (step w w')
    then show ?case using lock_inv_step assms(3) by blast
  qed
  then show ?thesis using exclusive assms(3-5) by blast
qed

end

section \<open>The two stores\<close>

interpretation memory_lease: lease_store memory_try_lock "\<lambda>_. True" "\<lambda>ls. ls"
  by unfold_locales (auto simp: memory_try_lock_def Let_def split: option.splits if_splits)

definition row_lease :: "lease_row list \<Rightarrow> string \<rightharpoonup> string \<times> nat" where
  "row_lease rows = map_of (map (\<lambda>r. (row_key r, (row_holder r, row_expiration_ts r))) rows)"

lemma upsert_lease_eq:
  "upsert_lease new now rows = (n, rows') \<Longrightarrow>
   (if \<forall>h t. row_lease rows (row_key new) = Some (h, t) \<longrightarrow> h = row_holder new \<or> t < now
    then n = 1 \<and> row_lease rows' = (row_lease rows)(row_key new \<mapsto> (row_holder new, row_expiration_ts new))
    else n = 0 \<and> rows' = rows)"
proof (induction rows arbitrary: n rows')
  case Nil
  then show ?case by (auto simp: row_lease_def)
next
  case (Cons row rows)
  show ?case
  proof (cases "row_key row = row_key new")
    case True
    with Cons.prems show ?thesis by (auto simp: row_lease_def split: if_splits)
  next
    case False
    obtain m rs where "upsert_lease new now rows = (m, rs)" by fastforce
    with False Cons show ?thesis by (auto simp: row_lease_def fun_upd_twist split: if_splits)
  qed
qed

interpretation sqlite_lease: lease_store sqlite_try_lock "\<lambda>_. True" row_lease
proof
  fix s s' now key holder t and d :: u32
  let ?new = "\<lparr>row_key = key, row_holder = holder, row_expiration_ts = now + unat d\<rparr>"
  obtain n rows where u: "upsert_lease ?new now s = (n, rows)" by fastforce
  note r = upsert_lease_eq [OF u]
  show "\<exists>b s'. sqlite_try_lock now d key holder s = (Inr b, s') \<and> True" by (simp add: sqlite_try_lock_def split: prod.splits)
  show "row_lease s' = (row_lease s)(key \<mapsto> (holder, now + unat d)) \<and>
      (\<forall>h t. row_lease s key = Some (h, t) \<longrightarrow> h = holder \<or> t < now)"
    if "sqlite_try_lock now d key holder s = (Inr True, s')"
    using that u r by (auto simp: sqlite_try_lock_def split: if_splits)
  show "row_lease s' = row_lease s" if "sqlite_try_lock now d key holder s = (Inr False, s')"
    using that u r by (auto simp: sqlite_try_lock_def split: if_splits)
  show "fst (sqlite_try_lock now d key holder s) = Inr True" if "row_lease s key = Some (holder, t)"
    using that u r by (simp add: sqlite_try_lock_def)
qed



section \<open>Waiting for the lock\<close>

declare spin_lock_loop.simps [simp del]

lemma unat_saturating_double: "unat (saturating_double v) = min (unat v * 2) (2 ^ 32 - 1)"
  by (auto simp: saturating_double_def unat_word_ariths unat_max_word min_def)

text \<open>The backoff is one that a waiting call can have: it stops, or it leaves \<open>k\<close> more doublings.\<close>

lemma try_lock_once_cases:
  obtains e s' where "try_lock_once try_lock now l s = (Inl e, l, s')" "e \<noteq> LockTimeout"
  | l' s' where "try_lock_once try_lock now l s = (Inr True, l', s')"
  | s' where "try_lock_once try_lock now l s = (Inr False, l, s')"
proof (cases "0 < num_holders l")
  case True
  then show ?thesis using that(2) by (simp add: try_lock_once_def)
next
  case False
  obtain r s' where t: "try_lock now LEASE_DURATION_MS (lock_key l) (lock_holder l) s = (r, s')" by fastforce
  show ?thesis
  proof (cases r)
    case (Inl err)
    with False t that(1) [of "BackingStoreError err" s'] show ?thesis by (simp add: try_lock_once_def)
  next
    case (Inr b)
    with False t that(2,3) show ?thesis by (cases b) (simp_all add: try_lock_once_def)
  qed
qed

definition spin_result ::
  "u32 \<Rightarrow> nat \<Rightarrow> nat \<Rightarrow> (('e lock_store_error + unit) \<times> nat \<times> store_lock \<times> 's) run \<Rightarrow> bool" where
  "spin_result m now extra r \<longleftrightarrow> (\<exists>x now' l s. r = Done (x, now', l, s) \<and> now \<le> now' \<and> now' \<le> now + extra \<and>
     (x = Inl LockTimeout \<longrightarrow> backoff l = WaitStop) \<and> (x = Inr () \<longrightarrow> backoff l = WaitSome INITIAL_BACKOFF_MS))"

lemma spin_result_mono:
  "spin_result m (now + d) a r \<Longrightarrow> d + a \<le> b \<Longrightarrow> spin_result m now b r"
  by (auto simp: spin_result_def)

text \<open>One iteration: either the call returns, or it waits and goes on with the next backoff.\<close>

lemma spin_lock_loop_step:
  fixes try_lock :: "('s, 'e) backing_store"
  assumes "\<And>w l' s'. next_wait m l = (Inr w :: 'e lock_store_error + u32, l') \<Longrightarrow>
    spin_result m (now + unat w) (extra - unat w) (spin_lock_loop fuel try_lock env m (now + unat w) l' s') \<and> unat w \<le> extra"
  shows "spin_result m now extra (spin_lock_loop (Suc fuel) try_lock env m now l s)"
proof (rule try_lock_once_cases [of try_lock now l s])
  fix s1 assume "try_lock_once try_lock now l s = (Inr False, l, s1)"
  moreover obtain r :: "'e lock_store_error + u32" and l' where n: "next_wait m l = (r, l')" by fastforce
  ultimately have eq: "spin_lock_loop (Suc fuel) try_lock env m now l s =
      (case r of Inl err \<Rightarrow> Done (Inl err, now, l', s1)
       | Inr wait \<Rightarrow> spin_lock_loop fuel try_lock env m (now + unat wait) l' (env wait s1))"
    by (simp add: spin_lock_loop.simps)
  show ?thesis
  proof (cases r)
    case (Inl err)
    then have "l' = l" "backoff l = WaitStop"
      using n by (auto simp: next_wait_def Let_def split: waiting_time.splits)
    with Inl show ?thesis unfolding eq by (simp add: spin_result_def)
  next
    case (Inr w)
    with assms n have "spin_result m (now + unat w) (extra - unat w) (spin_lock_loop fuel try_lock env m (now + unat w) l' (env w s1))"
      and "unat w \<le> extra" by simp_all
    then show ?thesis unfolding eq using Inr by (auto intro: spin_result_mono)
  qed
qed (simp_all add: spin_result_def spin_lock_loop.simps)

lemma spin_lock_loop_stop:
  assumes "backoff l = WaitStop"
  shows "spin_result m now 0 (spin_lock_loop (Suc fuel) try_lock env m now l s)"
  using assms by (intro spin_lock_loop_step) (simp add: next_wait_def)

lemma spin_lock_loop_returns:
  assumes "2 ^ 32 \<le> unat v * 2 ^ (k + 1)" and "backoff l = WaitSome v"
  shows "spin_result m now (max (unat v) (2 * unat m - unat v)) (spin_lock_loop (k + 2) try_lock env m now l s)"
  using assms
proof (induction k arbitrary: v now l s)
  case 0
  then have d: "saturating_double v = - 1" by (simp add: saturating_double_def)
  have "spin_result m now' e (spin_lock_loop (Suc 0) try_lock env m now' (l\<lparr>backoff := WaitStop\<rparr>) s')" for now' e s'
    using spin_lock_loop_stop [of "l\<lparr>backoff := WaitStop\<rparr>" m now' 0 try_lock env s']
    by (auto intro: spin_result_mono [where d = 0, simplified])
  then show ?case using 0(2) d
    unfolding add_2_eq_Suc' add_0 by (intro spin_lock_loop_step) (auto simp: next_wait_def Let_def)
next
  case (Suc k)
  let ?l = "l\<lparr>backoff := if m \<le> saturating_double v then WaitStop else WaitSome (saturating_double v)\<rparr>"
  let ?e = "max (unat v) (2 * unat m - unat v)"
  have "spin_result m now' (?e - unat v) (spin_lock_loop (k + 2) try_lock env m now' ?l s')" for now' s'
  proof (cases "m \<le> saturating_double v")
    case True
    then show ?thesis using spin_lock_loop_stop [of ?l m now' "Suc k" try_lock env s']
      by (auto intro: spin_result_mono [where d = 0, simplified])
  next
    case False
    then have lt: "unat (saturating_double v) < unat m" by (simp add: word_le_nat_alt)
    have "unat m < 2 ^ 32" using unsigned_less [of m] by simp
    with lt have d: "unat (saturating_double v) = unat v * 2" by (simp add: unat_saturating_double min_def split: if_splits)
    then have "2 ^ 32 \<le> unat (saturating_double v) * 2 ^ (k + 1)" using Suc.prems(1) by simp
    from Suc.IH [OF this, of ?l now' s'] False
    have "spin_result m now' (max (unat v * 2) (2 * unat m - unat v * 2)) (spin_lock_loop (k + 2) try_lock env m now' ?l s')"
      by (simp add: d)
    moreover have "max (unat v * 2) (2 * unat m - unat v * 2) \<le> ?e - unat v" using lt d by linarith
    ultimately show ?thesis by (auto intro: spin_result_mono [where d = 0, simplified])
  qed
  then show ?case using Suc.prems(2)
    unfolding add_Suc by (intro spin_lock_loop_step) (auto simp: next_wait_def Let_def)
qed

text \<open>C15. A call of \<open>spin_lock\<close> that starts from the initial backoff returns after at most 30
  attempts, whatever the store answers and whatever other processes do: it waits at most twice the
  maximal backoff in total. When it gives up, the lock remembers it: a later call only waits again
  after a successful attempt has reset the backoff. So the call never blocks forever.\<close>

theorem spin_lock_returns:
  assumes "backoff l = WaitSome INITIAL_BACKOFF_MS" and "m = (case max_backoff of Some b \<Rightarrow> b | None \<Rightarrow> MAX_BACKOFF_MS)"
  shows "\<exists>r now' l' s'. spin_lock 30 try_lock env max_backoff now l s = Done (r, now', l', s') \<and>
    now \<le> now' \<and> now' \<le> now + max 10 (2 * unat m - 10) \<and>
    (r = Inl LockTimeout \<longrightarrow> backoff l' = WaitStop) \<and> (r = Inr () \<longrightarrow> backoff l' = WaitSome INITIAL_BACKOFF_MS)"
proof -
  have "spin_result m now (max (unat INITIAL_BACKOFF_MS) (2 * unat m - unat INITIAL_BACKOFF_MS))
      (spin_lock_loop (28 + 2) try_lock env m now l s)"
    by (rule spin_lock_loop_returns) (simp_all add: assms(1) INITIAL_BACKOFF_MS_def)
  then show ?thesis by (simp add: spin_result_def spin_lock_def assms(2) INITIAL_BACKOFF_MS_def)
qed

theorem spin_lock_returns_witness:
  "\<exists>r now' l' s'. spin_lock 30 (memory_try_lock :: (leases, unit) backing_store) (\<lambda>_ s. s) None 0
     (store_lock_new ''k'' ''a'') [''k'' \<mapsto> (''b'', 5000)] = Done (r, now', l', s') \<and> now' \<le> 1990"
  using spin_lock_returns [of "store_lock_new ''k'' ''a''" MAX_BACKOFF_MS None "memory_try_lock :: (leases, unit) backing_store"
      "\<lambda>_ s. s" 0 "[''k'' \<mapsto> (''b'', 5000)]"]
  by (auto simp: store_lock_new_def MAX_BACKOFF_MS_def)

text \<open>
  A renewal that fails ends the renew task while guards remain. From then on attempts of the same
  process get guards without asking the store, although nobody extends the lease.
\<close>

lemma renewal_error_keeps_guards:
  assumes "renew_task l = Some (Asleep t)" and "0 < num_holders l"
    and "try_lock now LEASE_DURATION_MS (lock_key l) (lock_holder l) s = (Inl e, s')"
    and "renew_step try_lock now l s = (l', s'')"
  shows "renew_task l' = None \<and> 0 < num_holders l' \<and>
    try_lock_once try_lock now' l' db = (Inr True, l'\<lparr>num_holders := num_holders l' + 1\<rparr>, db)"
  using assms by (auto simp: renew_step_def try_lock_once_def)

text \<open>After a timeout the next call gives up as soon as its first attempt is refused.\<close>

lemma timeout_is_remembered:
  assumes "backoff l = WaitStop" and "try_lock_once try_lock now l s = (Inr False, l, s')"
  shows "spin_lock (Suc fuel) try_lock env max_backoff now l s = Done (Inl LockTimeout, now, l, s')"
  using assms by (simp add: spin_lock_def spin_lock_loop.simps next_wait_def)

end
