(* ===== verification/Ring_Buffer.thy ===== *)
theory Ring_Buffer
  imports Sdk_Prelude
begin

text \<open>
  The ring buffer of the common crate (\<open>ring_buffer.rs\<close>), which wraps a \<open>VecDeque\<close> and takes the
  capacity of the deque as its bound. So the capacity is part of the state, with what the standard
  library makes of it: \<open>with_capacity\<close> allocates the requested size, a clone has the capacity of its
  length, and a full deque that grows doubles its capacity, from four on for elements of between two
  bytes and a kilobyte.
\<close>

section \<open>Operations\<close>

record 'a ring_buffer =
  inner :: "'a list"
  inner_capacity :: nat

definition ring_new :: "nat \<Rightarrow> 'a ring_buffer" where
  "ring_new n = \<lparr>inner = [], inner_capacity = n\<rparr>"

definition ring_len :: "'a ring_buffer \<Rightarrow> nat" where
  "ring_len b = length (inner b)"

definition ring_is_empty :: "'a ring_buffer \<Rightarrow> bool" where
  "ring_is_empty b = (inner b = [])"

definition ring_get :: "nat \<Rightarrow> 'a ring_buffer \<Rightarrow> 'a option" where
  "ring_get index b = (if index < length (inner b) then Some (inner b ! index) else None)"

definition push_back :: "'a \<Rightarrow> 'a ring_buffer \<Rightarrow> 'a ring_buffer" where
  "push_back value b =
     \<lparr>inner = inner b @ [value],
      inner_capacity = (if length (inner b) = inner_capacity b then max 4 (2 * inner_capacity b) else inner_capacity b)\<rparr>"

definition ring_push :: "'a \<Rightarrow> 'a ring_buffer \<Rightarrow> 'a ring_buffer" where
  "ring_push value b =
     push_back value (if ring_len b = inner_capacity b then b\<lparr>inner := tl (inner b)\<rparr> else b)"

definition ring_pop :: "'a ring_buffer \<Rightarrow> 'a option \<times> 'a ring_buffer" where
  "ring_pop b = (case inner b of [] \<Rightarrow> (None, b) | x # xs \<Rightarrow> (Some x, b\<lparr>inner := xs\<rparr>))"

definition ring_remove :: "nat \<Rightarrow> 'a ring_buffer \<Rightarrow> 'a option \<times> 'a ring_buffer" where
  "ring_remove index b =
     (if index < length (inner b)
      then (Some (inner b ! index), b\<lparr>inner := take index (inner b) @ drop (Suc index) (inner b)\<rparr>)
      else (None, b))"

definition ring_iter :: "'a ring_buffer \<Rightarrow> 'a list" where
  "ring_iter b = inner b"

text \<open>Draining the range from \<open>from\<close> to before \<open>to\<close>; a range outside of the deque panics.\<close>

definition ring_drain :: "nat \<Rightarrow> nat \<Rightarrow> 'a ring_buffer \<Rightarrow> ('a list \<times> 'a ring_buffer) run" where
  "ring_drain lower upper b =
     (if lower \<le> upper \<and> upper \<le> length (inner b)
      then Done (drop lower (take upper (inner b)), b\<lparr>inner := take lower (inner b) @ drop upper (inner b)\<rparr>)
      else Panic)"

definition ring_clear :: "'a ring_buffer \<Rightarrow> 'a ring_buffer" where
  "ring_clear b = b\<lparr>inner := []\<rparr>"

definition ring_capacity :: "'a ring_buffer \<Rightarrow> nat" where
  "ring_capacity b = inner_capacity b"

definition ring_retain :: "('a \<Rightarrow> bool) \<Rightarrow> 'a ring_buffer \<Rightarrow> 'a ring_buffer" where
  "ring_retain predicate b = b\<lparr>inner := filter predicate (inner b)\<rparr>"

definition ring_extend :: "'a list \<Rightarrow> 'a ring_buffer \<Rightarrow> 'a ring_buffer" where
  "ring_extend items b = fold ring_push items b"

text \<open>The derived \<open>Clone\<close>, and \<open>Deserialize\<close>, which pushes the elements into an empty deque.\<close>

definition ring_clone :: "'a ring_buffer \<Rightarrow> 'a ring_buffer" where
  "ring_clone b = \<lparr>inner = inner b, inner_capacity = length (inner b)\<rparr>"

definition ring_deserialize :: "'a list \<Rightarrow> 'a ring_buffer" where
  "ring_deserialize items = fold push_back items \<lparr>inner = [], inner_capacity = 0\<rparr>"

section \<open>Well-formed buffers\<close>

definition ring_ok :: "'a ring_buffer \<Rightarrow> bool" where
  "ring_ok b = (length (inner b) \<le> inner_capacity b)"

named_theorems ring_defs \<open>operations of the ring buffer\<close>

lemmas [ring_defs] = ring_new_def ring_len_def ring_is_empty_def ring_get_def ring_pop_def
  ring_remove_def ring_iter_def ring_drain_def ring_clear_def ring_capacity_def ring_retain_def

lemma push_back_inner [simp]: "inner (push_back x b) = inner b @ [x]"
  by (simp add: push_back_def)

lemma ring_push_inner:
  assumes "ring_ok b" and "0 < inner_capacity b"
  shows "inner (ring_push x b) = drop (Suc (length (inner b)) - inner_capacity b) (inner b @ [x])"
    and "inner_capacity (ring_push x b) = inner_capacity b"
  using assms by (auto simp: ring_push_def ring_len_def push_back_def ring_ok_def drop_Suc neq_Nil_conv not_le)

lemma ring_ok_push [simp]: "ring_ok b \<Longrightarrow> ring_ok (ring_push x b)"
  by (auto simp: ring_ok_def ring_push_def push_back_def ring_len_def)

lemma ring_ok_extend [simp]: "ring_ok b \<Longrightarrow> ring_ok (ring_extend xs b)"
  by (induction xs arbitrary: b) (simp_all add: ring_extend_def)

text \<open>A buffer with a capacity keeps the latest elements, up to its capacity.\<close>

lemma ring_extend_latest:
  assumes "ring_ok b" and "0 < inner_capacity b"
  shows "inner (ring_extend xs b) = drop (length (inner b) + length xs - inner_capacity b) (inner b @ xs) \<and>
    inner_capacity (ring_extend xs b) = inner_capacity b"
  using assms
proof (induction xs arbitrary: b)
  case (Cons x xs)
  let ?c = "inner_capacity b"
  note p = ring_push_inner [OF Cons.prems, of x]
  have "inner (ring_extend xs (ring_push x b)) =
      drop (length (inner (ring_push x b)) + length xs - ?c) (inner (ring_push x b) @ xs)"
    using Cons.IH [of "ring_push x b"] Cons.prems p(2) by simp
  also have "inner (ring_push x b) @ xs = drop (Suc (length (inner b)) - ?c) (inner b @ x # xs)"
    using Cons.prems by (simp add: p(1) ring_ok_def)
  finally have items: "inner (ring_extend xs (ring_push x b)) =
      drop (length (inner (ring_push x b)) + length xs - ?c + (Suc (length (inner b)) - ?c)) (inner b @ x # xs)"
    by (simp only: drop_drop)
  have "length (inner (ring_push x b)) + length xs - ?c + (Suc (length (inner b)) - ?c) = length (inner b) + Suc (length xs) - ?c"
    using Cons.prems by (auto simp: p(1) ring_ok_def not_le)
  with items Cons.IH [of "ring_push x b"] Cons.prems p(2) show ?case by (simp add: ring_extend_def)
qed (simp add: ring_ok_def ring_extend_def)

section \<open>Sequences of operations\<close>

datatype 'a ring_op = Push 'a | Pop | RemoveAt nat | Drain nat nat | Clear | Retain "'a \<Rightarrow> bool" | Extend "'a list"

fun exec_ring_op :: "'a ring_op \<Rightarrow> 'a ring_buffer \<Rightarrow> 'a ring_buffer run" where
  "exec_ring_op (Push x) b = Done (ring_push x b)"
| "exec_ring_op Pop b = Done (snd (ring_pop b))"
| "exec_ring_op (RemoveAt i) b = Done (snd (ring_remove i b))"
| "exec_ring_op (Drain i j) b = run_bind (ring_drain i j b) (\<lambda>(_, b). Done b)"
| "exec_ring_op Clear b = Done (ring_clear b)"
| "exec_ring_op (Retain P) b = Done (ring_retain P b)"
| "exec_ring_op (Extend xs) b = Done (ring_extend xs b)"

fun exec_ring_ops :: "'a ring_op list \<Rightarrow> 'a ring_buffer \<Rightarrow> 'a ring_buffer run" where
  "exec_ring_ops [] b = Done b"
| "exec_ring_ops (r # rs) b = run_bind (exec_ring_op r b) (exec_ring_ops rs)"

lemma exec_ring_op_ok:
  assumes "exec_ring_op r b = Done b'" and "ring_ok b" and "0 < inner_capacity b"
  shows "ring_ok b' \<and> inner_capacity b' = inner_capacity b"
proof (cases r)
  case (Push x)
  with assms ring_push_inner(2) show ?thesis by auto
next
  case (Retain P)
  with assms show ?thesis using order_trans [OF length_filter_le, of "inner b" _ P] by (auto simp: ring_defs ring_ok_def)
next
  case (Extend xs)
  with assms ring_extend_latest show ?thesis by auto
qed (use assms in \<open>auto simp: ring_defs ring_ok_def split: list.splits if_splits\<close>)

text \<open>A ring buffer that was created with a positive size keeps this capacity through
  any operations and never holds more elements, and extending it keeps the latest of the old and new
  elements, in order.\<close>

theorem ring_buffer_bounded:
  assumes "0 < n" and "exec_ring_ops rs (ring_new n) = Done b"
  shows "ring_capacity b = n \<and> ring_len b \<le> n \<and>
    ring_iter (ring_extend xs b) = drop (ring_len b + length xs - n) (ring_iter b @ xs)"
proof -
  have "ring_ok b \<and> inner_capacity b = inner_capacity b0"
    if "exec_ring_ops rs b0 = Done b" and "ring_ok b0" and "0 < inner_capacity b0" for b0
    using that
  proof (induction rs arbitrary: b0)
    case (Cons r rs)
    then obtain b1 where "exec_ring_op r b0 = Done b1" "exec_ring_ops rs b1 = Done b" by auto
    with Cons exec_ring_op_ok [of r b0 b1] show ?case by auto
  qed simp
  from this [OF assms(2)] have "ring_ok b \<and> inner_capacity b = n"
    using assms(1) by (simp add: ring_new_def ring_ok_def)
  with assms(1) ring_extend_latest [of b xs] show ?thesis by (simp add: ring_defs ring_ok_def)
qed

theorem ring_buffer_bounded_witness:
  "ring_iter (ring_extend [4, 5] \<lparr>inner = [2, 3], inner_capacity = 3\<rparr>) = [3, 4, 5 :: nat]"
  using ring_buffer_bounded [of 3 "[Push 1, Extend [2, 3], Pop]" "\<lparr>inner = [2, 3], inner_capacity = 3\<rparr>" "[4, 5 :: nat]"]
  by (simp add: ring_defs ring_push_def push_back_def ring_extend_def)

text \<open>A clone is full, whatever the capacity of the original: the next push drops the oldest element.\<close>

lemma clone_is_full:
  assumes "inner b \<noteq> []"
  shows "ring_capacity (ring_clone b) = length (inner b) \<and> inner (ring_push x (ring_clone b)) = tl (inner b) @ [x]"
  using assms by (simp add: ring_clone_def ring_capacity_def ring_push_def ring_len_def)

end
