(* ===== verification/Media_Key.thy ===== *)
theory Media_Key
  imports Sdk_Prelude
begin

text \<open>
  The requests for media and the text keys that identify them in the stores (\<open>media.rs\<close> of the base
  crate), with the proof that a key identifies the address and the format of a request. A \<open>char\<close> is a
  byte and a \<open>string\<close> a text in UTF-8. The resizing method is given by its text, as Ruma prints it, and
  of an encrypted file everything but the address is opaque.
\<close>

section \<open>Requests\<close>

definition UNIQUE_SEPARATOR :: string where
  "UNIQUE_SEPARATOR = ''_''"

record media_thumbnail_size =
  thumbnail_method :: string
  thumbnail_width :: nat
  thumbnail_height :: nat

record media_thumbnail_settings =
  thumbnail_size :: media_thumbnail_size
  animated :: bool

datatype media_format = File | Thumbnail media_thumbnail_settings

datatype 'f media_source = Plain string | Encrypted string 'f

record 'f media_request =
  request_source :: "'f media_source"
  request_format :: media_format

definition thumbnail_settings_new :: "string \<Rightarrow> nat \<Rightarrow> nat \<Rightarrow> media_thumbnail_settings" where
  "thumbnail_settings_new m width height =
     \<lparr>thumbnail_size = \<lparr>thumbnail_method = m, thumbnail_width = width, thumbnail_height = height\<rparr>, animated = False\<rparr>"

text \<open>How an integer is printed.\<close>

fun show_nat :: "nat \<Rightarrow> string" where
  "show_nat n = (if n < 10 then [char_of (48 + n)] else show_nat (n div 10) @ [char_of (48 + n mod 10)])"

declare show_nat.simps [simp del]

definition thumbnail_size_key :: "media_thumbnail_size \<Rightarrow> string" where
  "thumbnail_size_key s =
     thumbnail_method s @ UNIQUE_SEPARATOR @ show_nat (thumbnail_width s) @ ''x'' @ show_nat (thumbnail_height s)"

definition thumbnail_settings_key :: "media_thumbnail_settings \<Rightarrow> string" where
  "thumbnail_settings_key t =
     (let key = thumbnail_size_key (thumbnail_size t)
      in if animated t then key @ UNIQUE_SEPARATOR @ ''animated'' else key)"

fun format_key :: "media_format \<Rightarrow> string" where
  "format_key File = ''file''"
| "format_key (Thumbnail settings) = thumbnail_settings_key settings"

fun source_key :: "'f media_source \<Rightarrow> string" where
  "source_key (Plain uri) = uri"
| "source_key (Encrypted url _) = url"

definition request_uri :: "'f media_request \<Rightarrow> string" where
  "request_uri r = (case request_source r of Plain url \<Rightarrow> url | Encrypted url _ \<Rightarrow> url)"

definition request_key :: "'f media_request \<Rightarrow> string" where
  "request_key r = source_key (request_source r) @ UNIQUE_SEPARATOR @ format_key (request_format r)"

lemma source_key_uri: "source_key (request_source r) = request_uri r"
  by (cases "request_source r") (simp_all add: request_uri_def)

section \<open>Keys identify requests\<close>

lemma char_of_digit_eq: "n < 10 \<Longrightarrow> m < 10 \<Longrightarrow> char_of (48 + n) = (char_of (48 + m) :: char) \<longleftrightarrow> n = (m :: nat)"
  by (auto simp: char_of_eq_iff take_bit_eq_mod)

lemma show_nat_digits: "c \<in> set (show_nat n) \<Longrightarrow> \<exists>d < 10. c = char_of (48 + d :: nat)"
proof (induction n rule: show_nat.induct)
  case (1 n)
  show ?case
  proof (cases "n < 10")
    case False
    then have "c \<in> set (show_nat (n div 10)) \<or> c = char_of (48 + n mod 10)"
      using "1.prems" show_nat.simps [of n] by auto
    moreover have "n mod 10 < 10" by simp
    ultimately show ?thesis using "1.IH" False by blast
  qed (use "1.prems" show_nat.simps [of n] in auto)
qed

lemma show_nat_no_separator [simp]: "CHR ''_'' \<notin> set (show_nat n)" "CHR ''x'' \<notin> set (show_nat n)"
proof -
  have "char_of (48 + d :: nat) \<noteq> CHR ''_'' \<and> char_of (48 + d) \<noteq> CHR ''x''" if "d < 10" for d
  proof -
    have "d \<in> {0, 1, 2, 3, 4, 5, 6, 7, 8, 9}" using that by auto
    then show ?thesis by (elim insertE) (simp_all add: char_of_def)
  qed
  then show "CHR ''_'' \<notin> set (show_nat n)" "CHR ''x'' \<notin> set (show_nat n)"
    using show_nat_digits by metis+
qed

lemma show_nat_not_Nil [simp]: "show_nat n \<noteq> []"
  by (subst show_nat.simps) simp

lemma show_nat_inject [simp]: "show_nat n = show_nat m \<longleftrightarrow> n = m"
proof (induction n arbitrary: m rule: show_nat.induct)
  case (1 n)
  have small: "show_nat k = [char_of (48 + k)]" if "k < 10" for k using that by (subst show_nat.simps) simp
  have big: "show_nat k = show_nat (k div 10) @ [char_of (48 + k mod 10)]" if "\<not> k < 10" for k
    using that by (subst show_nat.simps) simp
  show ?case
  proof (cases "n < 10 \<or> m < 10")
    case True
    then show ?thesis
      by (cases "n < 10"; cases "m < 10") (auto simp: small big char_of_digit_eq show_nat_not_Nil [symmetric])
  next
    case False
    then have "show_nat n = show_nat m \<longleftrightarrow> n div 10 = m div 10 \<and> n mod 10 = m mod 10"
      using 1 by (simp add: big char_of_digit_eq)
    also have "\<dots> \<longleftrightarrow> n = m" by (metis div_mult_mod_eq)
    finally show ?thesis .
  qed
qed

lemma split_first_eq_iff:
  assumes "c \<notin> set xs" and "c \<notin> set xs'"
  shows "xs @ c # ys = xs' @ c # ys' \<longleftrightarrow> xs = xs' \<and> ys = ys'"
  using assms by (auto simp: append_eq_append_conv2 Cons_eq_append_conv append_eq_Cons_conv)

text \<open>A text is split at the last occurrence of a separator in only one way.\<close>

lemma split_last_eq_iff:
  assumes "c \<notin> set ys" and "c \<notin> set ys'"
  shows "xs @ c # ys = xs' @ c # ys' \<longleftrightarrow> xs = xs' \<and> ys = ys'"
proof -
  have "xs @ c # ys = xs' @ c # ys' \<longleftrightarrow> rev ys @ c # rev xs = rev ys' @ c # rev xs'"
    by (metis append_Cons append_Nil append_assoc rev.simps(2) rev_append rev_rev_ident)
  also have "\<dots> \<longleftrightarrow> rev ys = rev ys' \<and> rev xs = rev xs'" using assms by (intro split_first_eq_iff) simp_all
  finally show ?thesis by auto
qed

definition method_ok :: "media_format \<Rightarrow> bool" where
  "method_ok f = (case f of File \<Rightarrow> True | Thumbnail t \<Rightarrow> CHR ''_'' \<notin> set (thumbnail_method (thumbnail_size t)))"

fun last_segment :: "media_format \<Rightarrow> string" where
  "last_segment File = ''file''"
| "last_segment (Thumbnail t) =
     (if animated t then ''animated''
      else show_nat (thumbnail_width (thumbnail_size t)) @ ''x'' @ show_nat (thumbnail_height (thumbnail_size t)))"

fun before_last :: "media_format \<Rightarrow> string \<Rightarrow> string" where
  "before_last File uri = uri"
| "before_last (Thumbnail t) uri =
     (if animated t then uri @ ''_'' @ thumbnail_size_key (thumbnail_size t)
      else uri @ ''_'' @ thumbnail_method (thumbnail_size t))"

lemma key_segments:
  "uri @ UNIQUE_SEPARATOR @ format_key f = before_last f uri @ CHR ''_'' # last_segment f"
  by (cases f) (simp_all add: UNIQUE_SEPARATOR_def thumbnail_settings_key_def thumbnail_size_key_def)

lemma last_segment_no_separator: "CHR ''_'' \<notin> set (last_segment f)"
  by (cases f) simp_all

lemma digits_x_neq:
  assumes "CHR ''x'' \<notin> set s"
  shows "show_nat w @ CHR ''x'' # rest \<noteq> s"
  using assms by auto

lemma last_segment_eq:
  "last_segment (Thumbnail t) \<noteq> ''file''"
  "last_segment (Thumbnail t) = last_segment (Thumbnail t') \<Longrightarrow> animated t = animated t' \<and>
     (\<not> animated t \<longrightarrow> thumbnail_width (thumbnail_size t) = thumbnail_width (thumbnail_size t') \<and>
        thumbnail_height (thumbnail_size t) = thumbnail_height (thumbnail_size t'))"
  using digits_x_neq [of "''file''"] digits_x_neq [of "''animated''"] digits_x_neq [of "''animated''", THEN not_sym]
  by (auto split: if_splits simp: split_first_eq_iff)

lemma thumbnail_size_eq_iff:
  "(s :: media_thumbnail_size) = s' \<longleftrightarrow> thumbnail_method s = thumbnail_method s' \<and>
     thumbnail_width s = thumbnail_width s' \<and> thumbnail_height s = thumbnail_height s'"
  by (cases s; cases s') auto

lemma thumbnail_settings_eq_iff:
  "(t :: media_thumbnail_settings) = t' \<longleftrightarrow> thumbnail_size t = thumbnail_size t' \<and> animated t = animated t'"
  by (cases t; cases t') auto

lemma thumbnail_size_key_eq:
  fixes s s' :: media_thumbnail_size
  assumes "CHR ''_'' \<notin> set (thumbnail_method s)" and "CHR ''_'' \<notin> set (thumbnail_method s')"
  shows "uri @ ''_'' @ thumbnail_size_key s = uri' @ ''_'' @ thumbnail_size_key s' \<longleftrightarrow> uri = uri' \<and> s = s'"
proof -
  let ?d = "\<lambda>s :: media_thumbnail_size. show_nat (thumbnail_width s) @ CHR ''x'' # show_nat (thumbnail_height s)"
  have key: "uri @ ''_'' @ thumbnail_size_key s = (uri @ CHR ''_'' # thumbnail_method s) @ CHR ''_'' # ?d s"
    for uri and s :: media_thumbnail_size by (simp add: thumbnail_size_key_def UNIQUE_SEPARATOR_def)
  have digits: "CHR ''_'' \<notin> set (?d s)" for s :: media_thumbnail_size by simp
  have "uri @ ''_'' @ thumbnail_size_key s = uri' @ ''_'' @ thumbnail_size_key s' \<longleftrightarrow>
      uri @ CHR ''_'' # thumbnail_method s = uri' @ CHR ''_'' # thumbnail_method s' \<and> ?d s = ?d s'"
    unfolding key by (rule split_last_eq_iff [OF digits digits])
  also have "\<dots> \<longleftrightarrow> (uri = uri' \<and> thumbnail_method s = thumbnail_method s') \<and> ?d s = ?d s'"
    by (simp only: split_last_eq_iff [OF assms])
  also have "?d s = ?d s' \<longleftrightarrow> thumbnail_width s = thumbnail_width s' \<and> thumbnail_height s = thumbnail_height s'"
    using split_first_eq_iff [OF show_nat_no_separator(2) show_nat_no_separator(2)] by simp
  also have "(uri = uri' \<and> thumbnail_method s = thumbnail_method s') \<and>
      thumbnail_width s = thumbnail_width s' \<and> thumbnail_height s = thumbnail_height s' \<longleftrightarrow> uri = uri' \<and> s = s'"
    by (auto simp: thumbnail_size_eq_iff)
  finally show ?thesis .
qed

lemma key_eq_iff:
  assumes "method_ok f" and "method_ok f'"
  shows "uri @ UNIQUE_SEPARATOR @ format_key f = uri' @ UNIQUE_SEPARATOR @ format_key f' \<longleftrightarrow> uri = uri' \<and> f = f'"
proof
  assume "uri @ UNIQUE_SEPARATOR @ format_key f = uri' @ UNIQUE_SEPARATOR @ format_key f'"
  then have "before_last f uri @ CHR ''_'' # last_segment f = before_last f' uri' @ CHR ''_'' # last_segment f'"
    by (simp only: key_segments)
  then have seg: "before_last f uri = before_last f' uri'" "last_segment f = last_segment f'"
    by (simp_all only: split_last_eq_iff [OF last_segment_no_separator last_segment_no_separator])
  show "uri = uri' \<and> f = f'"
  proof (cases f; cases f')
    fix t t'
    assume f: "f = Thumbnail t" "f' = Thumbnail t'"
    with seg(2) have "last_segment (Thumbnail t) = last_segment (Thumbnail t')" by (simp only:)
    from last_segment_eq(2) [OF this] have l: "animated t = animated t'"
      "\<not> animated t \<Longrightarrow> thumbnail_width (thumbnail_size t) = thumbnail_width (thumbnail_size t') \<and>
         thumbnail_height (thumbnail_size t) = thumbnail_height (thumbnail_size t')" by blast+
    have m: "CHR ''_'' \<notin> set (thumbnail_method (thumbnail_size t))" "CHR ''_'' \<notin> set (thumbnail_method (thumbnail_size t'))"
      using assms f by (simp_all add: method_ok_def)
    show ?thesis
    proof (cases "animated t")
      case True
      with seg(1) f l(1) thumbnail_size_key_eq [OF m, of uri uri'] show ?thesis
        by (simp add: thumbnail_settings_eq_iff)
    next
      case False
      with seg(1) f l have "uri @ CHR ''_'' # thumbnail_method (thumbnail_size t) = uri' @ CHR ''_'' # thumbnail_method (thumbnail_size t')"
        by simp
      with l False f show ?thesis
        by (simp add: split_last_eq_iff [OF m] thumbnail_settings_eq_iff thumbnail_size_eq_iff)
    qed
  next
    fix t
    assume "f = Thumbnail t" "f' = File"
    with seg(2) last_segment_eq(1) [of t] show ?thesis by (simp only: last_segment.simps(1))
  next
    fix t
    assume "f = File" "f' = Thumbnail t"
    with seg(2) last_segment_eq(1) [of t] show ?thesis by (metis last_segment.simps(1))
  qed (use seg(1) in simp)
qed simp



text \<open>With an underscore in the method the keys of different media coincide.\<close>

lemma custom_method_keys_collide:
  "request_key \<lparr>request_source = Plain (uri @ ''_a''), request_format = Thumbnail (thumbnail_settings_new ''b'' w h)\<rparr> =
   request_key \<lparr>request_source = Plain uri, request_format = Thumbnail (thumbnail_settings_new ''a_b'' w h)\<rparr>"
  by (simp add: request_key_def thumbnail_settings_new_def thumbnail_settings_key_def thumbnail_size_key_def UNIQUE_SEPARATOR_def)

end
