(* ===== verification/Store_Cipher.thy ===== *)
theory Store_Cipher
  imports Sdk_Prelude
begin

text \<open>
  The cipher of the key/value stores (\<open>matrix-sdk-store-encryption\<close>): the keys, their export and import
  with a passphrase or a key, and the encryption of values and the hashing of keys. The cryptographic
  primitives, the encodings and the random number generator are a record of functions; an array of a
  fixed length is a list of bytes, and that the lengths are right is proved.
\<close>

section \<open>Data\<close>

definition CIPHER_VERSION :: u8 where
  "CIPHER_VERSION = 1"

definition KDF_SALT_SIZE :: nat where
  "KDF_SALT_SIZE = 32"

definition XNONCE_SIZE :: nat where
  "XNONCE_SIZE = 24"

definition KDF_ROUNDS :: u32 where
  "KDF_ROUNDS = 200000"

datatype 'x store_cipher_error =
    Serialization 'x | Deserialization string | Json 'x | Encryption | Random
  | Version u8 u8 | Length nat nat | KdfMismatch

record store_cipher =
  encryption_key :: bytes
  mac_key_seed :: bytes

record encrypted_value =
  ev_version :: u8
  ev_ciphertext :: bytes
  ev_nonce :: bytes

record encrypted_value_base64 =
  eb_version :: u8
  eb_ciphertext :: string
  eb_nonce :: string

datatype 'x base64_decode_error = DecodeError 'x | IncorrectNonceLength nat

datatype kdf_info = NoKdf | Pbkdf2ToChaCha20Poly1305 u32 bytes

datatype cipher_text_info = ChaCha20Poly1305 bytes bytes

record encrypted_store_cipher =
  esc_kdf_info :: kdf_info
  esc_ciphertext_info :: cipher_text_info

text \<open>
  The libraries: authenticated encryption (\<open>None\<close> is its error), key derivation, keyed hashes, the
  serialisations and a random number generator over its state \<open>'g\<close>. The slice decoder of base64 is
  given the length of the slice and yields the bytes that it writes.
\<close>

record ('g, 'x) cipher_library =
  aead_encrypt :: "bytes \<Rightarrow> bytes \<Rightarrow> bytes \<Rightarrow> bytes option"
  aead_decrypt :: "bytes \<Rightarrow> bytes \<Rightarrow> bytes \<Rightarrow> bytes option"
  pbkdf2 :: "string \<Rightarrow> bytes \<Rightarrow> u32 \<Rightarrow> bytes"
  derive_key :: "string \<Rightarrow> bytes \<Rightarrow> bytes"
  keyed_hash :: "bytes \<Rightarrow> bytes \<Rightarrow> bytes"
  rmp_to_vec :: "encrypted_store_cipher \<Rightarrow> bytes"
  rmp_from_slice :: "bytes \<Rightarrow> encrypted_store_cipher option"
  json_cipher_from_slice :: "bytes \<Rightarrow> 'x + encrypted_store_cipher"
  json_value_to_vec :: "encrypted_value \<Rightarrow> 'x + bytes"
  json_value_from_slice :: "bytes \<Rightarrow> 'x + encrypted_value"
  base64_encode :: "bytes \<Rightarrow> string"
  base64_decode :: "string \<Rightarrow> 'x + bytes"
  base64_decode_slice :: "string \<Rightarrow> nat \<Rightarrow> 'x + bytes"
  show_decode_error :: "'x \<Rightarrow> string"
  show_length :: "nat \<Rightarrow> string"
  try_fill :: "nat \<Rightarrow> 'g \<Rightarrow> bytes option \<times> 'g"

section \<open>Keys\<close>

definition keys_new :: "('g, 'x) cipher_library \<Rightarrow> 'g \<Rightarrow> ('x store_cipher_error + store_cipher) \<times> 'g" where
  "keys_new L g =
     (case try_fill L 32 g of
        (None, g) \<Rightarrow> (Inl Random, g)
      | (Some ek, g) \<Rightarrow>
          (case try_fill L 32 g of
             (None, g) \<Rightarrow> (Inl Random, g)
           | (Some seed, g) \<Rightarrow>
               (Inr \<lparr>encryption_key = ek, mac_key_seed = seed\<rparr>, g)))"

definition get_mac_key_for_table :: "('g, 'x) cipher_library \<Rightarrow> store_cipher \<Rightarrow> string \<Rightarrow> bytes" where
  "get_mac_key_for_table L c table_name = derive_key L table_name (mac_key_seed c)"

definition get_nonce :: "('g, 'x) cipher_library \<Rightarrow> 'g \<Rightarrow> bytes option \<times> 'g" where
  "get_nonce L g = try_fill L XNONCE_SIZE g"

definition expand_key :: "('g, 'x) cipher_library \<Rightarrow> string \<Rightarrow> bytes \<Rightarrow> u32 \<Rightarrow> bytes" where
  "expand_key L passphrase salt rounds = pbkdf2 L passphrase salt rounds"

definition hash_key :: "('g, 'x) cipher_library \<Rightarrow> store_cipher \<Rightarrow> string \<Rightarrow> bytes \<Rightarrow> bytes" where
  "hash_key L c table_name key = keyed_hash L (get_mac_key_for_table L c table_name) key"

section \<open>Export and import\<close>

definition export_helper ::
  "('g, 'x) cipher_library \<Rightarrow> bytes \<Rightarrow> kdf_info \<Rightarrow> store_cipher \<Rightarrow> 'g
   \<Rightarrow> ('x store_cipher_error + encrypted_store_cipher) \<times> 'g" where
  "export_helper L key kdf_info c g =
     (case get_nonce L g of
        (None, g) \<Rightarrow> (Inl Random, g)
      | (Some nonce, g) \<Rightarrow>
          (case aead_encrypt L key nonce (encryption_key c @ mac_key_seed c) of
             None \<Rightarrow> (Inl Encryption, g)
           | Some ciphertext \<Rightarrow>
               (Inr \<lparr>esc_kdf_info = kdf_info, esc_ciphertext_info = ChaCha20Poly1305 nonce ciphertext\<rparr>, g)))"

definition export_kdf ::
  "('g, 'x) cipher_library \<Rightarrow> string \<Rightarrow> u32 \<Rightarrow> store_cipher \<Rightarrow> 'g \<Rightarrow> ('x store_cipher_error + bytes) \<times> 'g" where
  "export_kdf L passphrase kdf_rounds c g =
     (case try_fill L KDF_SALT_SIZE g of
        (None, g) \<Rightarrow> (Inl Random, g)
      | (Some salt, g) \<Rightarrow>
          (case export_helper L (expand_key L passphrase salt kdf_rounds) (Pbkdf2ToChaCha20Poly1305 kdf_rounds salt) c g of
             (Inl e, g) \<Rightarrow> (Inl e, g)
           | (Inr esc, g) \<Rightarrow> (Inr (rmp_to_vec L esc), g)))"

definition export_cipher ::
  "('g, 'x) cipher_library \<Rightarrow> string \<Rightarrow> store_cipher \<Rightarrow> 'g \<Rightarrow> ('x store_cipher_error + bytes) \<times> 'g" where
  "export_cipher L passphrase c g = export_kdf L passphrase KDF_ROUNDS c g"

definition export_with_key ::
  "('g, 'x) cipher_library \<Rightarrow> bytes \<Rightarrow> store_cipher \<Rightarrow> 'g \<Rightarrow> ('x store_cipher_error + bytes) \<times> 'g" where
  "export_with_key L key c g =
     (case export_helper L key NoKdf c g of
        (Inl e, g) \<Rightarrow> (Inl e, g)
      | (Inr esc, g) \<Rightarrow> (Inr (rmp_to_vec L esc), g))"

text \<open>\<open>zeroize\<close> empties a vector, so the length is read after it became zero.\<close>

definition zeroize :: "bytes \<Rightarrow> bytes" where
  "zeroize v = []"

definition import_helper ::
  "('g, 'x) cipher_library \<Rightarrow> bytes \<Rightarrow> encrypted_store_cipher \<Rightarrow> 'x store_cipher_error + store_cipher" where
  "import_helper L key encrypted =
     (case esc_ciphertext_info encrypted of ChaCha20Poly1305 nonce ciphertext \<Rightarrow>
        (case aead_decrypt L key nonce ciphertext of
           None \<Rightarrow> Inl Encryption
         | Some decrypted \<Rightarrow>
             if length decrypted \<noteq> 64 then Inl (Length 64 (length (zeroize decrypted)))
             else Inr \<lparr>encryption_key = take 32 decrypted, mac_key_seed = drop 32 (take 64 decrypted)\<rparr>))"

definition import_cipher ::
  "('g, 'x) cipher_library \<Rightarrow> string \<Rightarrow> bytes \<Rightarrow> 'x store_cipher_error + store_cipher" where
  "import_cipher L passphrase encrypted =
     (case (case rmp_from_slice L encrypted of Some esc \<Rightarrow> Inr esc | None \<Rightarrow> json_cipher_from_slice L encrypted) of
        Inl e \<Rightarrow> Inl (Json e)
      | Inr esc \<Rightarrow>
          (case esc_kdf_info esc of
             NoKdf \<Rightarrow> Inl KdfMismatch
           | Pbkdf2ToChaCha20Poly1305 rounds kdf_salt \<Rightarrow> import_helper L (expand_key L passphrase kdf_salt rounds) esc))"

definition import_with_key ::
  "('g, 'x) cipher_library \<Rightarrow> bytes \<Rightarrow> bytes \<Rightarrow> ('x store_cipher_error + store_cipher) run" where
  "import_with_key L key encrypted =
     run_bind (run_of_option (rmp_from_slice L encrypted)) (\<lambda>esc.
       case esc_kdf_info esc of
         Pbkdf2ToChaCha20Poly1305 _ _ \<Rightarrow> Done (Inl KdfMismatch)
       | NoKdf \<Rightarrow> Done (import_helper L key esc))"

section \<open>Values\<close>

definition encrypt_value_data ::
  "('g, 'x) cipher_library \<Rightarrow> store_cipher \<Rightarrow> bytes \<Rightarrow> 'g \<Rightarrow> ('x store_cipher_error + encrypted_value) \<times> 'g" where
  "encrypt_value_data L c data g =
     (case get_nonce L g of
        (None, g) \<Rightarrow> (Inl Random, g)
      | (Some nonce, g) \<Rightarrow>
          (case aead_encrypt L (encryption_key c) nonce data of
             None \<Rightarrow> (Inl Encryption, g)
           | Some ciphertext \<Rightarrow> (Inr \<lparr>ev_version = CIPHER_VERSION, ev_ciphertext = ciphertext, ev_nonce = nonce\<rparr>, g)))"

definition decrypt_value_data ::
  "('g, 'x) cipher_library \<Rightarrow> store_cipher \<Rightarrow> encrypted_value \<Rightarrow> 'x store_cipher_error + bytes" where
  "decrypt_value_data L c v =
     (if ev_version v \<noteq> CIPHER_VERSION then Inl (Version CIPHER_VERSION (ev_version v))
      else case aead_decrypt L (encryption_key c) (ev_nonce v) (ev_ciphertext v) of
             None \<Rightarrow> Inl Encryption
           | Some data \<Rightarrow> Inr data)"

definition to_base64 :: "('g, 'x) cipher_library \<Rightarrow> encrypted_value \<Rightarrow> encrypted_value_base64" where
  "to_base64 L v =
     \<lparr>eb_version = ev_version v, eb_ciphertext = base64_encode L (ev_ciphertext v), eb_nonce = base64_encode L (ev_nonce v)\<rparr>"

text \<open>The slice of the nonce starts as zeros; what the decoder does not write stays zero.\<close>

definition try_from_base64 ::
  "('g, 'x) cipher_library \<Rightarrow> encrypted_value_base64 \<Rightarrow> 'x base64_decode_error + encrypted_value" where
  "try_from_base64 L v =
     (case base64_decode_slice L (eb_nonce v) XNONCE_SIZE of
        Inl e \<Rightarrow> Inl (DecodeError e)
      | Inr written \<Rightarrow>
          (case base64_decode L (eb_ciphertext v) of
             Inl e \<Rightarrow> Inl (DecodeError e)
           | Inr ciphertext \<Rightarrow>
               Inr \<lparr>ev_version = eb_version v, ev_ciphertext = ciphertext,
                    ev_nonce = written @ replicate (XNONCE_SIZE - length written) 0\<rparr>))"

fun base64_error_message :: "('g, 'x) cipher_library \<Rightarrow> 'x base64_decode_error \<Rightarrow> string" where
  "base64_error_message L (DecodeError e) = show_decode_error L e"
| "base64_error_message L (IncorrectNonceLength n) =
     ''Incorrect nonce length '' @ show_length L n @ ''. Expected length: '' @ show_length L XNONCE_SIZE @ ''.''"

definition encrypt_value_base64_data ::
  "('g, 'x) cipher_library \<Rightarrow> store_cipher \<Rightarrow> bytes \<Rightarrow> 'g \<Rightarrow> ('x store_cipher_error + encrypted_value_base64) \<times> 'g" where
  "encrypt_value_base64_data L c data g = apfst (map_sum id (to_base64 L)) (encrypt_value_data L c data g)"

definition decrypt_value_base64_data ::
  "('g, 'x) cipher_library \<Rightarrow> store_cipher \<Rightarrow> encrypted_value_base64 \<Rightarrow> 'x store_cipher_error + bytes" where
  "decrypt_value_base64_data L c v =
     (case try_from_base64 L v of
        Inl e \<Rightarrow> Inl (Deserialization (base64_error_message L e))
      | Inr v \<Rightarrow> decrypt_value_data L c v)"

text \<open>Values of a type \<open>'v\<close> are given with their JSON serialisation.\<close>

definition encrypt_value ::
  "('g, 'x) cipher_library \<Rightarrow> ('v \<Rightarrow> 'x + bytes) \<Rightarrow> store_cipher \<Rightarrow> 'v \<Rightarrow> 'g \<Rightarrow> ('x store_cipher_error + bytes) \<times> 'g" where
  "encrypt_value L to_json c v g =
     (case to_json v of
        Inl e \<Rightarrow> (Inl (Json e), g)
      | Inr data \<Rightarrow>
          (case encrypt_value_data L c data g of
             (Inl e, g) \<Rightarrow> (Inl e, g)
           | (Inr ev, g) \<Rightarrow> (map_sum Json id (json_value_to_vec L ev), g)))"

definition decrypt_value ::
  "('g, 'x) cipher_library \<Rightarrow> (bytes \<Rightarrow> 'x + 'v) \<Rightarrow> store_cipher \<Rightarrow> bytes \<Rightarrow> 'x store_cipher_error + 'v" where
  "decrypt_value L from_json c b =
     (case json_value_from_slice L b of
        Inl e \<Rightarrow> Inl (Json e)
      | Inr ev \<Rightarrow>
          (case decrypt_value_data L c ev of
             Inl e \<Rightarrow> Inl e
           | Inr plaintext \<Rightarrow> map_sum Json id (from_json plaintext)))"

section \<open>Round trips\<close>

text \<open>What the code relies on: the documented behaviour of the libraries.\<close>

definition library_ok :: "('g, 'x) cipher_library \<Rightarrow> bool" where
  "library_ok L \<longleftrightarrow>
     (\<forall>n g v g'. try_fill L n g = (Some v, g') \<longrightarrow> length v = n) \<and>
     (\<forall>key nonce data ct. aead_encrypt L key nonce data = Some ct \<longrightarrow> aead_decrypt L key nonce ct = Some data) \<and>
     (\<forall>esc. rmp_from_slice L (rmp_to_vec L esc) = Some esc) \<and>
     (\<forall>v b. json_value_to_vec L v = Inr b \<longrightarrow> json_value_from_slice L b = Inr v) \<and>
     (\<forall>b. base64_decode L (base64_encode L b) = Inr b) \<and>
     (\<forall>b. base64_decode_slice L (base64_encode L b) (length b) = Inr b) \<and>
     (\<forall>s n w. base64_decode_slice L s n = Inr w \<longrightarrow> length w \<le> n)"

lemma library_okD:
  assumes "library_ok L"
  shows "try_fill L n g = (Some v, g') \<Longrightarrow> length v = n"
    and "aead_encrypt L key nonce data = Some ct \<Longrightarrow> aead_decrypt L key nonce ct = Some data"
    and "rmp_from_slice L (rmp_to_vec L esc) = Some esc"
    and "json_value_to_vec L ev = Inr b \<Longrightarrow> json_value_from_slice L b = Inr ev"
    and "base64_decode L (base64_encode L b) = Inr b"
    and "length b = n \<Longrightarrow> base64_decode_slice L (base64_encode L b) n = Inr b"
    and "base64_decode_slice L s n = Inr w \<Longrightarrow> length w \<le> n"
  using assms unfolding library_ok_def by blast+

definition keys_ok :: "store_cipher \<Rightarrow> bool" where
  "keys_ok c \<longleftrightarrow> length (encryption_key c) = 32 \<and> length (mac_key_seed c) = 32"

lemma export_helper_Inr:
  assumes "export_helper L key kdf c g = (Inr esc, g')"
  obtains nonce ct where "aead_encrypt L key nonce (encryption_key c @ mac_key_seed c) = Some ct"
    and "esc = \<lparr>esc_kdf_info = kdf, esc_ciphertext_info = ChaCha20Poly1305 nonce ct\<rparr>"
  using assms by (auto simp: export_helper_def split: prod.splits option.splits)

lemma import_export_helper:
  assumes "library_ok L" and "keys_ok c" and "export_helper L key kdf c g = (Inr esc, g')"
  shows "import_helper L key esc = Inr c" and "esc_kdf_info esc = kdf"
proof -
  from export_helper_Inr [OF assms(3)] obtain nonce ct where
    e: "aead_encrypt L key nonce (encryption_key c @ mac_key_seed c) = Some ct"
      "esc = \<lparr>esc_kdf_info = kdf, esc_ciphertext_info = ChaCha20Poly1305 nonce ct\<rparr>" .
  show "esc_kdf_info esc = kdf" using e(2) by simp
  show "import_helper L key esc = Inr c"
    using library_okD(2) [OF assms(1) e(1)] e(2) assms(2) by (simp add: import_helper_def keys_ok_def)
qed

lemma import_helper_keys: "import_helper L key esc = Inr c \<Longrightarrow> keys_ok c"
  by (auto simp: import_helper_def keys_ok_def split: cipher_text_info.splits option.splits if_splits)

text \<open>Libraries that satisfy the laws: encryption that only copies, and encodings in unary form.\<close>

fun put_bytes :: "bytes \<Rightarrow> bytes" where
  "put_bytes [] = [0]"
| "put_bytes (b # bs) = 1 # b # put_bytes bs"

fun get_bytes :: "bytes \<Rightarrow> bytes \<times> bytes" where
  "get_bytes (flag # b # bs) = (if flag = 0 then ([], b # bs) else apfst (Cons b) (get_bytes bs))"
| "get_bytes bs = ([], [])"

lemma get_bytes_zero [simp]: "get_bytes (0 # bs) = ([], bs)"
  by (cases bs) simp_all

lemma get_put_bytes [simp]: "get_bytes (put_bytes xs @ ys) = (xs, ys)"
  by (induction xs) simp_all

definition put_cipher :: "encrypted_store_cipher \<Rightarrow> bytes" where
  "put_cipher esc =
     (case esc_ciphertext_info esc of ChaCha20Poly1305 nonce ct \<Rightarrow>
        put_bytes nonce @ put_bytes ct @
        (case esc_kdf_info esc of
           NoKdf \<Rightarrow> put_bytes [0] @ put_bytes [] @ put_bytes []
         | Pbkdf2ToChaCha20Poly1305 rounds salt \<Rightarrow> put_bytes [1] @ put_bytes (replicate (unat rounds) 0) @ put_bytes salt))"

definition get_cipher :: "bytes \<Rightarrow> encrypted_store_cipher option" where
  "get_cipher b =
     (let (nonce, b) = get_bytes b; (ct, b) = get_bytes b; (tag, b) = get_bytes b;
          (rounds, b) = get_bytes b; (salt, b) = get_bytes b
      in Some \<lparr>esc_kdf_info = (if tag = [0] then NoKdf else Pbkdf2ToChaCha20Poly1305 (of_nat (length rounds)) salt),
               esc_ciphertext_info = ChaCha20Poly1305 nonce ct\<rparr>)"

lemma get_put_cipher: "get_cipher (put_cipher esc) = Some esc"
  using get_put_bytes [where ys = "[]"]
  by (cases esc) (auto simp: get_cipher_def put_cipher_def split: cipher_text_info.splits kdf_info.splits)

definition example_library :: "(unit, unit) cipher_library" where
  "example_library =
     \<lparr>aead_encrypt = (\<lambda>_ _ data. Some data), aead_decrypt = (\<lambda>_ _ ct. Some ct), pbkdf2 = (\<lambda>_ _ _. replicate 32 0),
      derive_key = (\<lambda>_ seed. seed), keyed_hash = (\<lambda>key b. key @ b), rmp_to_vec = put_cipher, rmp_from_slice = get_cipher,
      json_cipher_from_slice = (\<lambda>_. Inl ()),
      json_value_to_vec = (\<lambda>v. Inr (put_bytes [ev_version v] @ put_bytes (ev_ciphertext v) @ put_bytes (ev_nonce v))),
      json_value_from_slice = (\<lambda>b. let (version, b) = get_bytes b; (ct, b) = get_bytes b; (nonce, b) = get_bytes b
        in Inr \<lparr>ev_version = hd version, ev_ciphertext = ct, ev_nonce = nonce\<rparr>),
      base64_encode = map (\<lambda>b. char_of (unat b)), base64_decode = (\<lambda>s. Inr (map (\<lambda>c. of_nat (of_char c)) s)),
      base64_decode_slice = (\<lambda>s n. if length s \<le> n then Inr (map (\<lambda>c. of_nat (of_char c)) s) else Inl ()),
      show_decode_error = (\<lambda>_. ''invalid''), show_length = (\<lambda>_. ''n''), try_fill = (\<lambda>n g. (Some (replicate n 0), g))\<rparr>"

lemma of_nat_unat_mod_256: "of_nat (unat b mod 256) = (b :: u8)"
proof -
  have "unat b < 2 ^ LENGTH(8)" by (rule unsigned_less)
  then show ?thesis by simp
qed

lemma example_library_ok: "library_ok example_library"
proof -
  have "json_value_from_slice example_library b = Inr v" if "json_value_to_vec example_library v = Inr b" for v b
    using that get_put_bytes [where ys = "[]"] by (cases v) (auto simp: example_library_def)
  then show ?thesis
    by (auto simp: library_ok_def example_library_def get_put_cipher of_nat_unat_mod_256 comp_def map_idI split: if_splits)
qed

definition example_cipher :: store_cipher where
  "example_cipher = \<lparr>encryption_key = replicate 32 1, mac_key_seed = replicate 32 2\<rparr>"

text \<open>C17. A cipher that was exported with a passphrase is imported again with the same
  passphrase, and one that was exported with a key with the same key. An import of the other kind
  reports the mismatch, whatever the secret.\<close>

theorem cipher_restored:
  assumes "library_ok L" and "keys_ok c"
    and "export_cipher L passphrase c g = (Inr exported, g')"
    and "export_with_key L key c h = (Inr exported_with_key, h')"
  shows "import_cipher L passphrase exported = Inr c \<and> import_with_key L key' exported = Done (Inl KdfMismatch) \<and>
    import_with_key L key exported_with_key = Done (Inr c) \<and> import_cipher L passphrase' exported_with_key = Inl KdfMismatch"
proof -
  from assms(3) obtain salt esc g1 where
    e: "export_helper L (expand_key L passphrase salt KDF_ROUNDS) (Pbkdf2ToChaCha20Poly1305 KDF_ROUNDS salt) c g1 = (Inr esc, g')"
      "exported = rmp_to_vec L esc"
    by (auto simp: export_cipher_def export_kdf_def split: prod.splits option.splits sum.splits)
  from assms(4) obtain esc' where
    k: "export_helper L key NoKdf c h = (Inr esc', h')" "exported_with_key = rmp_to_vec L esc'"
    by (auto simp: export_with_key_def split: prod.splits sum.splits)
  note i = import_export_helper [OF assms(1,2) e(1)] import_export_helper [OF assms(1,2) k(1)]
  show ?thesis using i by (simp add: import_cipher_def import_with_key_def e(2) k(2) library_okD(3) [OF assms(1)])
qed

theorem cipher_restored_witness:
  "\<exists>exported. import_cipher example_library ''secret'' exported = Inr example_cipher \<and>
     import_with_key example_library [0] exported = Done (Inl KdfMismatch)"
proof -
  obtain exported exported' where "export_cipher example_library ''secret'' example_cipher () = (Inr exported, ())"
    "export_with_key example_library [7] example_cipher () = (Inr exported', ())"
    by (simp add: example_library_def export_cipher_def export_kdf_def export_with_key_def export_helper_def get_nonce_def)
  from cipher_restored [OF example_library_ok _ this] show ?thesis
    by (auto simp: example_cipher_def keys_ok_def)
qed



lemma decrypt_encrypt_value_data:
  assumes "library_ok L" and "encrypt_value_data L c data g = (Inr v, g')"
  shows "decrypt_value_data L c v = Inr data" and "try_from_base64 L (to_base64 L v) = Inr v"
proof -
  from assms(2) obtain nonce ct where
    v: "aead_encrypt L (encryption_key c) nonce data = Some ct" "length nonce = 24"
      "v = \<lparr>ev_version = CIPHER_VERSION, ev_ciphertext = ct, ev_nonce = nonce\<rparr>"
    using library_okD(1) [OF assms(1)]
    by (auto simp: encrypt_value_data_def get_nonce_def XNONCE_SIZE_def split: prod.splits option.splits)
  show "decrypt_value_data L c v = Inr data"
    using library_okD(2) [OF assms(1) v(1)] v(3) by (simp add: decrypt_value_data_def)
  show "try_from_base64 L (to_base64 L v) = Inr v"
    using library_okD(5) [OF assms(1)] library_okD(6) [OF assms(1) v(2)] v(2,3)
    by (simp add: try_from_base64_def to_base64_def XNONCE_SIZE_def)
qed

text \<open>C18. What was encrypted is decrypted: bytes, bytes in base64 form and values in JSON,
  whose decoder reads what its encoder wrote. A value of another version is refused with the two
  versions.\<close>

theorem stored_values_restored:
  assumes "library_ok L" and "\<And>v b. to_json v = Inr b \<Longrightarrow> from_json b = Inr v"
  shows "(encrypt_value_data L c data g = (Inr ev, g') \<longrightarrow> decrypt_value_data L c ev = Inr data) \<and>
    (encrypt_value_base64_data L c data g = (Inr eb, g') \<longrightarrow> decrypt_value_base64_data L c eb = Inr data) \<and>
    (encrypt_value L to_json c v g = (Inr b, g') \<longrightarrow> decrypt_value L from_json c b = Inr v) \<and>
    (ev_version ev \<noteq> CIPHER_VERSION \<longrightarrow> decrypt_value_data L c ev = Inl (Version CIPHER_VERSION (ev_version ev)))"
proof (intro conjI impI)
  note d = decrypt_encrypt_value_data [OF assms(1)]
  show "decrypt_value_data L c ev = Inr data" if "encrypt_value_data L c data g = (Inr ev, g')"
    using d(1) that by blast
  show "decrypt_value_base64_data L c eb = Inr data" if e: "encrypt_value_base64_data L c data g = (Inr eb, g')"
  proof -
    obtain r g1 where r: "encrypt_value_data L c data g = (r, g1)" by fastforce
    with e obtain v where "r = Inr v" "eb = to_base64 L v"
      by (cases r) (auto simp: encrypt_value_base64_data_def)
    with d r show ?thesis by (simp add: decrypt_value_base64_data_def)
  qed
  show "decrypt_value L from_json c b = Inr v" if "encrypt_value L to_json c v g = (Inr b, g')"
  proof -
    from that obtain data ev where "to_json v = Inr data" "encrypt_value_data L c data g = (Inr ev, g')" "json_value_to_vec L ev = Inr b"
      by (cases "to_json v"; cases "encrypt_value_data L c (projr (to_json v)) g";
          cases "fst (encrypt_value_data L c (projr (to_json v)) g)";
          cases "json_value_to_vec L (projr (fst (encrypt_value_data L c (projr (to_json v)) g)))")
        (auto simp: encrypt_value_def)
    with d assms library_okD(4) [OF assms(1)] show ?thesis by (simp add: decrypt_value_def)
  qed
  show "decrypt_value_data L c ev = Inl (Version CIPHER_VERSION (ev_version ev))" if "ev_version ev \<noteq> CIPHER_VERSION"
    using that by (simp add: decrypt_value_data_def)
qed

theorem stored_values_restored_witness:
  "\<exists>eb. encrypt_value_base64_data example_library example_cipher [1, 2] () = (Inr eb, ()) \<and>
     decrypt_value_base64_data example_library example_cipher eb = Inr [1, 2]"
proof -
  obtain eb where "encrypt_value_base64_data example_library example_cipher [1, 2] () = (Inr eb, ())"
    by (simp add: encrypt_value_base64_data_def encrypt_value_data_def get_nonce_def example_library_def)
  with stored_values_restored [OF example_library_ok, of Inr Inr example_cipher "[1, 2]" "()"] show ?thesis by auto
qed

text \<open>The error for keys of a wrong length never reports their length, which is read after it was erased.\<close>

lemma wrong_length_reported_as_zero:
  assumes "import_helper L key esc = Inl (Length expected n)"
  shows "n = 0"
  using assms by (auto simp: import_helper_def zeroize_def split: cipher_text_info.splits option.splits if_splits)

text \<open>A nonce in base64 that is too short is not refused, but filled up with zeros.\<close>

lemma short_nonce_accepted:
  assumes "base64_decode_slice L (eb_nonce v) 24 = Inr written" and "length written < 24"
    and "base64_decode L (eb_ciphertext v) = Inr ct"
  shows "try_from_base64 L v = Inr \<lparr>ev_version = eb_version v, ev_ciphertext = ct,
    ev_nonce = written @ replicate (24 - length written) 0\<rparr>"
  using assms by (simp add: try_from_base64_def XNONCE_SIZE_def)

text \<open>Importing with a key panics on bytes that are not an export, where importing with a passphrase fails.\<close>

lemma malformed_import_panics:
  assumes "rmp_from_slice L b = None" and "json_cipher_from_slice L b = Inl e"
  shows "import_with_key L key b = Panic \<and> import_cipher L passphrase b = Inl (Json e)"
  using assms by (simp add: import_with_key_def import_cipher_def)

end
