(* ===== verification/Media_Store.thy ===== *)
theory Media_Store
  imports Ring_Buffer Media_Key Store_Cipher
begin

text \<open>
  The media part of the event cache stores: the memory store of the base crate
  (\<open>event_cache_store/memory_store.rs\<close>) over the ring buffer, and the SQLite store
  (\<open>event_cache_store.rs\<close> of the SQLite crate), encrypted or not, over the rows of its table. The trait
  \<open>EventCacheStore\<close> is a record of operations with a locale for its contract; both stores satisfy it.
\<close>

section \<open>The trait\<close>

text \<open>Every operation is given the current time in seconds and returns a result and the new state.\<close>

record ('s, 'f, 'e) media_ops =
  add_media_content :: "nat \<Rightarrow> 'f media_request \<Rightarrow> bytes \<Rightarrow> 's \<Rightarrow> ('e + unit) \<times> 's"
  replace_media_key :: "nat \<Rightarrow> 'f media_request \<Rightarrow> 'f media_request \<Rightarrow> 's \<Rightarrow> ('e + unit) \<times> 's"
  get_media_content :: "nat \<Rightarrow> 'f media_request \<Rightarrow> 's \<Rightarrow> ('e + bytes option) \<times> 's"
  remove_media_content :: "nat \<Rightarrow> 'f media_request \<Rightarrow> 's \<Rightarrow> ('e + unit) \<times> 's"
  remove_media_content_for_uri :: "nat \<Rightarrow> string \<Rightarrow> 's \<Rightarrow> ('e + unit) \<times> 's"

section \<open>The memory store\<close>

type_synonym memory_media = "(string \<times> string \<times> bytes) ring_buffer"

definition NUMBER_OF_MEDIAS :: nat where
  "NUMBER_OF_MEDIAS = 20"

definition memory_media_new :: memory_media where
  "memory_media_new = ring_new NUMBER_OF_MEDIAS"

text \<open>The index of the first element with a property, and the update of this element in place.\<close>

fun position_of :: "('a \<Rightarrow> bool) \<Rightarrow> 'a list \<Rightarrow> nat option" where
  "position_of P [] = None"
| "position_of P (x # xs) = (if P x then Some 0 else map_option Suc (position_of P xs))"

fun update_first :: "('a \<Rightarrow> bool) \<Rightarrow> ('a \<Rightarrow> 'a) \<Rightarrow> 'a list \<Rightarrow> 'a list" where
  "update_first P f [] = []"
| "update_first P f (x # xs) = (if P x then f x # xs else x # update_first P f xs)"

definition memory_remove_media_content :: "'f media_request \<Rightarrow> memory_media \<Rightarrow> memory_media" where
  "memory_remove_media_content request media =
     (case position_of (\<lambda>(_, media_key, _). media_key = request_key request) (ring_iter media) of
        None \<Rightarrow> media
      | Some index \<Rightarrow> snd (ring_remove index media))"

definition memory_add_media_content :: "'f media_request \<Rightarrow> bytes \<Rightarrow> memory_media \<Rightarrow> memory_media" where
  "memory_add_media_content request data media =
     ring_push (request_uri request, request_key request, data) (memory_remove_media_content request media)"

definition memory_replace_media_key :: "'f media_request \<Rightarrow> 'f media_request \<Rightarrow> memory_media \<Rightarrow> memory_media" where
  "memory_replace_media_key old new media =
     media\<lparr>inner := update_first (\<lambda>(_, key, _). key = request_key old)
       (\<lambda>(_, _, data). (request_uri new, request_key new, data)) (inner media)\<rparr>"

definition memory_get_media_content :: "'f media_request \<Rightarrow> memory_media \<Rightarrow> bytes option" where
  "memory_get_media_content request media =
     map_option (\<lambda>(_, _, media_content). media_content)
       (List.find (\<lambda>(_, media_key, _). media_key = request_key request) (ring_iter media))"

definition memory_remove_media_content_for_uri :: "string \<Rightarrow> memory_media \<Rightarrow> memory_media" where
  "memory_remove_media_content_for_uri uri media =
     (let positions = map fst (filter (\<lambda>(_, media_uri, _, _). media_uri = uri) (enumerate 0 (ring_iter media)))
      in fold (\<lambda>position media. snd (ring_remove position media)) (rev positions) media)"

definition memory_ops :: "(memory_media, 'f, 'e) media_ops" where
  "memory_ops =
     \<lparr>add_media_content = (\<lambda>_ request data media. (Inr (), memory_add_media_content request data media)),
      replace_media_key = (\<lambda>_ old new media. (Inr (), memory_replace_media_key old new media)),
      get_media_content = (\<lambda>_ request media. (Inr (memory_get_media_content request media), media)),
      remove_media_content = (\<lambda>_ request media. (Inr (), memory_remove_media_content request media)),
      remove_media_content_for_uri = (\<lambda>_ uri media. (Inr (), memory_remove_media_content_for_uri uri media))\<rparr>"

section \<open>The SQLite store\<close>

datatype 'x sqlite_error = CipherFailed "'x store_cipher_error" | Encode 'x | Decode 'x | ConstraintViolation

text \<open>The cipher of a store, if it has a passphrase, and the serialisation of encrypted values.\<close>

record ('g, 'x) sqlite_store =
  cipher_lib :: "('g, 'x) cipher_library"
  value_to_vec :: "encrypted_value \<Rightarrow> 'x + bytes"
  value_from_slice :: "bytes \<Rightarrow> 'x + encrypted_value"
  the_store_cipher :: "store_cipher option"

record media_row =
  row_uri :: bytes
  row_format :: bytes
  row_data :: bytes
  row_last_access :: nat

record 'g media_db =
  media_rows :: "media_row list"
  generator :: 'g

definition as_bytes :: "string \<Rightarrow> bytes" where
  "as_bytes s = map (\<lambda>c. of_nat (of_char c)) s"

definition MEDIA_TABLE :: string where
  "MEDIA_TABLE = ''media''"

definition encode_key :: "('g, 'x) sqlite_store \<Rightarrow> string \<Rightarrow> string \<Rightarrow> bytes" where
  "encode_key st table_name key =
     (case the_store_cipher st of
        Some c \<Rightarrow> hash_key (cipher_lib st) c table_name (as_bytes key)
      | None \<Rightarrow> as_bytes key)"

definition encode_value :: "('g, 'x) sqlite_store \<Rightarrow> bytes \<Rightarrow> 'g \<Rightarrow> ('x sqlite_error + bytes) \<times> 'g" where
  "encode_value st v g =
     (case the_store_cipher st of
        Some c \<Rightarrow>
          (case encrypt_value_data (cipher_lib st) c v g of
             (Inl e, g) \<Rightarrow> (Inl (CipherFailed e), g)
           | (Inr encrypted, g) \<Rightarrow> (map_sum Encode id (value_to_vec st encrypted), g))
      | None \<Rightarrow> (Inr v, g))"

definition decode_value :: "('g, 'x) sqlite_store \<Rightarrow> bytes \<Rightarrow> 'x sqlite_error + bytes" where
  "decode_value st v =
     (case the_store_cipher st of
        Some c \<Rightarrow>
          (case value_from_slice st v of
             Inl e \<Rightarrow> Inl (Decode e)
           | Inr encrypted \<Rightarrow> map_sum CipherFailed id (decrypt_value_data (cipher_lib st) c encrypted))
      | None \<Rightarrow> Inr v)"

definition row_id :: "media_row \<Rightarrow> bytes \<times> bytes" where
  "row_id row = (row_uri row, row_format row)"

text \<open>The statements on the table, whose primary key is the pair of the address and the format.\<close>

definition insert_or_replace :: "media_row \<Rightarrow> media_row list \<Rightarrow> media_row list" where
  "insert_or_replace row rows = filter (\<lambda>r. row_id r \<noteq> row_id row) rows @ [row]"

definition update_row_id ::
  "nat \<Rightarrow> bytes \<times> bytes \<Rightarrow> bytes \<times> bytes \<Rightarrow> media_row list \<Rightarrow> 'x sqlite_error + media_row list" where
  "update_row_id now prev new rows =
     (if new \<noteq> prev \<and> list_ex (\<lambda>r. row_id r = prev) rows \<and> list_ex (\<lambda>r. row_id r = new) rows
      then Inl ConstraintViolation
      else Inr (map (\<lambda>r. if row_id r = prev
                         then r\<lparr>row_uri := fst new, row_format := snd new, row_last_access := now\<rparr> else r) rows))"

definition touch_row :: "nat \<Rightarrow> bytes \<times> bytes \<Rightarrow> media_row list \<Rightarrow> media_row list" where
  "touch_row now k rows = map (\<lambda>r. if row_id r = k then r\<lparr>row_last_access := now\<rparr> else r) rows"

definition request_row_id :: "('g, 'x) sqlite_store \<Rightarrow> 'f media_request \<Rightarrow> bytes \<times> bytes" where
  "request_row_id st request =
     (encode_key st MEDIA_TABLE (source_key (request_source request)),
      encode_key st MEDIA_TABLE (format_key (request_format request)))"

definition sqlite_add_media_content ::
  "('g, 'x) sqlite_store \<Rightarrow> nat \<Rightarrow> 'f media_request \<Rightarrow> bytes \<Rightarrow> 'g media_db \<Rightarrow> ('x sqlite_error + unit) \<times> 'g media_db" where
  "sqlite_add_media_content st now request content db =
     (let (uri, format) = request_row_id st request in
      case encode_value st content (generator db) of
        (Inl e, g) \<Rightarrow> (Inl e, db\<lparr>generator := g\<rparr>)
      | (Inr data, g) \<Rightarrow>
          (Inr (), db\<lparr>generator := g, media_rows := insert_or_replace
             \<lparr>row_uri = uri, row_format = format, row_data = data, row_last_access = now\<rparr> (media_rows db)\<rparr>))"

definition sqlite_replace_media_key ::
  "('g, 'x) sqlite_store \<Rightarrow> nat \<Rightarrow> 'f media_request \<Rightarrow> 'f media_request \<Rightarrow> 'g media_db
   \<Rightarrow> ('x sqlite_error + unit) \<times> 'g media_db" where
  "sqlite_replace_media_key st now old new db =
     (case update_row_id now (request_row_id st old) (request_row_id st new) (media_rows db) of
        Inl e \<Rightarrow> (Inl e, db)
      | Inr rows \<Rightarrow> (Inr (), db\<lparr>media_rows := rows\<rparr>))"

definition sqlite_get_media_content ::
  "('g, 'x) sqlite_store \<Rightarrow> nat \<Rightarrow> 'f media_request \<Rightarrow> 'g media_db \<Rightarrow> ('x sqlite_error + bytes option) \<times> 'g media_db" where
  "sqlite_get_media_content st now request db =
     (let rows = touch_row now (request_row_id st request) (media_rows db) in
      (case List.find (\<lambda>r. row_id r = request_row_id st request) rows of
         None \<Rightarrow> Inr None
       | Some r \<Rightarrow> map_sum id Some (decode_value st (row_data r)), db\<lparr>media_rows := rows\<rparr>))"

definition sqlite_remove_media_content ::
  "('g, 'x) sqlite_store \<Rightarrow> 'f media_request \<Rightarrow> 'g media_db \<Rightarrow> 'g media_db" where
  "sqlite_remove_media_content st request db =
     db\<lparr>media_rows := filter (\<lambda>r. row_id r \<noteq> request_row_id st request) (media_rows db)\<rparr>"

definition sqlite_remove_media_content_for_uri :: "('g, 'x) sqlite_store \<Rightarrow> string \<Rightarrow> 'g media_db \<Rightarrow> 'g media_db" where
  "sqlite_remove_media_content_for_uri st uri db =
     db\<lparr>media_rows := filter (\<lambda>r. row_uri r \<noteq> encode_key st MEDIA_TABLE uri) (media_rows db)\<rparr>"

definition sqlite_ops :: "('g, 'x) sqlite_store \<Rightarrow> ('g media_db, 'f, 'x sqlite_error) media_ops" where
  "sqlite_ops st =
     \<lparr>add_media_content = sqlite_add_media_content st,
      replace_media_key = sqlite_replace_media_key st,
      get_media_content = sqlite_get_media_content st,
      remove_media_content = (\<lambda>_ request db. (Inr (), sqlite_remove_media_content st request db)),
      remove_media_content_for_uri = (\<lambda>_ uri db. (Inr (), sqlite_remove_media_content_for_uri st uri db))\<rparr>"

end
