(* ===== verification/Media_Contract.thy ===== *)
theory Media_Contract
  imports Media_Store
begin

text \<open>
  The contract of the media stores: a store holds a partial map from addresses and formats to
  contents, from which adding may drop entries once the store is full. The memory store satisfies it
  with room for twenty media, the SQLite store without a bound.
\<close>

section \<open>Specification\<close>

type_synonym media_id = "string \<times> media_format"

definition media_id_of :: "'f media_request \<Rightarrow> media_id" where
  "media_id_of r = (request_uri r, request_format r)"

datatype 'f media_op =
    AddMedia "'f media_request" bytes
  | ReplaceKey "'f media_request" "'f media_request"
  | GetMedia "'f media_request"
  | RemoveMedia "'f media_request"
  | RemoveUri string

fun media_spec :: "'f media_op \<Rightarrow> (media_id \<rightharpoonup> bytes) \<Rightarrow> (media_id \<rightharpoonup> bytes)" where
  "media_spec (AddMedia r d) m = m(media_id_of r \<mapsto> d)"
| "media_spec (ReplaceKey old new) m = m(media_id_of old := None, media_id_of new := m (media_id_of old))"
| "media_spec (GetMedia r) m = m"
| "media_spec (RemoveMedia r) m = m(media_id_of r := None)"
| "media_spec (RemoveUri uri) m = (\<lambda>k. if fst k = uri then None else m k)"

abbreviation request_ok :: "'f media_request \<Rightarrow> bool" where
  "request_ok r \<equiv> method_ok (request_format r)"

text \<open>A key is only replaced by one that is not in use.\<close>

fun op_allowed :: "'f media_op \<Rightarrow> (media_id \<rightharpoonup> bytes) \<Rightarrow> bool" where
  "op_allowed (AddMedia r d) m = request_ok r"
| "op_allowed (ReplaceKey old new) m =
     (request_ok old \<and> request_ok new \<and> (m (media_id_of new) = None \<or> media_id_of new = media_id_of old))"
| "op_allowed (GetMedia r) m = request_ok r"
| "op_allowed (RemoveMedia r) m = request_ok r"
| "op_allowed (RemoveUri uri) m = True"

fun ops_allowed :: "(nat \<times> 'f media_op) list \<Rightarrow> (media_id \<rightharpoonup> bytes) \<Rightarrow> bool" where
  "ops_allowed [] m = True"
| "ops_allowed ((_, x) # xs) m = (op_allowed x m \<and> ops_allowed xs (media_spec x m))"

definition media_specs :: "(nat \<times> 'f media_op) list \<Rightarrow> (media_id \<rightharpoonup> bytes) \<Rightarrow> (media_id \<rightharpoonup> bytes)" where
  "media_specs xs m = fold (\<lambda>(_, x). media_spec x) xs m"

definition adds :: "(nat \<times> 'f media_op) list \<Rightarrow> nat" where
  "adds xs = length (filter (\<lambda>(_, x). case x of AddMedia _ _ \<Rightarrow> True | _ \<Rightarrow> False) xs)"

fun run_media_op :: "('s, 'f, 'e) media_ops \<Rightarrow> nat \<Rightarrow> 'f media_op \<Rightarrow> 's \<Rightarrow> ('e + unit) \<times> 's" where
  "run_media_op ops now (AddMedia r d) s = add_media_content ops now r d s"
| "run_media_op ops now (ReplaceKey old new) s = replace_media_key ops now old new s"
| "run_media_op ops now (GetMedia r) s = apfst (map_sum id (\<lambda>_. ())) (get_media_content ops now r s)"
| "run_media_op ops now (RemoveMedia r) s = remove_media_content ops now r s"
| "run_media_op ops now (RemoveUri uri) s = remove_media_content_for_uri ops now uri s"

fun run_media_ops :: "('s, 'f, 'e) media_ops \<Rightarrow> (nat \<times> 'f media_op) list \<Rightarrow> 's \<Rightarrow> 'e + 's" where
  "run_media_ops ops [] s = Inr s"
| "run_media_ops ops ((now, x) # xs) s =
     (case run_media_op ops now x s of (Inl e, _) \<Rightarrow> Inl e | (Inr _, s) \<Rightarrow> run_media_ops ops xs s)"

section \<open>The contract\<close>

lemma map_le_lookup: "f \<subseteq>\<^sub>m g \<Longrightarrow> f k = None \<or> f k = g k"
  by (cases "f k") (auto simp: map_le_def dest: bspec [OF _ domI])

lemma map_le_iff: "f \<subseteq>\<^sub>m g \<longleftrightarrow> (\<forall>k v. f k = Some v \<longrightarrow> g k = Some v)"
  by (metis domD domI map_le_def)

locale media_contract =
  fixes ops :: "('s, 'f, 'e) media_ops"
    and inv :: "'s \<Rightarrow> bool"
    and content :: "'s \<Rightarrow> media_id \<rightharpoonup> bytes"
    and used :: "'s \<Rightarrow> nat"
    and full :: "nat \<Rightarrow> bool"
  assumes add_law: "inv s \<Longrightarrow> request_ok r \<Longrightarrow>
      \<exists>s'. add_media_content ops now r d s = (Inr (), s') \<and> inv s' \<and> used s' \<le> Suc (used s) \<and>
        content s' \<subseteq>\<^sub>m (content s)(media_id_of r \<mapsto> d) \<and> content s' (media_id_of r) = Some d \<and>
        (\<not> full (used s) \<longrightarrow> content s' = (content s)(media_id_of r \<mapsto> d))"
    and replace_law: "inv s \<Longrightarrow> request_ok old \<Longrightarrow> request_ok new \<Longrightarrow>
      content s (media_id_of new) = None \<or> media_id_of new = media_id_of old \<Longrightarrow>
      \<exists>s'. replace_media_key ops now old new s = (Inr (), s') \<and> inv s' \<and> used s' \<le> used s \<and>
        content s' = (content s)(media_id_of old := None, media_id_of new := content s (media_id_of old))"
    and get_law: "inv s \<Longrightarrow> request_ok r \<Longrightarrow>
      \<exists>s'. get_media_content ops now r s = (Inr (content s (media_id_of r)), s') \<and> inv s' \<and> used s' \<le> used s \<and>
        content s' = content s"
    and remove_law: "inv s \<Longrightarrow> request_ok r \<Longrightarrow>
      \<exists>s'. remove_media_content ops now r s = (Inr (), s') \<and> inv s' \<and> used s' \<le> used s \<and>
        content s' = (content s)(media_id_of r := None)"
    and remove_uri_law: "inv s \<Longrightarrow>
      \<exists>s'. remove_media_content_for_uri ops now uri s = (Inr (), s') \<and> inv s' \<and> used s' \<le> used s \<and>
        content s' = (\<lambda>k. if fst k = uri then None else content s k)"
begin

lemma run_op:
  assumes "inv s" and "content s \<subseteq>\<^sub>m m" and "op_allowed x m"
  shows "\<exists>s'. run_media_op ops now x s = (Inr (), s') \<and> inv s' \<and> content s' \<subseteq>\<^sub>m media_spec x m \<and>
    used s' \<le> used s + adds [(now, x)] \<and>
    (content s = m \<and> (adds [(now, x)] = 0 \<or> \<not> full (used s)) \<longrightarrow> content s' = media_spec x m)"
proof (cases x)
  case (AddMedia r d)
  have "(content s)(media_id_of r \<mapsto> d) \<subseteq>\<^sub>m m(media_id_of r \<mapsto> d)" using assms(2) by (rule map_le_upd)
  then have "c \<subseteq>\<^sub>m m(media_id_of r \<mapsto> d)" if "c \<subseteq>\<^sub>m (content s)(media_id_of r \<mapsto> d)" for c
    using that by (metis map_le_trans)
  with AddMedia assms add_law [of s r now d] show ?thesis by (fastforce simp: adds_def)
next
  case (ReplaceKey old new)
  have free: "content s (media_id_of new) = None \<or> media_id_of new = media_id_of old"
    using map_le_lookup [OF assms(2)] assms(3) ReplaceKey by (metis op_allowed.simps(2))
  have le: "(content s)(media_id_of old := None, media_id_of new := content s (media_id_of old)) \<subseteq>\<^sub>m
      m(media_id_of old := None, media_id_of new := m (media_id_of old))"
    using assms(2) by (auto simp: map_le_iff simp del: split_paired_All split: if_splits)
  from ReplaceKey assms(3) have "request_ok old" "request_ok new" by auto
  from replace_law [OF assms(1) this free, of now] obtain s' where
    "replace_media_key ops now old new s = (Inr (), s')" "inv s'" "used s' \<le> used s"
    "content s' = (content s)(media_id_of old := None, media_id_of new := content s (media_id_of old))" by blast
  with le ReplaceKey show ?thesis by (intro exI [of _ s']) (simp add: adds_def)
next
  case (GetMedia r)
  with assms get_law [of s r now] show ?thesis by (auto simp: adds_def)
next
  case (RemoveMedia r)
  have "(content s)(media_id_of r := None) \<subseteq>\<^sub>m m(media_id_of r := None)"
    using assms(2) by (auto simp: map_le_iff)
  with RemoveMedia assms remove_law [of s r now] show ?thesis by (auto simp: adds_def)
next
  case (RemoveUri uri)
  have "(\<lambda>k. if fst k = uri then None else content s k) \<subseteq>\<^sub>m (\<lambda>k. if fst k = uri then None else m k)"
    using assms(2) by (auto simp: map_le_iff)
  with RemoveUri assms remove_uri_law [of s now uri] show ?thesis by (auto simp: adds_def)
qed

lemma run_ops:
  assumes "inv s" and "content s \<subseteq>\<^sub>m m" and "ops_allowed xs m"
  shows "\<exists>s'. run_media_ops ops xs s = Inr s' \<and> inv s' \<and> content s' \<subseteq>\<^sub>m media_specs xs m \<and>
    (content s = m \<and> (\<forall>n < used s + adds xs. \<not> full n) \<longrightarrow> content s' = media_specs xs m)"
  using assms
proof (induction xs arbitrary: s m)
  case (Cons a xs)
  obtain now x where a: "a = (now, x)" by (cases a)
  from run_op [of s m x now] Cons.prems a obtain s1 where
    s1: "run_media_op ops now x s = (Inr (), s1)" "inv s1" "content s1 \<subseteq>\<^sub>m media_spec x m"
      "used s1 \<le> used s + adds [(now, x)]"
      "content s = m \<and> (adds [(now, x)] = 0 \<or> \<not> full (used s)) \<Longrightarrow> content s1 = media_spec x m" by auto
  from Cons.IH [OF s1(2,3)] Cons.prems(3) a obtain s' where
    s': "run_media_ops ops xs s1 = Inr s'" "inv s'" "content s' \<subseteq>\<^sub>m media_specs xs (media_spec x m)"
      "content s1 = media_spec x m \<and> (\<forall>n < used s1 + adds xs. \<not> full n) \<longrightarrow> content s' = media_specs xs (media_spec x m)"
    by auto
  have count: "adds (a # xs) = adds [(now, x)] + adds xs" by (simp add: adds_def a)
  have "content s' = media_specs xs (media_spec x m)" if "content s = m" and lim: "\<forall>n < used s + adds (a # xs). \<not> full n"
  proof -
    have "adds [(now, x)] = 0 \<or> \<not> full (used s)" using lim count by (cases "adds [(now, x)]") auto
    moreover have "\<forall>n < used s1 + adds xs. \<not> full n" using lim count s1(4) by auto
    ultimately show ?thesis using s1(5) s'(4) that(1) by blast
  qed
  with s1(1) s' a show ?case by (auto simp: media_specs_def)
qed (auto simp: media_specs_def)

text \<open>What a store answers is what was last stored, and with room it always has the answer.\<close>

lemma run_answers:
  assumes "inv s" and "content s = Map.empty" and "ops_allowed xs Map.empty" and "request_ok r"
  shows "\<exists>s' s'' answer. run_media_ops ops xs s = Inr s' \<and> get_media_content ops now r s' = (Inr answer, s'') \<and>
    (answer = None \<or> answer = media_specs xs Map.empty (media_id_of r)) \<and>
    ((\<forall>n < used s + adds xs. \<not> full n) \<longrightarrow> answer = media_specs xs Map.empty (media_id_of r))"
proof -
  from run_ops [OF assms(1) _ assms(3)] assms(2) obtain s' where
    s': "run_media_ops ops xs s = Inr s'" "inv s'" "content s' \<subseteq>\<^sub>m media_specs xs Map.empty"
      "(\<forall>n < used s + adds xs. \<not> full n) \<longrightarrow> content s' = media_specs xs Map.empty" by auto
  from get_law [OF s'(2) assms(4), of now] obtain s'' where
    g: "get_media_content ops now r s' = (Inr (content s' (media_id_of r)), s'')" by blast
  have "content s' (media_id_of r) = None \<or> content s' (media_id_of r) = media_specs xs Map.empty (media_id_of r)"
    by (rule map_le_lookup [OF s'(3)])
  with s'(1,4) g show ?thesis by auto
qed

end

end
