(* ===== verification/Media_Refinement.thy ===== *)
theory Media_Refinement
  imports Media_Contract
begin

text \<open>
  The memory store and the SQLite store satisfy the contract of media stores. For the memory store the
  proof rests on the keys that identify requests, for the SQLite store on the laws of its cipher.
\<close>

section \<open>The memory store\<close>

definition id_key :: "media_id \<Rightarrow> string" where
  "id_key k = fst k @ UNIQUE_SEPARATOR @ format_key (snd k)"

lemma request_key_id: "request_key r = id_key (media_id_of r)"
  by (simp add: request_key_def id_key_def media_id_of_def source_key_uri)

lemma id_key_eq_iff [simp]: "method_ok (snd k) \<Longrightarrow> method_ok (snd k') \<Longrightarrow> id_key k = id_key k' \<longleftrightarrow> k = k'"
  using key_eq_iff [of "snd k" "snd k'" "fst k" "fst k'"] by (simp add: id_key_def prod_eq_iff)

lemma media_id_of_sel [simp]: "fst (media_id_of r) = request_uri r" "snd (media_id_of r) = request_format r"
  by (simp_all add: media_id_of_def)

definition entry_ok :: "string \<times> string \<times> bytes \<Rightarrow> bool" where
  "entry_ok e \<longleftrightarrow> (\<exists>f. method_ok f \<and> fst (snd e) = id_key (fst e, f))"

definition memory_media_inv :: "memory_media \<Rightarrow> bool" where
  "memory_media_inv m \<longleftrightarrow> ring_ok m \<and> inner_capacity m = 20 \<and> distinct (map fst (map snd (inner m))) \<and>
     (\<forall>e \<in> set (inner m). entry_ok e)"

definition memory_media_content :: "memory_media \<Rightarrow> media_id \<rightharpoonup> bytes" where
  "memory_media_content m k = (if method_ok (snd k) then map_of (map snd (inner m)) (id_key k) else None)"

lemma position_of_None: "position_of P xs = None \<Longrightarrow> filter (\<lambda>x. \<not> P x) xs = xs"
  by (induction xs) (auto split: if_splits)

lemma position_of_Some:
  assumes "position_of P xs = Some i"
  shows "\<exists>ys z zs. xs = ys @ z # zs \<and> length ys = i \<and> P z \<and> (\<forall>y \<in> set ys. \<not> P y)"
  using assms
proof (induction xs arbitrary: i)
  case (Cons x xs)
  show ?case
  proof (cases "P x")
    case True
    with Cons.prems show ?thesis by (intro exI [of _ "[]"]) simp
  next
    case False
    with Cons.prems obtain j where j: "position_of P xs = Some j" "i = Suc j" by auto
    from Cons.IH [OF j(1)] obtain ys z zs where
      "xs = ys @ z # zs" "length ys = j" "P z" "\<forall>y \<in> set ys. \<not> P y" by blast
    with False j(2) show ?thesis by (intro exI [of _ "x # ys"]) auto
  qed
qed simp

lemma filter_entries:
  "map_of (map snd (filter (\<lambda>(_, k, _). k \<noteq> key) es)) = (map_of (map snd es))(key := None)"
  by (induction es) (auto simp: fun_eq_iff)

lemma distinct_filter_entries:
  "distinct (map fst (map snd es)) \<Longrightarrow> distinct (map fst (map snd (filter P es)))"
  by (simp add: distinct_map_filter comp_def)

lemma memory_remove_eq:
  assumes "distinct (map fst (map snd (inner m)))"
  shows "memory_remove_media_content r m = m\<lparr>inner := filter (\<lambda>(_, k, _). k \<noteq> request_key r) (inner m)\<rparr>"
proof (cases "position_of (\<lambda>(_, k, _). k = request_key r) (inner m)")
  case None
  from position_of_None [OF this] have "filter (\<lambda>(_, k, _). k \<noteq> request_key r) (inner m) = inner m"
    by (simp add: case_prod_unfold)
  with None show ?thesis by (simp add: memory_remove_media_content_def ring_iter_def)
next
  case (Some i)
  from position_of_Some [OF Some] obtain ys z zs where
    i: "inner m = ys @ z # zs" "length ys = i" "fst (snd z) = request_key r" "\<forall>y \<in> set ys. fst (snd y) \<noteq> request_key r"
    by (auto simp: case_prod_unfold)
  have "fst (snd z) \<notin> (\<lambda>e. fst (snd e)) ` set zs" using assms i(1) by (auto simp: comp_def)
  then have "\<forall>e \<in> set zs. fst (snd e) \<noteq> request_key r" using i(3) by force
  with Some i show ?thesis
    by (simp add: memory_remove_media_content_def ring_iter_def ring_remove_def case_prod_unfold filter_id_conv)
qed

lemma snd_ring_remove: "snd (ring_remove i b) = b\<lparr>inner := take i (inner b) @ drop (Suc i) (inner b)\<rparr>"
  by (auto simp: ring_remove_def)

lemma fold_ring_remove:
  "fold (\<lambda>i b. snd (ring_remove i b)) is b = b\<lparr>inner := fold (\<lambda>i xs. take i xs @ drop (Suc i) xs) is (inner b)\<rparr>"
  by (induction "is" arbitrary: b) (simp_all add: snd_ring_remove)

lemma fold_remove_Suc:
  "fold (\<lambda>i xs. take i xs @ drop (Suc i) xs) (map Suc is) (x # xs) = x # fold (\<lambda>i xs. take i xs @ drop (Suc i) xs) is xs"
  by (induction "is" arbitrary: xs) simp_all

lemma remove_positions:
  "fold (\<lambda>i xs. take i xs @ drop (Suc i) xs) (rev (map fst (filter (\<lambda>(_, x). P x) (enumerate 0 xs)))) xs =
   filter (\<lambda>x. \<not> P x) xs"
proof (induction xs)
  case (Cons x xs)
  let ?pos = "\<lambda>n xs. rev (map fst (filter (\<lambda>(_, x). P x) (enumerate n xs)))"
  have "?pos (Suc 0) xs = map Suc (?pos 0 xs)"
    by (simp add: enumerate_Suc_eq filter_map comp_def case_prod_unfold rev_map)
  then have "fold (\<lambda>i xs. take i xs @ drop (Suc i) xs) (?pos (Suc 0) xs) (x # xs) = x # filter (\<lambda>x. \<not> P x) xs"
    by (simp only: fold_remove_Suc Cons.IH)
  then show ?case by simp
qed simp

lemma memory_remove_uri_eq:
  "memory_remove_media_content_for_uri uri m = m\<lparr>inner := filter (\<lambda>(u, _, _). u \<noteq> uri) (inner m)\<rparr>"
  using remove_positions [of "\<lambda>(u, _, _). u = uri" "inner m"]
  by (simp add: memory_remove_media_content_for_uri_def fold_ring_remove ring_iter_def case_prod_unfold)

lemma update_first_eq:
  assumes "distinct (map fst (map snd es))"
  shows "update_first (\<lambda>(_, k, _). k = key) f es = map (\<lambda>e. if fst (snd e) = key then f e else e) es"
  using assms
proof (induction es)
  case (Cons e es)
  show ?case
  proof (cases "fst (snd e) = key")
    case True
    then have "key \<notin> (\<lambda>x. fst (snd x)) ` set es" using Cons.prems by (auto simp: comp_def)
    then have "\<forall>x \<in> set es. fst (snd x) \<noteq> key" by blast
    with True show ?thesis by (simp add: case_prod_unfold map_idI)
  qed (use Cons in \<open>simp add: case_prod_unfold\<close>)
qed simp

lemma map_of_rename:
  assumes "distinct (map fst xs)" and "new \<notin> fst ` set xs \<or> new = old"
  shows "map_of (map (\<lambda>e. if fst e = old then (new, snd e) else e) xs) = (map_of xs)(old := None, new := map_of xs old)"
    and "distinct (map fst (map (\<lambda>e. if fst e = old then (new, snd e) else e) xs))"
  using assms
proof (induction xs)
  case (Cons e xs)
  { case 1 with Cons show ?case by (auto simp: fun_eq_iff map_of_eq_None_iff image_iff) }
  { case 2 with Cons show ?case by (auto simp: image_iff split: if_splits) }
qed auto

lemma memory_inv_subset:
  assumes "memory_media_inv m" and "set es \<subseteq> set (inner m)" and "length es \<le> length (inner m)" and "distinct (map fst (map snd es))"
  shows "memory_media_inv (m\<lparr>inner := es\<rparr>)"
  using assms by (auto simp: memory_media_inv_def ring_ok_def)

lemma memory_remove_inv:
  assumes "memory_media_inv m" and "method_ok (request_format r)"
  shows "memory_media_inv (memory_remove_media_content r m)"
    and "memory_media_content (memory_remove_media_content r m) = (memory_media_content m)(media_id_of r := None)"
proof -
  let ?es = "filter (\<lambda>(_, k, _). k \<noteq> request_key r) (inner m)"
  have d: "distinct (map fst (map snd (inner m)))" using assms(1) by (simp add: memory_media_inv_def)
  show "memory_media_inv (memory_remove_media_content r m)"
    unfolding memory_remove_eq [OF d]
    by (rule memory_inv_subset [OF assms(1) _ _ distinct_filter_entries [OF d]]) auto
  show "memory_media_content (memory_remove_media_content r m) = (memory_media_content m)(media_id_of r := None)"
    unfolding memory_remove_eq [OF d] using assms(2)
    by (auto simp: memory_media_content_def fun_eq_iff filter_entries request_key_id simp del: split_paired_All)
qed

lemma memory_get_eq:
  assumes "method_ok (request_format r)"
  shows "memory_get_media_content r m = memory_media_content m (media_id_of r)"
proof -
  have "map_option (\<lambda>(_, _, c). c) (List.find (\<lambda>(_, k, _). k = key) es) = map_of (map snd es) key"
    for key and es :: "(string \<times> string \<times> bytes) list"
    by (induction es) auto
  with assms show ?thesis
    by (simp add: memory_get_media_content_def memory_media_content_def ring_iter_def request_key_id)
qed

lemma map_of_drop_le: "distinct (map fst xs) \<Longrightarrow> map_of (drop n xs) \<subseteq>\<^sub>m map_of xs"
proof (induction xs arbitrary: n)
  case (Cons x xs)
  show ?case
  proof (cases n)
    case (Suc k)
    have "map_of xs \<subseteq>\<^sub>m map_of (x # xs)"
    proof -
      have "map_of xs (fst x) = None" using Cons.prems by (simp add: map_of_eq_None_iff)
      then show ?thesis by (auto simp: map_le_iff simp del: split_paired_All)
    qed
    with Cons Suc show ?thesis using map_le_trans by fastforce
  qed (simp add: map_le_def)
qed (simp add: map_le_def)

lemma memory_add_inv:
  assumes "memory_media_inv m" and "method_ok (request_format r)"
  shows "memory_media_inv (memory_add_media_content r d m)"
    and "length (inner (memory_add_media_content r d m)) \<le> Suc (length (inner m))"
    and "memory_media_content (memory_add_media_content r d m) \<subseteq>\<^sub>m (memory_media_content m)(media_id_of r \<mapsto> d)"
    and "memory_media_content (memory_add_media_content r d m) (media_id_of r) = Some d"
    and "length (inner m) < 20 \<Longrightarrow>
      memory_media_content (memory_add_media_content r d m) = (memory_media_content m)(media_id_of r \<mapsto> d)"
proof -
  let ?k = "request_key r" and ?e = "(request_uri r, request_key r, d)"
  define es where "es = filter (\<lambda>(_, k, _). k \<noteq> ?k) (inner m)"
  define n where "n = Suc (length es) - 20"
  have inv: "ring_ok m" "inner_capacity m = 20" "distinct (map fst (map snd (inner m)))" "\<forall>e \<in> set (inner m). entry_ok e"
    using assms(1) by (simp_all add: memory_media_inv_def)
  have len: "length es \<le> length (inner m)" by (simp add: es_def)
  have dist: "distinct (map fst (map snd (es @ [?e])))"
    using distinct_filter_entries [OF inv(3), of "\<lambda>(_, k, _). k \<noteq> ?k"] by (auto simp: es_def)
  have ok: "ring_ok (m\<lparr>inner := es\<rparr>)" using inv(1) len by (simp add: ring_ok_def)
  have added: "inner (memory_add_media_content r d m) = drop n (es @ [?e])"
    "inner_capacity (memory_add_media_content r d m) = 20"
    using ring_push_inner [OF ok, of ?e] inv(2) memory_remove_eq [OF inv(3), of r]
    by (simp_all add: memory_add_media_content_def es_def n_def)
  have "n \<le> length es" "length (drop n (es @ [?e])) \<le> 20"
    using len inv(1,2) by (auto simp: n_def ring_ok_def)
  moreover have "set (drop n (es @ [?e])) \<subseteq> set (es @ [?e])" by (rule set_drop_subset)
  moreover have "entry_ok ?e" using assms(2) by (auto simp: entry_ok_def request_key_id media_id_of_def)
  ultimately show "memory_media_inv (memory_add_media_content r d m)"
    using inv(4) dist distinct_drop [OF dist, of n]
    by (auto simp: memory_media_inv_def added ring_ok_def drop_map es_def)
  show "length (inner (memory_add_media_content r d m)) \<le> Suc (length (inner m))"
    using len by (simp add: added)
  have whole: "map_of (map snd (es @ [?e])) = (map_of (map snd (inner m)))(?k \<mapsto> d)"
    using filter_entries [of ?k "inner m"] by (auto simp: es_def fun_eq_iff map_add_def split: option.splits)
  have content: "memory_media_content (memory_add_media_content r d m) k =
      (if method_ok (snd k) then map_of (drop n (map snd (es @ [?e]))) (id_key k) else None)" for k
    by (simp only: memory_media_content_def added drop_map)
  have spec: "((memory_media_content m)(media_id_of r \<mapsto> d)) k =
      (if method_ok (snd k) then map_of (map snd (es @ [?e])) (id_key k) else None)" for k
    using assms(2) unfolding whole by (auto simp: memory_media_content_def request_key_id)
  show "memory_media_content (memory_add_media_content r d m) \<subseteq>\<^sub>m (memory_media_content m)(media_id_of r \<mapsto> d)"
    using map_of_drop_le [OF dist, of n] unfolding map_le_iff content spec by simp
  have "drop n (map snd (es @ [?e])) = drop n (map snd es) @ [(?k, d)]" using \<open>n \<le> length es\<close> by simp
  moreover have "?k \<notin> fst ` set (drop n (map snd es))"
    using set_drop_subset [of n "map snd es"] by (force simp: es_def)
  ultimately show "memory_media_content (memory_add_media_content r d m) (media_id_of r) = Some d"
    using assms(2) unfolding content
    by (simp add: request_key_id map_add_def map_of_eq_None_iff [THEN iffD2])
  show "memory_media_content (memory_add_media_content r d m) = (memory_media_content m)(media_id_of r \<mapsto> d)"
    if "length (inner m) < 20"
  proof -
    have "n = 0" using that len by (simp add: n_def)
    then show ?thesis unfolding fun_eq_iff content spec by simp
  qed
qed

lemma memory_replace_inv:
  assumes "memory_media_inv m" and "method_ok (request_format old)" and "method_ok (request_format new)"
    and "memory_media_content m (media_id_of new) = None \<or> media_id_of new = media_id_of old"
  shows "memory_media_inv (memory_replace_media_key old new m)"
    and "length (inner (memory_replace_media_key old new m)) = length (inner m)"
    and "memory_media_content (memory_replace_media_key old new m) =
      (memory_media_content m)(media_id_of old := None, media_id_of new := memory_media_content m (media_id_of old))"
proof -
  let ?new = "request_key new" and ?old = "request_key old"
  let ?es = "map (\<lambda>e. if fst (snd e) = ?old then (request_uri new, ?new, snd (snd e)) else e) (inner m)"
  have d: "distinct (map fst (map snd (inner m)))" using assms(1) by (simp add: memory_media_inv_def)
  have inner: "inner (memory_replace_media_key old new m) = ?es"
    unfolding memory_replace_media_key_def update_first_eq [OF d] by (simp add: case_prod_unfold)
  have pairs: "map snd ?es = map (\<lambda>e. if fst e = ?old then (?new, snd e) else e) (map snd (inner m))" by auto
  have "?new \<notin> fst ` set (map snd (inner m)) \<or> ?new = ?old"
    using assms(3,4) by (auto simp: memory_media_content_def request_key_id map_of_eq_None_iff)
  note ren = map_of_rename [OF d this]
  show "length (inner (memory_replace_media_key old new m)) = length (inner m)" by (simp add: inner)
  have "entry_ok (request_uri new, ?new, x)" for x
    using assms(3) by (auto simp: entry_ok_def request_key_id media_id_of_def)
  moreover have "distinct (map fst (map snd ?es))" using ren(2) unfolding pairs .
  ultimately show "memory_media_inv (memory_replace_media_key old new m)"
    using assms(1) unfolding memory_media_inv_def inner
    by (auto simp: memory_replace_media_key_def ring_ok_def update_first_eq [OF d])
  show "memory_media_content (memory_replace_media_key old new m) =
      (memory_media_content m)(media_id_of old := None, media_id_of new := memory_media_content m (media_id_of old))"
    using assms(2,3) unfolding fun_eq_iff memory_media_content_def inner pairs ren(1)
    by (auto simp: request_key_id simp del: split_paired_All)
qed

lemma memory_remove_uri_inv:
  assumes "memory_media_inv m"
  shows "memory_media_inv (memory_remove_media_content_for_uri uri m)"
    and "memory_media_content (memory_remove_media_content_for_uri uri m) = (\<lambda>k. if fst k = uri then None else memory_media_content m k)"
proof -
  have d: "distinct (map fst (map snd (inner m)))" using assms by (simp add: memory_media_inv_def)
  show "memory_media_inv (memory_remove_media_content_for_uri uri m)"
    unfolding memory_remove_uri_eq by (rule memory_inv_subset [OF assms _ _ distinct_filter_entries [OF d]]) auto
  have uri_of: "u = fst k" if "(u, id_key k, x) \<in> set (inner m)" and "method_ok (snd k)" for u k x
  proof -
    from that assms obtain f where "method_ok f" "id_key k = id_key (u, f)"
      by (fastforce simp: memory_media_inv_def entry_ok_def)
    with that(2) show ?thesis by (auto dest: id_key_eq_iff [THEN iffD1, rotated 2])
  qed
  have "map_of (map snd (filter (\<lambda>(u, _, _). u \<noteq> uri) es)) (id_key k) =
      (if fst k = uri then None else map_of (map snd es) (id_key k))"
    if "method_ok (snd k)" and "set es \<subseteq> set (inner m)" for k es
    using that(2)
  proof (induction es)
    case (Cons e es)
    obtain u k' x where e: "e = (u, k', x)" by (cases e)
    show ?case
    proof (cases "k' = id_key k")
      case True
      then have "u = fst k" using uri_of [OF _ that(1), of u x] Cons.prems e by simp
      with True Cons e show ?thesis by simp
    qed (use Cons e in simp)
  qed simp
  then show "memory_media_content (memory_remove_media_content_for_uri uri m) =
      (\<lambda>k. if fst k = uri then None else memory_media_content m k)"
    by (simp add: memory_media_content_def memory_remove_uri_eq fun_eq_iff)
qed

interpretation memory_media: media_contract "memory_ops :: (memory_media, 'f, 'e) media_ops" memory_media_inv memory_media_content "\<lambda>m. length (inner m)" "\<lambda>n. 20 \<le> n"
proof unfold_locales
  fix s :: memory_media and r old new :: "'f media_request" and now d uri
  assume inv: "memory_media_inv s"
  { assume r: "method_ok (request_format r)"
    show "\<exists>s'. add_media_content memory_ops now r d s = (Inr (), s') \<and> memory_media_inv s' \<and>
        length (inner s') \<le> Suc (length (inner s)) \<and>
        memory_media_content s' \<subseteq>\<^sub>m (memory_media_content s)(media_id_of r \<mapsto> d) \<and>
        memory_media_content s' (media_id_of r) = Some d \<and>
        (\<not> 20 \<le> length (inner s) \<longrightarrow> memory_media_content s' = (memory_media_content s)(media_id_of r \<mapsto> d))"
      using memory_add_inv [OF inv r, of d] by (simp add: memory_ops_def)
    show "\<exists>s'. get_media_content memory_ops now r s = (Inr (memory_media_content s (media_id_of r)), s') \<and>
        memory_media_inv s' \<and> length (inner s') \<le> length (inner s) \<and> memory_media_content s' = memory_media_content s"
      using inv memory_get_eq [OF r] by (simp add: memory_ops_def)
    show "\<exists>s'. remove_media_content memory_ops now r s = (Inr (), s') \<and> memory_media_inv s' \<and>
        length (inner s') \<le> length (inner s) \<and> memory_media_content s' = (memory_media_content s)(media_id_of r := None)"
      using memory_remove_inv [OF inv r] memory_remove_eq [of s r] inv
      by (simp add: memory_ops_def memory_media_inv_def) }
  { assume "method_ok (request_format old)" "method_ok (request_format new)"
      "memory_media_content s (media_id_of new) = None \<or> media_id_of new = media_id_of old"
    from memory_replace_inv [OF inv this]
    show "\<exists>s'. replace_media_key memory_ops now old new s = (Inr (), s') \<and> memory_media_inv s' \<and>
        length (inner s') \<le> length (inner s) \<and> memory_media_content s' =
        (memory_media_content s)(media_id_of old := None, media_id_of new := memory_media_content s (media_id_of old))"
      by (simp add: memory_ops_def) }
  show "\<exists>s'. remove_media_content_for_uri memory_ops now uri s = (Inr (), s') \<and> memory_media_inv s' \<and>
      length (inner s') \<le> length (inner s) \<and> memory_media_content s' = (\<lambda>k. if fst k = uri then None else memory_media_content s k)"
    using memory_remove_uri_inv [OF inv, of uri] by (simp add: memory_ops_def memory_remove_uri_eq)
qed

end
