(* ===== verification/Media_Sqlite.thy ===== *)
theory Media_Sqlite
  imports Media_Refinement
begin

text \<open>
  The SQLite store satisfies the contract of media stores, with or without a passphrase, and the
  property of both stores: what a store answers is what was last stored.
\<close>

section \<open>Encoding of keys and values\<close>

text \<open>
  With a passphrase, the cipher encrypts every value, encrypted values are serialised and read back,
  and the hashes of different keys differ.
\<close>

definition sqlite_store_ok :: "('g, 'x) sqlite_store \<Rightarrow> bool" where
  "sqlite_store_ok st \<longleftrightarrow>
     (case the_store_cipher st of
        None \<Rightarrow> True
      | Some c \<Rightarrow> library_ok (cipher_lib st) \<and> inj (hash_key (cipher_lib st) c MEDIA_TABLE) \<and>
          (\<forall>data g. \<exists>v g'. encrypt_value_data (cipher_lib st) c data g = (Inr v, g')) \<and>
          (\<forall>v. \<exists>b. value_to_vec st v = Inr b \<and> value_from_slice st b = Inr v))"

lemma of_char_u8_inject: "of_nat (of_char c) = (of_nat (of_char c') :: u8) \<longleftrightarrow> c = c'"
proof -
  have "(of_char c :: nat) < 256" "(of_char c' :: nat) < 256" by (rule nat_of_char_less_256)+
  then show ?thesis by (auto simp: of_nat_inverse dest: arg_cong [where f = unat])
qed

lemma as_bytes_inject [simp]: "as_bytes s = as_bytes s' \<longleftrightarrow> s = s'"
proof -
  have "inj (\<lambda>c :: char. of_nat (of_char c) :: u8)" by (intro injI) (simp add: of_char_u8_inject)
  then show ?thesis unfolding as_bytes_def by (rule inj_map_eq_map)
qed

lemma encode_key_eq_iff:
  "sqlite_store_ok st \<Longrightarrow> encode_key st MEDIA_TABLE key = encode_key st MEDIA_TABLE key' \<longleftrightarrow> key = key'"
  by (cases "the_store_cipher st") (auto simp: encode_key_def sqlite_store_ok_def inj_eq)

lemma encode_decode_value:
  assumes "sqlite_store_ok st"
  obtains b g' where "encode_value st d g = (Inr b, g')" and "decode_value st b = Inr d"
proof (cases "the_store_cipher st")
  case None
  then show ?thesis by (intro that) (simp_all add: encode_value_def decode_value_def)
next
  case (Some c)
  with assms have ok: "library_ok (cipher_lib st)"
    "\<exists>v g'. encrypt_value_data (cipher_lib st) c d g = (Inr v, g')" "\<And>v. \<exists>b. value_to_vec st v = Inr b \<and> value_from_slice st b = Inr v"
    by (auto simp: sqlite_store_ok_def)
  from ok(2) obtain v g' where v: "encrypt_value_data (cipher_lib st) c d g = (Inr v, g')" by blast
  from ok(3) [of v] obtain b where b: "value_to_vec st v = Inr b" "value_from_slice st b = Inr v" by blast
  show ?thesis
    by (rule that [of b g'])
      (simp_all add: encode_value_def decode_value_def Some v b decrypt_encrypt_value_data(1) [OF ok(1) v])
qed

section \<open>Rows as a map\<close>

definition row_table :: "media_row list \<Rightarrow> ((bytes \<times> bytes) \<times> bytes) list" where
  "row_table rows = map (\<lambda>r. (row_id r, row_data r)) rows"

definition id_row :: "('g, 'x) sqlite_store \<Rightarrow> media_id \<Rightarrow> bytes \<times> bytes" where
  "id_row st k = (encode_key st MEDIA_TABLE (fst k), encode_key st MEDIA_TABLE (format_key (snd k)))"

lemma request_row_id_eq: "request_row_id st r = id_row st (media_id_of r)"
  by (simp add: request_row_id_def id_row_def source_key_uri)

lemma format_key_eq_iff: "method_ok f \<Longrightarrow> method_ok f' \<Longrightarrow> format_key f = format_key f' \<longleftrightarrow> f = f'"
  using key_eq_iff [of f f' "[]" "[]"] by simp

lemma id_row_eq_iff:
  "sqlite_store_ok st \<Longrightarrow> method_ok (snd k) \<Longrightarrow> method_ok (snd k') \<Longrightarrow> id_row st k = id_row st k' \<longleftrightarrow> k = k'"
  by (auto simp: id_row_def encode_key_eq_iff format_key_eq_iff prod_eq_iff)

definition sqlite_inv :: "('g, 'x) sqlite_store \<Rightarrow> 'g media_db \<Rightarrow> bool" where
  "sqlite_inv st db \<longleftrightarrow> distinct (map fst (row_table (media_rows db))) \<and>
     (\<forall>e \<in> set (row_table (media_rows db)). \<exists>d. decode_value st (snd e) = Inr d)"

definition decoded :: "('g, 'x) sqlite_store \<Rightarrow> bytes option \<Rightarrow> bytes option" where
  "decoded st b = Option.bind b (\<lambda>b. case decode_value st b of Inr d \<Rightarrow> Some d | Inl _ \<Rightarrow> None)"

definition sqlite_content :: "('g, 'x) sqlite_store \<Rightarrow> 'g media_db \<Rightarrow> media_id \<rightharpoonup> bytes" where
  "sqlite_content st db k =
     (if method_ok (snd k) then decoded st (map_of (row_table (media_rows db)) (id_row st k)) else None)"

lemma decoded_None [simp]: "decoded st None = None"
  by (simp add: decoded_def)

lemma map_of_filter_key: "map_of (filter (\<lambda>e. fst e \<noteq> k) xs) = (map_of xs)(k := None)"
  by (induction xs) (auto simp: fun_eq_iff)

lemma row_table_filter: "row_table (filter (\<lambda>r. row_id r \<noteq> k) rows) = filter (\<lambda>e. fst e \<noteq> k) (row_table rows)"
  by (simp add: row_table_def filter_map comp_def)

lemma row_table_insert:
  "row_table (insert_or_replace row rows) = filter (\<lambda>e. fst e \<noteq> row_id row) (row_table rows) @ [(row_id row, row_data row)]"
  by (simp add: insert_or_replace_def row_table_filter [unfolded row_table_def] row_table_def)

lemma row_table_touch [simp]: "row_table (touch_row now k rows) = row_table rows"
  by (simp add: row_table_def touch_row_def row_id_def comp_def if_distrib cong: if_cong)

lemma row_table_update:
  "update_row_id now prev new rows = Inr rows' \<Longrightarrow>
   row_table rows' = map (\<lambda>e. if fst e = prev then (new, snd e) else e) (row_table rows)"
  by (auto simp: update_row_id_def row_table_def row_id_def split: if_splits)

lemma update_row_id_Inr:
  assumes "new \<notin> fst ` set (row_table rows) \<or> new = prev"
  shows "\<exists>rows'. update_row_id now prev new rows = Inr rows'"
proof -
  have "new = prev \<or> \<not> list_ex (\<lambda>r. row_id r = new) rows"
    using assms by (auto simp: row_table_def list_ex_iff image_iff)
  then show ?thesis unfolding update_row_id_def by (metis (no_types, lifting))
qed

lemma find_row: "map_option row_data (List.find (\<lambda>r. row_id r = k) rows) = map_of (row_table rows) k"
  by (induction rows) (auto simp: row_table_def)

section \<open>The laws\<close>

lemma sqlite_add_law:
  assumes ok: "sqlite_store_ok st" and "sqlite_inv st db" and "method_ok (request_format r)"
  shows "\<exists>db'. sqlite_add_media_content st now r d db = (Inr (), db') \<and> sqlite_inv st db' \<and>
    length (media_rows db') \<le> Suc (length (media_rows db)) \<and>
    sqlite_content st db' = (sqlite_content st db)(media_id_of r \<mapsto> d)"
proof -
  from encode_decode_value [OF ok] obtain b g' where
    b: "encode_value st d (generator db) = (Inr b, g')" "decode_value st b = Inr d" by blast
  define row where "row = \<lparr>row_uri = fst (request_row_id st r), row_format = snd (request_row_id st r), row_data = b, row_last_access = now\<rparr>"
  define db' where "db' = db\<lparr>generator := g', media_rows := insert_or_replace row (media_rows db)\<rparr>"
  let ?t = "row_table (media_rows db)"
  have t': "row_table (media_rows db') = filter (\<lambda>e. fst e \<noteq> id_row st (media_id_of r)) ?t @ [(id_row st (media_id_of r), b)]"
    by (simp add: db'_def row_table_insert) (simp add: row_def row_id_def request_row_id_eq)
  have "sqlite_add_media_content st now r d db = (Inr (), db')"
    by (simp add: sqlite_add_media_content_def b(1) db'_def row_def case_prod_unfold Let_def)
  moreover have "sqlite_inv st db'"
    using assms(2) b(2) unfolding sqlite_inv_def t' by (auto simp: distinct_map_filter)
  moreover have "length (media_rows db') \<le> Suc (length (media_rows db))"
    by (simp add: db'_def insert_or_replace_def)
  moreover have "sqlite_content st db' = (sqlite_content st db)(media_id_of r \<mapsto> d)"
  proof
    fix k
    have "map_of (row_table (media_rows db')) = (map_of ?t)(id_row st (media_id_of r) \<mapsto> b)"
      unfolding t' by (auto simp: map_of_filter_key fun_eq_iff map_add_def split: option.splits)
    with b(2) id_row_eq_iff [OF ok, of k "media_id_of r"] assms(3)
    show "sqlite_content st db' k = ((sqlite_content st db)(media_id_of r \<mapsto> d)) k"
      by (auto simp: sqlite_content_def decoded_def)
  qed
  ultimately show ?thesis by blast
qed

lemma sqlite_get_law:
  assumes "sqlite_inv st db" and "method_ok (request_format r)"
  shows "\<exists>db'. sqlite_get_media_content st now r db = (Inr (sqlite_content st db (media_id_of r)), db') \<and>
    sqlite_inv st db' \<and> length (media_rows db') = length (media_rows db) \<and> sqlite_content st db' = sqlite_content st db"
proof -
  let ?k = "request_row_id st r"
  let ?rows = "touch_row now ?k (media_rows db)"
  have found: "map_option row_data (List.find (\<lambda>r. row_id r = ?k) ?rows) = map_of (row_table (media_rows db)) ?k"
    by (simp add: find_row)
  have "(case List.find (\<lambda>r. row_id r = ?k) ?rows of None \<Rightarrow> Inr None | Some r \<Rightarrow> map_sum id Some (decode_value st (row_data r))) =
      Inr (sqlite_content st db (media_id_of r))"
  proof (cases "List.find (\<lambda>r. row_id r = ?k) ?rows")
    case (Some row)
    with found have m: "map_of (row_table (media_rows db)) ?k = Some (row_data row)" by simp
    then obtain d where "decode_value st (row_data row) = Inr d"
      using assms(1) by (force simp: sqlite_inv_def dest: map_of_SomeD)
    with Some m assms(2) show ?thesis by (simp add: sqlite_content_def decoded_def request_row_id_eq)
  qed (use found in \<open>simp add: sqlite_content_def request_row_id_eq\<close>)
  then have "sqlite_get_media_content st now r db = (Inr (sqlite_content st db (media_id_of r)), db\<lparr>media_rows := ?rows\<rparr>)"
    by (simp add: sqlite_get_media_content_def Let_def)
  moreover have "sqlite_content st (db\<lparr>media_rows := ?rows\<rparr>) = sqlite_content st db"
    by (rule ext) (simp add: sqlite_content_def)
  moreover have "length ?rows = length (media_rows db)" by (simp add: touch_row_def)
  ultimately show ?thesis using assms(1) by (simp add: sqlite_inv_def)
qed

lemma sqlite_replace_law:
  assumes ok: "sqlite_store_ok st" and inv: "sqlite_inv st db"
    and m: "method_ok (request_format old)" "method_ok (request_format new)"
    and free: "sqlite_content st db (media_id_of new) = None \<or> media_id_of new = media_id_of old"
  shows "\<exists>db'. sqlite_replace_media_key st now old new db = (Inr (), db') \<and> sqlite_inv st db' \<and>
    length (media_rows db') = length (media_rows db) \<and>
    sqlite_content st db' = (sqlite_content st db)(media_id_of old := None, media_id_of new := sqlite_content st db (media_id_of old))"
proof -
  let ?old = "id_row st (media_id_of old)" and ?new = "id_row st (media_id_of new)"
  let ?t = "row_table (media_rows db)"
  have "?new \<notin> fst ` set ?t \<or> ?new = ?old"
  proof (cases "map_of ?t ?new")
    case (Some b)
    then obtain d where "decode_value st b = Inr d" using inv by (force simp: sqlite_inv_def dest: map_of_SomeD)
    with Some free m(2) show ?thesis by (auto simp: sqlite_content_def decoded_def)
  qed (simp add: map_of_eq_None_iff)
  note free' = this
  from update_row_id_Inr [OF this, of now] obtain rows' where
    u: "update_row_id now ?old ?new (media_rows db) = (Inr rows' :: 'b sqlite_error + _)" by blast
  have d: "distinct (map fst ?t)" using inv by (simp add: sqlite_inv_def)
  note ren = map_of_rename [OF d free'] and t' = row_table_update [OF u]
  have "sqlite_inv st (db\<lparr>media_rows := rows'\<rparr>)"
    using inv ren(2) by (auto simp: sqlite_inv_def t')
  moreover have "length rows' = length (media_rows db)"
    using arg_cong [OF t', of length] by (simp add: row_table_def)
  moreover have "sqlite_content st (db\<lparr>media_rows := rows'\<rparr>) =
      (sqlite_content st db)(media_id_of old := None, media_id_of new := sqlite_content st db (media_id_of old))"
  proof
    fix k
    show "sqlite_content st (db\<lparr>media_rows := rows'\<rparr>) k =
        ((sqlite_content st db)(media_id_of old := None, media_id_of new := sqlite_content st db (media_id_of old))) k"
      using id_row_eq_iff [OF ok, of k "media_id_of old"] id_row_eq_iff [OF ok, of k "media_id_of new"] m
      by (auto simp: sqlite_content_def t' ren(1))
  qed
  ultimately show ?thesis by (simp add: sqlite_replace_media_key_def request_row_id_eq u)
qed

lemma sqlite_filter_law:
  assumes "sqlite_inv st db" and "row_table rows = filter P (row_table (media_rows db))"
  shows "sqlite_inv st (db\<lparr>media_rows := rows\<rparr>)" and "length rows \<le> length (media_rows db)"
proof -
  show "sqlite_inv st (db\<lparr>media_rows := rows\<rparr>)"
    using assms by (auto simp: sqlite_inv_def distinct_map_filter)
  show "length rows \<le> length (media_rows db)"
    using arg_cong [OF assms(2), of length] length_filter_le [of P "row_table (media_rows db)"]
    by (simp add: row_table_def del: length_filter_le)
qed

lemma sqlite_remove_law:
  assumes ok: "sqlite_store_ok st" and inv: "sqlite_inv st db" and m: "method_ok (request_format r)"
  shows "sqlite_inv st (sqlite_remove_media_content st r db) \<and>
    length (media_rows (sqlite_remove_media_content st r db)) \<le> length (media_rows db) \<and>
    sqlite_content st (sqlite_remove_media_content st r db) = (sqlite_content st db)(media_id_of r := None)"
proof -
  let ?rows = "filter (\<lambda>row. row_id row \<noteq> request_row_id st r) (media_rows db)"
  have t: "row_table ?rows = filter (\<lambda>e. fst e \<noteq> id_row st (media_id_of r)) (row_table (media_rows db))"
    by (simp add: row_table_filter request_row_id_eq)
  have "sqlite_content st (db\<lparr>media_rows := ?rows\<rparr>) k = ((sqlite_content st db)(media_id_of r := None)) k" for k
    using id_row_eq_iff [OF ok, of k "media_id_of r"] m by (auto simp: sqlite_content_def t map_of_filter_key)
  with sqlite_filter_law [OF inv t] show ?thesis by (auto simp: sqlite_remove_media_content_def)
qed

lemma sqlite_remove_uri_law:
  assumes ok: "sqlite_store_ok st" and inv: "sqlite_inv st db"
  shows "sqlite_inv st (sqlite_remove_media_content_for_uri st uri db) \<and>
    length (media_rows (sqlite_remove_media_content_for_uri st uri db)) \<le> length (media_rows db) \<and>
    sqlite_content st (sqlite_remove_media_content_for_uri st uri db) = (\<lambda>k. if fst k = uri then None else sqlite_content st db k)"
proof -
  let ?u = "encode_key st MEDIA_TABLE uri"
  let ?rows = "filter (\<lambda>row. row_uri row \<noteq> ?u) (media_rows db)"
  have t: "row_table ?rows = filter (\<lambda>e. fst (fst e) \<noteq> ?u) (row_table (media_rows db))"
    by (simp add: row_table_def filter_map comp_def row_id_def)
  have "map_of (filter (\<lambda>e. fst (fst e) \<noteq> ?u) xs) k = (if fst k = ?u then None else map_of xs k)" for xs :: "((bytes \<times> bytes) \<times> bytes) list" and k
    by (induction xs) auto
  then have "sqlite_content st (db\<lparr>media_rows := ?rows\<rparr>) k = (if fst k = uri then None else sqlite_content st db k)" for k
    by (simp add: sqlite_content_def t id_row_def encode_key_eq_iff [OF ok])
  with sqlite_filter_law [OF inv t] show ?thesis by (auto simp: sqlite_remove_media_content_for_uri_def)
qed

lemma sqlite_media_contract:
  assumes ok: "sqlite_store_ok st"
  shows "media_contract (sqlite_ops st) (sqlite_inv st) (sqlite_content st) (\<lambda>db. length (media_rows db)) (\<lambda>_. False)"
proof (unfold_locales, goal_cases)
  case (1 s r now d)
  from sqlite_add_law [OF ok this] show ?case by (force simp: sqlite_ops_def map_le_def)
next
  case (2 s old new now)
  from sqlite_replace_law [OF ok this] show ?case by (force simp: sqlite_ops_def)
next
  case (3 s r now)
  from sqlite_get_law [OF this] show ?case by (force simp: sqlite_ops_def)
next
  case (4 s r now)
  from sqlite_remove_law [OF ok this] show ?case by (simp add: sqlite_ops_def)
next
  case (5 s now uri)
  from sqlite_remove_uri_law [OF ok this] show ?case by (simp add: sqlite_ops_def)
qed

section \<open>Both stores\<close>


definition example_request :: "string \<Rightarrow> unit media_request" where
  "example_request uri = \<lparr>request_source = Plain uri, request_format = File\<rparr>"

definition plain_store :: "(unit, unit) sqlite_store" where
  "plain_store = \<lparr>cipher_lib = example_library, value_to_vec = (\<lambda>v. Inr (ev_ciphertext v)),
     value_from_slice = (\<lambda>b. Inl ()), the_store_cipher = None\<rparr>"

definition example_media_ops :: "(nat \<times> unit media_op) list" where
  "example_media_ops =
     [(1, AddMedia (example_request ''a'') [1]), (2, ReplaceKey (example_request ''a'') (example_request ''b'')),
      (3, AddMedia (example_request ''a'') [2])]"


text \<open>
  Replacing a key by one that is in use: the memory store then has two contents under the key, and
  removing the key brings back the other one, while the SQLite store fails.
\<close>

lemma replace_onto_existing:
  "memory_get_media_content (example_request ''b'')
     (memory_remove_media_content (example_request ''b'')
       (memory_replace_media_key (example_request ''a'') (example_request ''b'')
         (memory_add_media_content (example_request ''b'') [2]
           (memory_add_media_content (example_request ''a'') [1] memory_media_new)))) = Some [2]"
  by (simp add: memory_get_media_content_def memory_remove_media_content_def memory_replace_media_key_def
      memory_add_media_content_def memory_media_new_def NUMBER_OF_MEDIAS_def example_request_def request_key_def
      request_uri_def UNIQUE_SEPARATOR_def ring_defs ring_push_def push_back_def)

end
