(* ===== verification/Read_Receipts.thy ===== *)
theory Read_Receipts
  imports Ring_Buffer Ordered_Map
begin

text \<open>
  The unread counts of a room (\<open>read_receipts.rs\<close> of the base crate): which events make a room unread,
  the selection of the latest read receipt, and the counting of unread events, notifications and
  mentions. Raw events and push actions are opaque; what Ruma reads from them is a record of functions.
\<close>

section \<open>Events\<close>

datatype relation = Replacement | OtherRelation

text \<open>
  The message-like events that the code distinguishes. The start of a poll carries the relation of its
  content, and whether an unstable poll replaces another one.
\<close>

datatype message_like =
    CallAnswer | CallInvite | CallNotify | CallHangup | CallCandidates | CallNegotiate | CallReject
  | CallSelectAnswer | PollResponse | UnstablePollResponse | Reaction | RoomRedaction
  | KeyVerificationStart | KeyVerificationReady | KeyVerificationCancel | KeyVerificationAccept
  | KeyVerificationDone | KeyVerificationMac | KeyVerificationKey
  | PollStart "relation option" | UnstablePollStart bool
  | Message | PollEnd | UnstablePollEnd | RoomEncrypted | RoomMessage | Sticker | OtherMessageLike

text \<open>A message-like event has its original content, with the relation of it, unless it was redacted.\<close>

datatype any_timeline_event =
    MessageLike string "relation option option" message_like
  | State string

fun event_sender :: "any_timeline_event \<Rightarrow> string" where
  "event_sender (MessageLike sender _ _) = sender"
| "event_sender (State sender) = sender"

record ('r, 'a) ruma_events =
  raw_event_id :: "'r \<Rightarrow> string option"
  raw_sender :: "'r \<Rightarrow> string option"
  deserialize :: "'r \<Rightarrow> any_timeline_event option"
  should_notify :: "'a \<Rightarrow> bool"
  is_highlight :: "'a \<Rightarrow> bool"

record ('r, 'a) sync_timeline_event =
  raw :: 'r
  push_actions :: "'a list"

definition event_id :: "('r, 'a) ruma_events \<Rightarrow> ('r, 'a) sync_timeline_event \<Rightarrow> string option" where
  "event_id L e = raw_event_id L (raw e)"

definition marks_as_unread :: "('r, 'a) ruma_events \<Rightarrow> 'r \<Rightarrow> string \<Rightarrow> bool" where
  "marks_as_unread L raw_event user_id =
     (case deserialize L raw_event of
        None \<Rightarrow> False
      | Some event \<Rightarrow>
          if event_sender event = user_id then False
          else case event of
            MessageLike _ original_content kind \<Rightarrow>
              (case original_content of
                 None \<Rightarrow> False
               | Some relation \<Rightarrow>
                   if relation = Some Replacement then False
                   else case kind of
                       PollStart relates_to \<Rightarrow> relates_to \<noteq> Some Replacement
                     | UnstablePollStart replacement \<Rightarrow> \<not> replacement
                     | Message \<Rightarrow> True | PollEnd \<Rightarrow> True | UnstablePollEnd \<Rightarrow> True
                     | RoomEncrypted \<Rightarrow> True | RoomMessage \<Rightarrow> True | Sticker \<Rightarrow> True
                     | _ \<Rightarrow> False)
          | State _ \<Rightarrow> False)"

section \<open>Counting\<close>

record room_read_receipts =
  num_unread :: u64
  num_notifications :: u64
  num_mentions :: u64
  latest_active :: "string option"
  pending :: "string ring_buffer"

definition new_nonempty_ring_buffer :: "string ring_buffer" where
  "new_nonempty_ring_buffer = ring_new 10"

definition room_read_receipts_default :: room_read_receipts where
  "room_read_receipts_default =
     \<lparr>num_unread = 0, num_notifications = 0, num_mentions = 0, latest_active = None, pending = new_nonempty_ring_buffer\<rparr>"

fun process_actions ::
  "('r, 'a) ruma_events \<Rightarrow> 'a list \<Rightarrow> bool \<Rightarrow> bool \<Rightarrow> room_read_receipts \<Rightarrow> room_read_receipts" where
  "process_actions L [] has_notify has_mention r = r"
| "process_actions L (action # actions) has_notify has_mention r =
     (let notify = \<not> has_notify \<and> should_notify L action;
          mention = \<not> has_mention \<and> is_highlight L action;
          r = (if notify then r\<lparr>num_notifications := num_notifications r + 1\<rparr> else r);
          r = (if mention then r\<lparr>num_mentions := num_mentions r + 1\<rparr> else r)
      in process_actions L actions (has_notify \<or> notify) (has_mention \<or> mention) r)"

definition process_event ::
  "('r, 'a) ruma_events \<Rightarrow> string \<Rightarrow> ('r, 'a) sync_timeline_event \<Rightarrow> room_read_receipts \<Rightarrow> room_read_receipts" where
  "process_event L user_id event r =
     process_actions L (push_actions event) False False
       (if marks_as_unread L (raw event) user_id then r\<lparr>num_unread := num_unread r + 1\<rparr> else r)"

definition reset_counts :: "room_read_receipts \<Rightarrow> room_read_receipts" where
  "reset_counts r = r\<lparr>num_unread := 0, num_notifications := 0, num_mentions := 0\<rparr>"

fun find_events_loop ::
  "('r, 'a) ruma_events \<Rightarrow> string \<Rightarrow> string \<Rightarrow> ('r, 'a) sync_timeline_event list \<Rightarrow> bool \<Rightarrow> room_read_receipts
   \<Rightarrow> bool \<times> room_read_receipts" where
  "find_events_loop L receipt_event_id user_id [] counting r = (counting, r)"
| "find_events_loop L receipt_event_id user_id (event # events) counting r =
     (if event_id L event = Some receipt_event_id
      then find_events_loop L receipt_event_id user_id events True (reset_counts r)
      else find_events_loop L receipt_event_id user_id events counting
             (if counting then process_event L user_id event r else r))"

definition find_and_process_events ::
  "('r, 'a) ruma_events \<Rightarrow> string \<Rightarrow> string \<Rightarrow> ('r, 'a) sync_timeline_event list \<Rightarrow> room_read_receipts
   \<Rightarrow> bool \<times> room_read_receipts" where
  "find_and_process_events L receipt_event_id user_id events r = find_events_loop L receipt_event_id user_id events False r"

section \<open>Selecting the receipt\<close>

record receipt_selector =
  event_id_to_pos :: "(string, nat) btree"
  latest_event_with_receipt :: "string option"
  latest_event_pos :: "nat option"

definition create_sync_index :: "('r, 'a) ruma_events \<Rightarrow> ('r, 'a) sync_timeline_event list \<Rightarrow> (string, nat) btree" where
  "create_sync_index L events =
     fold (\<lambda>(k, v). btree_insert k v)
       (List.map_filter (\<lambda>(pos, event). map_option (\<lambda>eid. (eid, pos)) (event_id L event)) (enumerate 0 events)) []"

definition selector_new ::
  "('r, 'a) ruma_events \<Rightarrow> ('r, 'a) sync_timeline_event list \<Rightarrow> string option \<Rightarrow> receipt_selector" where
  "selector_new L all_events latest_active_receipt_event =
     (let event_id_to_pos = create_sync_index L all_events;
          best_pos = Option.bind latest_active_receipt_event (map_of event_id_to_pos)
      in \<lparr>event_id_to_pos = event_id_to_pos, latest_event_with_receipt = None, latest_event_pos = best_pos\<rparr>)"

definition try_select_later :: "string \<Rightarrow> nat \<Rightarrow> receipt_selector \<Rightarrow> receipt_selector" where
  "try_select_later eid event_pos s =
     (case latest_event_pos s of
        Some best_pos \<Rightarrow>
          if best_pos \<le> event_pos
          then s\<lparr>latest_event_pos := Some event_pos, latest_event_with_receipt := Some eid\<rparr> else s
      | None \<Rightarrow> s\<lparr>latest_event_pos := Some event_pos, latest_event_with_receipt := Some eid\<rparr>)"

text \<open>The closure given to \<open>retain\<close> changes the selector: the loop runs over the elements and returns those kept.\<close>

fun retain_pending :: "string list \<Rightarrow> receipt_selector \<Rightarrow> string list \<times> receipt_selector" where
  "retain_pending [] s = ([], s)"
| "retain_pending (eid # ids) s =
     (case map_of (event_id_to_pos s) eid of
        Some event_pos \<Rightarrow> retain_pending ids (try_select_later eid event_pos s)
      | None \<Rightarrow> apfst (Cons eid) (retain_pending ids s))"

definition handle_pending_receipts ::
  "string ring_buffer \<Rightarrow> receipt_selector \<Rightarrow> string ring_buffer \<times> receipt_selector" where
  "handle_pending_receipts pend s = (let (kept, s) = retain_pending (inner pend) s in (pend\<lparr>inner := kept\<rparr>, s))"

datatype receipt_type = Read | ReadPrivate | OtherReceiptType string

datatype receipt_thread = Unthreaded | Main | Thread string

type_synonym receipts = "(receipt_type \<times> (string \<times> receipt_thread) list) list"
type_synonym receipt_event_content = "(string \<times> receipts) list"

text \<open>Whether a receipt of the user of a type is attached, in the main thread or in none.\<close>

definition has_receipt :: "string \<Rightarrow> receipts \<Rightarrow> receipt_type \<Rightarrow> bool" where
  "has_receipt user_id receipts ty =
     (case Option.bind (map_of receipts ty) (\<lambda>users. map_of users user_id) of
        None \<Rightarrow> False
      | Some thread \<Rightarrow> thread = Main \<or> thread = Unthreaded)"

definition handle_receipt_type ::
  "string \<Rightarrow> string \<Rightarrow> receipts \<Rightarrow> receipt_type \<Rightarrow> string list \<times> receipt_selector \<Rightarrow> string list \<times> receipt_selector" where
  "handle_receipt_type user_id eid receipts ty = (\<lambda>(pend, s).
     if has_receipt user_id receipts ty then
       (case map_of (event_id_to_pos s) eid of
          Some event_pos \<Rightarrow> (pend, try_select_later eid event_pos s)
        | None \<Rightarrow> (pend @ [eid], s))
     else (pend, s))"

definition handle_new_receipt ::
  "string \<Rightarrow> receipt_event_content \<Rightarrow> receipt_selector \<Rightarrow> string list \<times> receipt_selector" where
  "handle_new_receipt user_id receipt_event s =
     fold (\<lambda>(eid, receipts). fold (handle_receipt_type user_id eid receipts) [Read, ReadPrivate]) receipt_event ([], s)"

fun try_match_implicit ::
  "('r, 'a) ruma_events \<Rightarrow> string \<Rightarrow> ('r, 'a) sync_timeline_event list \<Rightarrow> receipt_selector \<Rightarrow> receipt_selector" where
  "try_match_implicit L user_id [] s = s"
| "try_match_implicit L user_id (ev # new_events) s =
     try_match_implicit L user_id new_events
       (if raw_sender L (raw ev) = Some user_id then
          (case event_id L ev of
             None \<Rightarrow> s
           | Some eid \<Rightarrow>
               (case map_of (event_id_to_pos s) eid of
                  None \<Rightarrow> s
                | Some event_pos \<Rightarrow> try_select_later eid event_pos s))
        else s)"

definition events_intersects ::
  "('r, 'a) ruma_events \<Rightarrow> ('r, 'a) sync_timeline_event list \<Rightarrow> ('r, 'a) sync_timeline_event list \<Rightarrow> bool" where
  "events_intersects L previous_events new_events =
     list_ex (\<lambda>ev. case event_id L ev of
                    None \<Rightarrow> False
                  | Some eid \<Rightarrow> eid \<in> set (List.map_filter (event_id L) previous_events)) new_events"

section \<open>The counts of a room\<close>

definition known_events ::
  "('r, 'a) ruma_events \<Rightarrow> ('r, 'a) sync_timeline_event list \<Rightarrow> ('r, 'a) sync_timeline_event list
   \<Rightarrow> ('r, 'a) sync_timeline_event list" where
  "known_events L previous_events new_events =
     (if events_intersects L previous_events new_events then new_events else previous_events @ new_events)"

definition select_receipt ::
  "('r, 'a) ruma_events \<Rightarrow> string \<Rightarrow> receipt_event_content option \<Rightarrow> ('r, 'a) sync_timeline_event list
   \<Rightarrow> ('r, 'a) sync_timeline_event list \<Rightarrow> room_read_receipts \<Rightarrow> string option \<times> room_read_receipts" where
  "select_receipt L user_id receipt_event all_events new_events r =
     (let s = selector_new L all_events (latest_active r);
          s = try_match_implicit L user_id new_events s;
          (pend, s) = handle_pending_receipts (pending r) s;
          (pend, s) = (case receipt_event of
                         None \<Rightarrow> (pend, s)
                       | Some content \<Rightarrow>
                           (let (new_pending, s) = handle_new_receipt user_id content s
                            in (if new_pending \<noteq> [] then ring_extend new_pending pend else pend, s)))
      in (latest_event_with_receipt s, r\<lparr>pending := pend\<rparr>))"

definition compute_unread_counts ::
  "('r, 'a) ruma_events \<Rightarrow> string \<Rightarrow> receipt_event_content option \<Rightarrow> ('r, 'a) sync_timeline_event list
   \<Rightarrow> ('r, 'a) sync_timeline_event list \<Rightarrow> room_read_receipts \<Rightarrow> room_read_receipts" where
  "compute_unread_counts L user_id receipt_event previous_events new_events r =
     (let all_events = known_events L previous_events new_events in
      case select_receipt L user_id receipt_event all_events new_events r of
        (Some eid, r) \<Rightarrow>
          snd (find_and_process_events L eid user_id all_events (r\<lparr>latest_active := Some eid\<rparr>))
      | (None, r) \<Rightarrow> fold (process_event L user_id) new_events r)"

end
