(* ===== verification/Unread_Counts.thy ===== *)
theory Unread_Counts
  imports Read_Receipts
begin

text \<open>
  What \<open>compute_unread_counts\<close> computes: the latest of all receipts whose events are known becomes the
  active one, and the counts are those of the events after it; over a sequence of syncs the counts are
  always those of the events after the active receipt.
\<close>

section \<open>Counts\<close>

text \<open>The counts of a list of events added to those of the room.\<close>

definition add_counts ::
  "('r, 'a) ruma_events \<Rightarrow> string \<Rightarrow> ('r, 'a) sync_timeline_event list \<Rightarrow> room_read_receipts \<Rightarrow> room_read_receipts" where
  "add_counts L user evs r =
     r\<lparr>num_unread := num_unread r + of_nat (length (filter (\<lambda>e. marks_as_unread L (raw e) user) evs)),
       num_notifications := num_notifications r + of_nat (length (filter (\<lambda>e. list_ex (should_notify L) (push_actions e)) evs)),
       num_mentions := num_mentions r + of_nat (length (filter (\<lambda>e. list_ex (is_highlight L) (push_actions e)) evs))\<rparr>"

lemma add_counts_Nil [simp]: "add_counts L user [] r = r"
  by (simp add: add_counts_def)

lemma process_actions_eq:
  "process_actions L acts has_notify has_mention r =
     r\<lparr>num_notifications := num_notifications r + (if \<not> has_notify \<and> list_ex (should_notify L) acts then 1 else 0),
       num_mentions := num_mentions r + (if \<not> has_mention \<and> list_ex (is_highlight L) acts then 1 else 0)\<rparr>"
  by (induction acts arbitrary: has_notify has_mention r) (simp_all add: Let_def)

lemma add_counts_Cons: "add_counts L user (e # evs) r = add_counts L user evs (process_event L user e r)"
  by (simp add: add_counts_def process_event_def process_actions_eq)

lemma fold_process_event: "fold (process_event L user) evs r = add_counts L user evs r"
  by (induction evs arbitrary: r) (simp_all add: add_counts_Cons)

lemma add_counts_append: "add_counts L user (xs @ ys) r = add_counts L user ys (add_counts L user xs r)"
  by (simp flip: fold_process_event)

lemma add_counts_sel [simp]:
  "latest_active (add_counts L user evs r) = latest_active r" "pending (add_counts L user evs r) = pending r"
  by (simp_all add: add_counts_def)

lemma reset_counts_idem [simp]: "reset_counts (reset_counts r) = reset_counts r"
  "reset_counts (process_event L user e r) = reset_counts r" "reset_counts (add_counts L user evs r) = reset_counts r"
  by (simp_all add: reset_counts_def process_event_def process_actions_eq add_counts_def)

section \<open>Positions\<close>

text \<open>The last position of an identifier in a list of events, some of which have none.\<close>

fun last_pos :: "string option list \<Rightarrow> string \<Rightarrow> nat option" where
  "last_pos [] x = None"
| "last_pos (i # ids) x =
     (case last_pos ids x of Some p \<Rightarrow> Some (Suc p) | None \<Rightarrow> if i = Some x then Some 0 else None)"

lemma last_pos_Some: "last_pos ids x = Some p \<Longrightarrow> p < length ids \<and> ids ! p = Some x"
  by (induction ids arbitrary: p) (auto split: option.splits if_splits)

lemma last_pos_None: "last_pos ids x = None \<longleftrightarrow> Some x \<notin> set ids"
  by (induction ids) (auto split: option.splits)

lemma last_pos_append:
  "last_pos (xs @ ys) x = (case last_pos ys x of Some p \<Rightarrow> Some (length xs + p) | None \<Rightarrow> last_pos xs x)"
  by (induction xs) (auto split: option.splits)

lemma last_pos_inj: "last_pos ids x = Some p \<Longrightarrow> last_pos ids y = Some p \<Longrightarrow> x = y"
  by (metis last_pos_Some option.inject)

lemma find_events_loop_eq:
  "find_events_loop L x user evs counting r =
     (case last_pos (map (event_id L) evs) x of
        Some p \<Rightarrow> (True, add_counts L user (drop (Suc p) evs) (reset_counts r))
      | None \<Rightarrow> (counting, if counting then add_counts L user evs r else r))"
proof (induction evs arbitrary: counting r)
  case (Cons e evs)
  show ?case
    by (cases "last_pos (map (event_id L) evs) x") (auto simp: Cons.IH add_counts_Cons)
qed simp

lemma create_sync_index:
  "btree_ok (create_sync_index L evs)"
  "map_of (create_sync_index L evs) = last_pos (map (event_id L) evs)"
proof -
  let ?ins = "\<lambda>n evs. fold (\<lambda>(k, v). btree_insert k v)
    (List.map_filter (\<lambda>(pos, e). map_option (\<lambda>eid. (eid, pos)) (event_id L e)) (enumerate n evs))"
  have ins: "btree_ok (?ins n evs t) \<and> map_of (?ins n evs t) x =
      (case last_pos (map (event_id L) evs) x of Some p \<Rightarrow> Some (n + p) | None \<Rightarrow> map_of t x)"
    if "btree_ok t" for n t x
    using that
  proof (induction evs arbitrary: n t)
    case (Cons e evs)
    show ?case
    proof (cases "event_id L e")
      case None
      with Cons.IH [of t "Suc n"] Cons.prems show ?thesis by (simp add: map_filter_simps split: option.splits)
    next
      case (Some i)
      with Cons.IH [of "btree_insert i n t" "Suc n"] Cons.prems show ?thesis
        by (simp add: map_filter_simps split: option.splits)
    qed
  qed (simp add: map_filter_simps)
  show "btree_ok (create_sync_index L evs)" using ins [of "[]" 0] by (simp add: create_sync_index_def)
  show "map_of (create_sync_index L evs) = last_pos (map (event_id L) evs)"
    using ins [of "[]" 0] by (auto simp: create_sync_index_def fun_eq_iff split: option.splits)
qed

section \<open>Selection\<close>

definition offer :: "string \<Rightarrow> receipt_selector \<Rightarrow> receipt_selector" where
  "offer i s = (case map_of (event_id_to_pos s) i of None \<Rightarrow> s | Some p \<Rightarrow> try_select_later i p s)"

lemma event_id_to_pos_offer [simp]:
  "event_id_to_pos (offer i s) = event_id_to_pos s" "event_id_to_pos (try_select_later i p s) = event_id_to_pos s"
  "event_id_to_pos (fold offer is s) = event_id_to_pos s"
proof -
  show later: "event_id_to_pos (try_select_later i p s) = event_id_to_pos s" for i p s
    by (simp add: try_select_later_def split: option.splits)
  show one: "event_id_to_pos (offer i s) = event_id_to_pos s" for i s
    by (simp add: offer_def later split: option.splits)
  show "event_id_to_pos (fold offer is s) = event_id_to_pos s"
    by (induction "is" arbitrary: s) (simp_all add: one)
qed

definition own_ids :: "('r, 'a) ruma_events \<Rightarrow> string \<Rightarrow> ('r, 'a) sync_timeline_event list \<Rightarrow> string list" where
  "own_ids L user evs = List.map_filter (event_id L) (filter (\<lambda>e. raw_sender L (raw e) = Some user) evs)"

definition receipt_ids :: "string \<Rightarrow> receipt_event_content \<Rightarrow> string list" where
  "receipt_ids user content =
     concat (map (\<lambda>(i, rs). map (\<lambda>_. i) (filter (has_receipt user rs) [Read, ReadPrivate])) content)"

lemma try_match_implicit_eq: "try_match_implicit L user evs s = fold offer (own_ids L user evs) s"
  by (induction evs arbitrary: s) (auto simp: own_ids_def map_filter_simps offer_def split: option.splits)

lemma retain_pending_eq:
  "retain_pending is s = (filter (\<lambda>i. map_of (event_id_to_pos s) i = None) is, fold offer is s)"
  by (induction "is" arbitrary: s) (auto simp: offer_def split: option.splits)

lemma handle_receipt_type_eq:
  "handle_receipt_type user i rs ty (pend, s) =
     (if has_receipt user rs ty
      then (pend @ filter (\<lambda>i. map_of (event_id_to_pos s) i = None) [i], offer i s) else (pend, s))"
  by (simp add: handle_receipt_type_def offer_def split: option.splits)

lemma handle_new_receipt_eq:
  "handle_new_receipt user content s =
     (filter (\<lambda>i. map_of (event_id_to_pos s) i = None) (receipt_ids user content), fold offer (receipt_ids user content) s)"
proof -
  have "fold (\<lambda>(i, rs). fold (handle_receipt_type user i rs) [Read, ReadPrivate]) content (pend, s) =
      (pend @ filter (\<lambda>i. map_of (event_id_to_pos s) i = None) (receipt_ids user content), fold offer (receipt_ids user content) s)"
    for pend
    by (induction content arbitrary: pend s) (auto simp: receipt_ids_def handle_receipt_type_eq)
  then show ?thesis by (simp add: handle_new_receipt_def)
qed

text \<open>
  After considering candidates: with no selection the position is the initial one and all known
  candidates are before it; a selected one is the latest of the known candidates.
\<close>

definition selection_ok :: "(string \<rightharpoonup> nat) \<Rightarrow> nat option \<Rightarrow> string set \<Rightarrow> receipt_selector \<Rightarrow> bool" where
  "selection_ok pos start cands s =
     (case latest_event_with_receipt s of
        None \<Rightarrow> latest_event_pos s = start \<and> (\<forall>c \<in> cands. \<forall>q. pos c = Some q \<longrightarrow> (\<exists>p. start = Some p \<and> q < p))
      | Some x \<Rightarrow> x \<in> cands \<and> latest_event_pos s = pos x \<and>
          (\<exists>p. pos x = Some p \<and> (\<forall>p0. start = Some p0 \<longrightarrow> p0 \<le> p) \<and> (\<forall>c \<in> cands. \<forall>q. pos c = Some q \<longrightarrow> q \<le> p)))"

lemma selection_offer:
  assumes "selection_ok (map_of (event_id_to_pos s)) start cands s"
  shows "selection_ok (map_of (event_id_to_pos s)) start (insert i cands) (offer i s)"
proof (cases "map_of (event_id_to_pos s) i")
  case None
  with assms show ?thesis by (auto simp: offer_def selection_ok_def split: option.splits)
next
  case (Some q)
  then have c: "offer i s = try_select_later i q s" by (simp add: offer_def)
  show ?thesis
  proof (cases "latest_event_with_receipt s")
    case None
    with assms Some c show ?thesis
      by (cases start) (auto simp: selection_ok_def try_select_later_def)
  next
    case (Some x)
    with assms obtain p where "map_of (event_id_to_pos s) x = Some p" "latest_event_pos s = Some p" "x \<in> cands"
      "\<forall>p0. start = Some p0 \<longrightarrow> p0 \<le> p" "\<forall>c \<in> cands. \<forall>q. map_of (event_id_to_pos s) c = Some q \<longrightarrow> q \<le> p"
      by (auto simp: selection_ok_def)
    with Some \<open>map_of (event_id_to_pos s) i = Some q\<close> c show ?thesis
      by (cases "p \<le> q") (auto simp: selection_ok_def try_select_later_def intro: order_trans)
  qed
qed

lemma selection_fold:
  assumes "selection_ok (map_of (event_id_to_pos s)) start cands s"
  shows "selection_ok (map_of (event_id_to_pos s)) start (set is \<union> cands) (fold offer is s)"
  using assms
proof (induction "is" arbitrary: s cands)
  case (Cons i "is")
  from Cons.IH [of "offer i s" "insert i cands"] selection_offer [OF Cons.prems, of i] show ?case by simp
qed simp

section \<open>One sync\<close>

definition zero_counts :: "string option \<Rightarrow> string ring_buffer \<Rightarrow> room_read_receipts" where
  "zero_counts active pend =
     \<lparr>num_unread = 0, num_notifications = 0, num_mentions = 0, latest_active = active, pending = pend\<rparr>"

lemma reset_counts_eq: "reset_counts r = zero_counts (latest_active r) (pending r)"
  by (cases r) (simp add: reset_counts_def zero_counts_def)

definition candidates ::
  "('r, 'a) ruma_events \<Rightarrow> string \<Rightarrow> receipt_event_content option \<Rightarrow> ('r, 'a) sync_timeline_event list
   \<Rightarrow> room_read_receipts \<Rightarrow> string list" where
  "candidates L user receipt new r =
     own_ids L user new @ inner (pending r) @ (case receipt of None \<Rightarrow> [] | Some c \<Rightarrow> receipt_ids user c)"

text \<open>The receipts that stay pending: those whose event is not known, in the ring buffer.\<close>

definition still_pending ::
  "(string \<rightharpoonup> nat) \<Rightarrow> string \<Rightarrow> receipt_event_content option \<Rightarrow> room_read_receipts \<Rightarrow> string ring_buffer" where
  "still_pending pos user receipt r =
     ring_extend (case receipt of None \<Rightarrow> [] | Some c \<Rightarrow> filter (\<lambda>i. pos i = None) (receipt_ids user c))
       (ring_retain (\<lambda>i. pos i = None) (pending r))"

lemma ring_extend_Nil [simp]: "ring_extend [] b = b"
  by (simp add: ring_extend_def)

lemma select_receipt_eq:
  assumes "pos = last_pos (map (event_id L) all)"
    and "select_receipt L user receipt all new r = (sel, r1)"
  shows "r1 = r\<lparr>pending := still_pending pos user receipt r\<rparr> \<and>
    (\<exists>s. latest_event_with_receipt s = sel \<and>
      selection_ok pos (Option.bind (latest_active r) pos) (set (candidates L user receipt new r)) s)"
proof -
  let ?s = "selector_new L all (latest_active r)"
  have pos: "map_of (event_id_to_pos ?s) = pos"
    by (simp add: selector_new_def Let_def create_sync_index(2) assms(1))
  have "selection_ok pos (Option.bind (latest_active r) pos) {} ?s"
    using pos by (simp add: selection_ok_def selector_new_def Let_def)
  then have ok: "selection_ok pos (Option.bind (latest_active r) pos) (set (candidates L user receipt new r))
      (fold offer (candidates L user receipt new r) ?s)"
    using selection_fold [of ?s "Option.bind (latest_active r) pos" "{}"] pos by simp
  have "sel = latest_event_with_receipt (fold offer (candidates L user receipt new r) ?s) \<and>
      r1 = r\<lparr>pending := still_pending pos user receipt r\<rparr>"
    using assms(2)
    by (cases receipt) (auto simp: select_receipt_def Let_def candidates_def still_pending_def ring_retain_def pos
        try_match_implicit_eq handle_pending_receipts_def retain_pending_eq handle_new_receipt_eq)
  with ok show ?thesis by blast
qed

lemma compute_unread_counts_cases:
  assumes "all_events = known_events L previous new" and "pos = last_pos (map (event_id L) all_events)"
    and "cands = set (candidates L user receipt new r)" and "start = Option.bind (latest_active r) pos"
    and "r' = compute_unread_counts L user receipt previous new r"
  shows "(\<exists>x \<in> cands. \<exists>p. pos x = Some p \<and> (\<forall>p0. start = Some p0 \<longrightarrow> p0 \<le> p) \<and>
      (\<forall>c \<in> cands. \<forall>q. pos c = Some q \<longrightarrow> q \<le> p) \<and>
      r' = add_counts L user (drop (Suc p) all_events) (zero_counts (Some x) (still_pending pos user receipt r))) \<or>
    (\<forall>c \<in> cands. \<forall>q. pos c = Some q \<longrightarrow> (\<exists>p0. start = Some p0 \<and> q < p0)) \<and>
      r' = add_counts L user new (r\<lparr>pending := still_pending pos user receipt r\<rparr>)"
proof -
  obtain sel r1 where sel: "select_receipt L user receipt all_events new r = (sel, r1)" by fastforce
  from select_receipt_eq [OF assms(2) sel] obtain s where
    r1: "r1 = r\<lparr>pending := still_pending pos user receipt r\<rparr>" and s: "latest_event_with_receipt s = sel"
      "selection_ok pos start cands s" unfolding assms(3,4) by blast
  show ?thesis
  proof (cases sel)
    case None
    with s sel show ?thesis
      by (auto simp: selection_ok_def assms(5) compute_unread_counts_def Let_def fold_process_event r1 simp flip: assms(1))
  next
    case (Some x)
    with s obtain p where p: "x \<in> cands" "pos x = Some p" "\<forall>p0. start = Some p0 \<longrightarrow> p0 \<le> p"
      "\<forall>c \<in> cands. \<forall>q. pos c = Some q \<longrightarrow> q \<le> p" by (auto simp: selection_ok_def)
    have "r' = snd (find_and_process_events L x user all_events (r1\<lparr>latest_active := Some x\<rparr>))"
      using Some sel by (simp add: assms(5) compute_unread_counts_def Let_def flip: assms(1))
    also have "\<dots> = add_counts L user (drop (Suc p) all_events) (reset_counts (r1\<lparr>latest_active := Some x\<rparr>))"
      using p(2) by (simp add: find_and_process_events_def find_events_loop_eq assms(2))
    finally have "r' = add_counts L user (drop (Suc p) all_events) (zero_counts (Some x) (still_pending pos user receipt r))"
      by (simp add: reset_counts_eq r1)
    with p show ?thesis by blast
  qed
qed

text \<open>C12. What \<open>compute_unread_counts\<close> computes. The candidates are the events the user sent, the
  pending receipts and the receipts of the sync in the main thread or in none; an event is known by its
  last position. Either the latest known candidate is not before the active receipt: then it
  becomes the active receipt, and the counts are those of the events after it. Or all known
  candidates are before the active receipt: then the active receipt stays and the new events are
  counted. Receipts for unknown events stay pending, the latest of them when there are too many.\<close>

theorem unread_counts_exact:
  assumes "all_events = known_events L previous new" and "pos = last_pos (map (event_id L) all_events)"
    and "cands = set (candidates L user receipt new r)" and "start = Option.bind (latest_active r) pos"
    and "r' = compute_unread_counts L user receipt previous new r"
  shows "(\<exists>x \<in> cands. \<exists>p. pos x = Some p \<and> (\<forall>p0. start = Some p0 \<longrightarrow> p0 \<le> p) \<and>
      (\<forall>c \<in> cands. \<forall>q. pos c = Some q \<longrightarrow> q \<le> p) \<and>
      r' = add_counts L user (drop (Suc p) all_events) (zero_counts (Some x) (still_pending pos user receipt r))) \<or>
    (\<forall>c \<in> cands. \<forall>q. pos c = Some q \<longrightarrow> (\<exists>p0. start = Some p0 \<and> q < p0)) \<and>
      r' = add_counts L user new (r\<lparr>pending := still_pending pos user receipt r\<rparr>)"
  using assms by (rule compute_unread_counts_cases)

text \<open>A library with events given by their identifier and sender, all of them messages; an action notifies or not.\<close>

definition example_events :: "(string \<times> string, bool) ruma_events" where
  "example_events =
     \<lparr>raw_event_id = (\<lambda>(i, _). Some i), raw_sender = (\<lambda>(_, s). Some s),
      deserialize = (\<lambda>(_, s). Some (MessageLike s (Some None) RoomMessage)), should_notify = (\<lambda>a. a), is_highlight = (\<lambda>_. False)\<rparr>"

definition example_event :: "string \<Rightarrow> string \<Rightarrow> (string \<times> string, bool) sync_timeline_event" where
  "example_event i s = \<lparr>raw = (i, s), push_actions = [True]\<rparr>"

lemma example_event_simps [simp]:
  "event_id example_events (example_event i s) = Some i"
  "raw_sender example_events (raw (example_event i s)) = Some s"
  "marks_as_unread example_events (raw (example_event i s)) u = (s \<noteq> u)"
  "push_actions (example_event i s) = [True]" "should_notify example_events = (\<lambda>a. a)" "is_highlight example_events = (\<lambda>_. False)"
  by (simp_all add: example_events_def example_event_def event_id_def marks_as_unread_def fun_eq_iff)

theorem unread_counts_exact_witness:
  "\<exists>x p. last_pos [Some ''1'', Some ''2'', Some ''3''] x = Some p \<and>
     compute_unread_counts example_events ''me'' None [example_event ''1'' ''you'']
       [example_event ''2'' ''me'', example_event ''3'' ''you''] room_read_receipts_default =
     add_counts example_events ''me''
       (drop (Suc p) [example_event ''1'' ''you'', example_event ''2'' ''me'', example_event ''3'' ''you''])
       (zero_counts (Some x) new_nonempty_ring_buffer)"
proof -
  let ?prev = "[example_event ''1'' ''you'']" and ?new = "[example_event ''2'' ''me'', example_event ''3'' ''you'']"
  let ?r = room_read_receipts_default and ?pos = "last_pos [Some ''1'', Some ''2'', Some ''3'']"
  have all: "?prev @ ?new = known_events example_events ?prev ?new"
    by (simp add: known_events_def events_intersects_def)
  have cands: "{''2''} = set (candidates example_events ''me'' None ?new ?r)"
    by (simp add: candidates_def own_ids_def room_read_receipts_default_def new_nonempty_ring_buffer_def ring_new_def)
  have pend: "still_pending ?pos ''me'' None ?r = new_nonempty_ring_buffer"
    by (simp add: still_pending_def room_read_receipts_default_def new_nonempty_ring_buffer_def ring_new_def ring_retain_def)
  have pos: "?pos = last_pos (map (event_id example_events) (?prev @ ?new))" by simp
  have start: "None = Option.bind (latest_active ?r) ?pos" by (simp add: room_read_receipts_default_def)
  have two: "?pos ''2'' = Some 1" by simp
  from unread_counts_exact [OF all pos cands start refl] show ?thesis
    unfolding pend append_Cons append_Nil using two by (metis option.distinct(1) singletonI)
qed

section \<open>Sequences of syncs\<close>

fun run_syncs ::
  "('r, 'a) ruma_events \<Rightarrow> string \<Rightarrow> (receipt_event_content option \<times> ('r, 'a) sync_timeline_event list) list
   \<Rightarrow> ('r, 'a) sync_timeline_event list \<Rightarrow> room_read_receipts \<Rightarrow> room_read_receipts" where
  "run_syncs L user [] history r = r"
| "run_syncs L user ((receipt, new) # syncs) history r =
     run_syncs L user syncs (history @ new) (compute_unread_counts L user receipt history new r)"

fun syncs_fresh ::
  "('r, 'a) ruma_events \<Rightarrow> (receipt_event_content option \<times> ('r, 'a) sync_timeline_event list) list
   \<Rightarrow> ('r, 'a) sync_timeline_event list \<Rightarrow> bool" where
  "syncs_fresh L [] history = True"
| "syncs_fresh L ((_, new) # syncs) history = (\<not> events_intersects L history new \<and> syncs_fresh L syncs (history @ new))"

text \<open>The counts are those of the events after the active receipt, which no event of the user follows.\<close>

definition counts_since_receipt ::
  "('r, 'a) ruma_events \<Rightarrow> string \<Rightarrow> ('r, 'a) sync_timeline_event list \<Rightarrow> room_read_receipts \<Rightarrow> bool" where
  "counts_since_receipt L user history r =
     (case latest_active r of
        None \<Rightarrow> own_ids L user history = [] \<and> r = add_counts L user history (zero_counts None (pending r))
      | Some x \<Rightarrow> (\<exists>p. last_pos (map (event_id L) history) x = Some p \<and>
          (\<forall>i \<in> set (own_ids L user history). \<forall>q. last_pos (map (event_id L) history) i = Some q \<longrightarrow> q \<le> p) \<and>
          r = add_counts L user (drop (Suc p) history) (zero_counts (Some x) (pending r))))"

lemma set_map_filter: "set (List.map_filter f xs) = {y. Some y \<in> set (map f xs)}"
  by (induction xs) (auto simp: map_filter_simps split: option.splits)

lemma not_intersects:
  assumes "\<not> events_intersects L history new" and "Some i \<in> set (map (event_id L) history)"
  shows "last_pos (map (event_id L) new) i = None"
proof -
  have "Some i \<notin> set (map (event_id L) new)"
  proof
    assume "Some i \<in> set (map (event_id L) new)"
    then obtain e where "e \<in> set new" "event_id L e = Some i" by auto
    with assms(1) have "i \<notin> set (List.map_filter (event_id L) history)"
      by (auto simp: events_intersects_def list_ex_iff)
    with assms(2) show False by (simp add: set_map_filter)
  qed
  then show ?thesis by (simp add: last_pos_None)
qed

lemma own_ids_append: "own_ids L user (xs @ ys) = own_ids L user xs @ own_ids L user ys"
  by (simp add: own_ids_def map_filter_def)

lemma own_ids_known: "i \<in> set (own_ids L user evs) \<Longrightarrow> Some i \<in> set (map (event_id L) evs)"
  by (auto simp: own_ids_def set_map_filter)

lemma last_pos_history:
  assumes "\<not> events_intersects L history new" and "last_pos (map (event_id L) history) i = Some p"
  shows "last_pos (map (event_id L) (history @ new)) i = Some p"
proof -
  have "Some i \<in> set (map (event_id L) history)" using assms(2) last_pos_None [of "map (event_id L) history" i] by (metis option.distinct(1))
  from not_intersects [OF assms(1) this] assms(2) show ?thesis by (simp add: last_pos_append)
qed

lemma accumulated_counts:
  assumes "r = add_counts L user evs (zero_counts active q)" and "r' = add_counts L user new (r\<lparr>pending := P\<rparr>)"
  shows "r' = add_counts L user (evs @ new) (zero_counts active (pending r'))" and "latest_active r' = active"
  unfolding assms add_counts_append by (simp_all add: add_counts_def zero_counts_def)

lemma sync_counts_since_receipt:
  assumes inv: "counts_since_receipt L user history r" and fresh: "\<not> events_intersects L history new"
    and r': "r' = compute_unread_counts L user receipt history new r"
  shows "counts_since_receipt L user (history @ new) r'"
proof -
  let ?all = "history @ new"
  define pos where "pos = last_pos (map (event_id L) ?all)"
  define cands where "cands = set (candidates L user receipt new r)"
  define start where "start = Option.bind (latest_active r) pos"
  have all: "known_events L history new = ?all" using fresh by (simp add: known_events_def)
  have own_new: "i \<in> cands" if "i \<in> set (own_ids L user new)" for i using that by (simp add: cands_def candidates_def)
  have own_old: "pos i = last_pos (map (event_id L) history) i" if "i \<in> set (own_ids L user history)" for i
    using not_intersects [OF fresh own_ids_known [OF that]] by (simp add: pos_def last_pos_append)
  have old: "\<exists>p. last_pos (map (event_id L) history) x = Some p \<and> start = Some p \<and>
      (\<forall>i \<in> set (own_ids L user history). \<forall>q. pos i = Some q \<longrightarrow> q \<le> p) \<and>
      r = add_counts L user (drop (Suc p) history) (zero_counts (Some x) (pending r))" if x: "latest_active r = Some x" for x
  proof -
    from inv x obtain p where p: "last_pos (map (event_id L) history) x = Some p"
      "\<forall>i \<in> set (own_ids L user history). \<forall>q. last_pos (map (event_id L) history) i = Some q \<longrightarrow> q \<le> p"
      "r = add_counts L user (drop (Suc p) history) (zero_counts (Some x) (pending r))"
      by (auto simp: counts_since_receipt_def)
    from last_pos_history [OF fresh p(1)] x have "start = Some p" by (simp add: start_def pos_def)
    with p own_old show ?thesis by auto
  qed
  from compute_unread_counts_cases [OF refl refl refl refl r', unfolded all, folded pos_def, folded cands_def start_def]
  consider (new) x p where "x \<in> cands" "pos x = Some p" "\<forall>p0. start = Some p0 \<longrightarrow> p0 \<le> p"
      "\<forall>c \<in> cands. \<forall>q. pos c = Some q \<longrightarrow> q \<le> p"
      "r' = add_counts L user (drop (Suc p) ?all) (zero_counts (Some x) (still_pending pos user receipt r))"
    | (same) "\<forall>c \<in> cands. \<forall>q. pos c = Some q \<longrightarrow> (\<exists>p0. start = Some p0 \<and> q < p0)"
      "r' = add_counts L user new (r\<lparr>pending := still_pending pos user receipt r\<rparr>)"
    by blast
  then show ?thesis
  proof cases
    case new
    have "q \<le> p" if "i \<in> set (own_ids L user ?all)" "pos i = Some q" for i q
    proof (cases "i \<in> set (own_ids L user new)")
      case False
      then have h: "i \<in> set (own_ids L user history)" using that(1) by (simp add: own_ids_append)
      show ?thesis
      proof (cases "latest_active r")
        case (Some y)
        from old [OF this] obtain p0 where "start = Some p0" "\<forall>i \<in> set (own_ids L user history). \<forall>q. pos i = Some q \<longrightarrow> q \<le> p0"
          by blast
        with h that(2) new(3) have "q \<le> p0" "p0 \<le> p" by blast+
        then show ?thesis by simp
      qed (use inv h in \<open>simp add: counts_since_receipt_def\<close>)
    qed (use own_new new(4) that in blast)
    with new(2,5) show ?thesis
      by (auto simp: counts_since_receipt_def pos_def zero_counts_def)
  next
    case same
    have known: "\<exists>q. pos i = Some q" if "i \<in> set (own_ids L user new)" for i
      using own_ids_known [OF that] last_pos_None [of "map (event_id L) new" i]
      by (cases "last_pos (map (event_id L) new) i") (auto simp: pos_def last_pos_append)
    show ?thesis
    proof (cases "latest_active r")
      case None
      have "set (own_ids L user new) = {}" using None same(1) known own_new by (force simp: start_def)
      moreover from None inv have "own_ids L user history = []" and r: "r = add_counts L user history (zero_counts None (pending r))"
        by (simp_all add: counts_since_receipt_def)
      ultimately show ?thesis using accumulated_counts [OF r same(2)] by (simp add: counts_since_receipt_def own_ids_append)
    next
      case (Some x)
      from old [OF this] obtain p where p: "last_pos (map (event_id L) history) x = Some p" "start = Some p"
        "\<forall>i \<in> set (own_ids L user history). \<forall>q. pos i = Some q \<longrightarrow> q \<le> p"
        "r = add_counts L user (drop (Suc p) history) (zero_counts (Some x) (pending r))" by blast
      have "q \<le> p" if "i \<in> set (own_ids L user ?all)" "pos i = Some q" for i q
        using that p(2,3) own_new same(1) by (fastforce simp: own_ids_append)
      moreover have "drop (Suc p) ?all = drop (Suc p) history @ new" using last_pos_Some [OF p(1)] by simp
      ultimately show ?thesis
        using accumulated_counts [OF p(4) same(2)] last_pos_history [OF fresh p(1)]
        by (simp add: counts_since_receipt_def pos_def)
    qed
  qed
qed

text \<open>C11. Let the syncs of a room bring events that are not repeated, each with the events before as the
  known ones. Then the counts are always those of the events after the active receipt, or of all events
  when there is none, whatever the receipts, in whatever order they and their events arrive; and no
  event that the user sent is after the active receipt.\<close>

theorem unread_counts_since_receipt:
  assumes "syncs_fresh L syncs []" and "r = run_syncs L user syncs [] room_read_receipts_default"
  shows "counts_since_receipt L user (concat (map snd syncs)) r"
proof -
  have "counts_since_receipt L user (history @ concat (map snd syncs)) (run_syncs L user syncs history r0)"
    if "counts_since_receipt L user history r0" and "syncs_fresh L syncs history" for history r0
    using that
  proof (induction syncs arbitrary: history r0)
    case (Cons s syncs)
    obtain receipt new where s: "s = (receipt, new)" by (cases s)
    have "counts_since_receipt L user (history @ new) (compute_unread_counts L user receipt history new r0)"
      using Cons.prems s by (intro sync_counts_since_receipt) auto
    from Cons.IH [OF this] Cons.prems(2) s show ?case by simp
  qed simp
  moreover have "counts_since_receipt L user [] room_read_receipts_default"
    by (simp add: counts_since_receipt_def room_read_receipts_default_def zero_counts_def own_ids_def map_filter_simps)
  ultimately show ?thesis using assms by fastforce
qed

definition example_syncs :: "(receipt_event_content option \<times> (string \<times> string, bool) sync_timeline_event list) list" where
  "example_syncs =
     [(Some [(''2'', [(Read, [(''me'', Main)])])], [example_event ''1'' ''you'']),
      (None, [example_event ''2'' ''you'', example_event ''3'' ''you''])]"

theorem unread_counts_since_receipt_witness:
  "counts_since_receipt example_events ''me'' [example_event ''1'' ''you'', example_event ''2'' ''you'', example_event ''3'' ''you'']
     (run_syncs example_events ''me'' example_syncs [] room_read_receipts_default)"
  using unread_counts_since_receipt [of example_events example_syncs _ "''me''"]
  by (simp add: example_syncs_def events_intersects_def map_filter_simps)

text \<open>
  A batch that repeats known events, with no new receipt: all its events are counted again, although
  the target of the active receipt is among them.
\<close>

lemma repeated_batch_counted_again:
  fixes r :: room_read_receipts
  assumes "r = zero_counts (Some ''1'') new_nonempty_ring_buffer"
    and "evs = [example_event ''1'' ''you'', example_event ''2'' ''you'']"
  shows "num_unread (compute_unread_counts example_events ''me'' None evs evs (r\<lparr>num_unread := 1\<rparr>)) = 3"
proof -
  have "select_receipt example_events ''me'' None evs evs (r\<lparr>num_unread := 1\<rparr>) =
      (None, r\<lparr>num_unread := 1\<rparr>)"
    by (simp add: assms select_receipt_def Let_def selector_new_def handle_pending_receipts_def zero_counts_def
        new_nonempty_ring_buffer_def ring_new_def)
  then show ?thesis
    by (simp add: compute_unread_counts_def known_events_def fold_process_event add_counts_def)
      (simp add: assms zero_counts_def events_intersects_def map_filter_simps fold_process_event [symmetric])
qed

text \<open>
  The information of a room is cloned before its counts are computed. A receipt that becomes pending
  then pushes out the oldest pending one, although there is room for ten.
\<close>

lemma cloned_pending_receipts_lost:
  assumes "inner (pending r) = x # xs" and "\<forall>i \<in> set (x # xs). pos i = None"
    and "receipt_ids user content = [b]" and "pos b = None"
  shows "inner (still_pending pos user (Some content) (r\<lparr>pending := ring_clone (pending r)\<rparr>)) = xs @ [b]"
  using assms by (simp add: still_pending_def ring_extend_def ring_push_def ring_len_def ring_retain_def ring_clone_def)

end
