(* ===== verification/Sas_Helpers.thy ===== *)
theory Sas_Helpers
  imports Ordered_Map
begin

text \<open>
  The computations of the emoji verification (\<open>verification/sas/helpers.rs\<close> and the MAC methods of
  \<open>sas_state.rs\<close> in the crypto crate): commitments, the short authentication string, and the MACs of the
  keys that are verified. The cryptographic library is a record of functions. An ephemeral public key
  is its bytes, a long-lived key its text in base64, and an emoji is given by its code points and its
  description.
\<close>

section \<open>Identities\<close>

datatype signing_key = Ed25519Key string | UnknownKey string

fun signing_key_base64 :: "signing_key \<Rightarrow> string" where
  "signing_key_base64 (Ed25519Key k) = k"
| "signing_key_base64 (UnknownKey k) = k"

record static_account_data =
  account_user_id :: string
  account_device_id :: string
  account_ed25519 :: string

datatype local_trust = TrustVerified | TrustBlackListed | TrustIgnored | TrustUnset

record device_data =
  device_user_id :: string
  device_device_id :: string
  device_keys :: "(string, string) btree"
  trust_state :: local_trust

datatype own_verified_state = NeverVerified | VerificationViolation | OwnVerified

datatype identity_kind = OwnIdentity own_verified_state | OtherIdentity

record user_identity =
  identity_user_id :: string
  master_keys :: "(string, signing_key) btree"
  identity_kind_of :: identity_kind

record own_user_identity =
  own_master_keys :: "(string, signing_key) btree"
  own_is_verified :: bool

fun get_first_key :: "(string, signing_key) btree \<Rightarrow> string option" where
  "get_first_key [] = None"
| "get_first_key ((_, Ed25519Key k) # ks) = Some k"
| "get_first_key ((_, UnknownKey _) # ks) = get_first_key ks"

record sas_ids =
  sas_account :: static_account_data
  sas_own_identity :: "own_user_identity option"
  other_device :: device_data
  other_identity :: "user_identity option"

datatype flow_id = ToDevice string | InRoom string string

fun flow_id_str :: "flow_id \<Rightarrow> string" where
  "flow_id_str (InRoom _ event_id) = event_id"
| "flow_id_str (ToDevice transaction_id) = transaction_id"

section \<open>Contents\<close>

datatype key_agreement_protocol = Curve25519HkdfSha256 | OtherKeyAgreement string
datatype hash_algorithm = Sha256 | OtherHash string
datatype short_authentication_string = Decimal | Emoji | OtherSas string

record sas_v1_content =
  key_agreement_protocols :: "key_agreement_protocol list"
  hashes :: "hash_algorithm list"
  message_authentication_codes :: "string list"
  short_authentication_strings :: "short_authentication_string list"

datatype start_method = StartSasV1 sas_v1_content | OtherStartMethod

record start_content =
  start_from_device :: string
  start_flow_id :: flow_id
  start_method_of :: start_method

record accept_v1_content =
  accept_commitment :: bytes
  accept_hash :: hash_algorithm
  accept_key_agreement :: key_agreement_protocol
  accept_mac :: string
  accept_sas :: "short_authentication_string list"

datatype accept_method = AcceptSasV1 accept_v1_content | OtherAcceptMethod

record mac_content =
  mac_flow_id :: flow_id
  macs :: "(string, bytes) btree"
  mac_of_keys :: bytes

datatype cancel_code =
    User | Timeout | UnknownTransaction | UnknownMethod | UnexpectedMessage | KeyMismatch | UserMismatch
  | InvalidMessage | AcceptedElsewhere | MismatchedCommitment | MismatchedSas | CustomCode string

section \<open>The library\<close>

text \<open>
  Ephemeral keys with their Diffie-Hellman exchange, which yields a shared secret; the MACs and bytes
  that are derived from it, the MAC in the invalid encoding of old versions after decoding; the hash,
  the encodings, and which texts are key identifiers.
\<close>

record ('sk, 'ss) sas_library =
  public_key :: "'sk \<Rightarrow> bytes"
  valid_public_key :: "bytes \<Rightarrow> bool"
  diffie_hellman :: "'sk \<Rightarrow> bytes \<Rightarrow> 'ss option"
  derive_mac :: "'ss \<Rightarrow> string \<Rightarrow> string \<Rightarrow> bytes"
  derive_mac_invalid_base64 :: "'ss \<Rightarrow> string \<Rightarrow> string \<Rightarrow> bytes"
  check_mac :: "'ss \<Rightarrow> string \<Rightarrow> string \<Rightarrow> bytes \<Rightarrow> bool"
  emoji_indices :: "'ss \<Rightarrow> string \<Rightarrow> nat list"
  decimals :: "'ss \<Rightarrow> string \<Rightarrow> nat \<times> nat \<times> nat"
  sha256 :: "string \<Rightarrow> bytes"
  key_to_base64 :: "bytes \<Rightarrow> string"
  canonical_json :: "start_content \<Rightarrow> string"
  valid_key_id :: "string \<Rightarrow> bool"

record 'ss established_sas =
  shared_secret :: 'ss
  our_key :: bytes
  their_key :: bytes

section \<open>Commitments and short authentication strings\<close>

definition calculate_commitment :: "('sk, 'ss) sas_library \<Rightarrow> bytes \<Rightarrow> start_content \<Rightarrow> bytes" where
  "calculate_commitment L pk content = sha256 L (key_to_base64 L pk @ canonical_json L content)"

type_synonym emoji = "nat list \<times> string"

definition EMOJIS :: "emoji list" where
  "EMOJIS =
     [([128054], ''Dog''), ([128049], ''Cat''), ([129409], ''Lion''),
      ([128014], ''Horse''), ([129412], ''Unicorn''), ([128055], ''Pig''),
      ([128024], ''Elephant''), ([128048], ''Rabbit''), ([128060], ''Panda''),
      ([128019], ''Rooster''), ([128039], ''Penguin''), ([128034], ''Turtle''),
      ([128031], ''Fish''), ([128025], ''Octopus''), ([129419], ''Butterfly''),
      ([127799], ''Flower''), ([127795], ''Tree''), ([127797], ''Cactus''),
      ([127812], ''Mushroom''), ([127759], ''Globe''), ([127769], ''Moon''),
      ([9729, 65039], ''Cloud''), ([128293], ''Fire''), ([127820], ''Banana''),
      ([127822], ''Apple''), ([127827], ''Strawberry''), ([127805], ''Corn''),
      ([127829], ''Pizza''), ([127874], ''Cake''), ([10084, 65039], ''Heart''),
      ([128512], ''Smiley''), ([129302], ''Robot''), ([127913], ''Hat''),
      ([128083], ''Glasses''), ([128295], ''Spanner''), ([127877], ''Santa''),
      ([128077], ''Thumbs Up''), ([9730, 65039], ''Umbrella''), ([8987], ''Hourglass''),
      ([9200], ''Clock''), ([127873], ''Gift''), ([128161], ''Light Bulb''),
      ([128213], ''Book''), ([9999, 65039], ''Pencil''), ([128206], ''Paperclip''),
      ([9986, 65039], ''Scissors''), ([128274], ''Lock''), ([128273], ''Key''),
      ([128296], ''Hammer''), ([9742, 65039], ''Telephone''), ([127937], ''Flag''),
      ([128642], ''Train''), ([128690], ''Bicycle''), ([9992, 65039], ''Aeroplane''),
      ([128640], ''Rocket''), ([127942], ''Trophy''), ([9917], ''Ball''),
      ([127928], ''Guitar''), ([127930], ''Trumpet''), ([128276], ''Bell''),
      ([9875], ''Anchor''), ([127911], ''Headphones''), ([128193], ''Folder''),
      ([128204], ''Pin'')]"

definition emoji_from_index :: "nat \<Rightarrow> emoji run" where
  "emoji_from_index index = (if index < 64 then Done (EMOJIS ! index) else Panic)"

definition extra_info_sas :: "('sk, 'ss) sas_library \<Rightarrow> sas_ids \<Rightarrow> bytes \<Rightarrow> bytes \<Rightarrow> string \<Rightarrow> bool \<Rightarrow> string" where
  "extra_info_sas L ids own_pubkey their_pubkey flow we_started =
     (let our_info = account_user_id (sas_account ids) @ ''|'' @ account_device_id (sas_account ids) @ ''|'' @ key_to_base64 L own_pubkey;
          their_info = device_user_id (other_device ids) @ ''|'' @ device_device_id (other_device ids) @ ''|'' @ key_to_base64 L their_pubkey;
          (first_info, second_info) = (if we_started then (our_info, their_info) else (their_info, our_info))
      in ''MATRIX_KEY_VERIFICATION_SAS|'' @ first_info @ ''|'' @ second_info @ ''|'' @ flow)"

fun emojis_of :: "nat list \<Rightarrow> emoji list run" where
  "emojis_of [] = Done []"
| "emojis_of (i # is) = run_bind (emoji_from_index i) (\<lambda>e. run_bind (emojis_of is) (\<lambda>es. Done (e # es)))"

definition get_emoji_index :: "('sk, 'ss) sas_library \<Rightarrow> 'ss established_sas \<Rightarrow> sas_ids \<Rightarrow> string \<Rightarrow> bool \<Rightarrow> nat list" where
  "get_emoji_index L sas ids flow we_started =
     emoji_indices L (shared_secret sas) (extra_info_sas L ids (our_key sas) (their_key sas) flow we_started)"

definition get_emoji :: "('sk, 'ss) sas_library \<Rightarrow> 'ss established_sas \<Rightarrow> sas_ids \<Rightarrow> string \<Rightarrow> bool \<Rightarrow> emoji list run" where
  "get_emoji L sas ids flow we_started =
     emojis_of (emoji_indices L (shared_secret sas) (extra_info_sas L ids (our_key sas) (their_key sas) flow we_started))"

definition get_decimal :: "('sk, 'ss) sas_library \<Rightarrow> 'ss established_sas \<Rightarrow> sas_ids \<Rightarrow> string \<Rightarrow> bool \<Rightarrow> nat \<times> nat \<times> nat" where
  "get_decimal L sas ids flow we_started =
     decimals L (shared_secret sas) (extra_info_sas L ids (our_key sas) (their_key sas) flow we_started)"

section \<open>MACs\<close>

datatype supported_mac_method = HkdfHmacSha256 | HkdfHmacSha256V2 | Msc3783HkdfHmacSha256V2

fun mac_method_str :: "supported_mac_method \<Rightarrow> string" where
  "mac_method_str HkdfHmacSha256 = ''hkdf-hmac-sha256''"
| "mac_method_str HkdfHmacSha256V2 = ''hkdf-hmac-sha256.v2''"
| "mac_method_str Msc3783HkdfHmacSha256V2 = ''org.matrix.msc3783.hkdf-hmac-sha256''"

definition mac_method_try_from :: "string \<Rightarrow> supported_mac_method option" where
  "mac_method_try_from s =
     (if s = ''hkdf-hmac-sha256'' then Some HkdfHmacSha256
      else if s = ''org.matrix.msc3783.hkdf-hmac-sha256'' then Some Msc3783HkdfHmacSha256V2
      else if s = ''hkdf-hmac-sha256.v2'' then Some HkdfHmacSha256V2
      else None)"

fun verify_mac ::
  "('sk, 'ss) sas_library \<Rightarrow> supported_mac_method \<Rightarrow> 'ss established_sas \<Rightarrow> string \<Rightarrow> string \<Rightarrow> bytes \<Rightarrow> cancel_code + unit" where
  "verify_mac L HkdfHmacSha256 sas input info mac =
     (if derive_mac_invalid_base64 L (shared_secret sas) input info \<noteq> mac then Inl KeyMismatch else Inr ())"
| "verify_mac L _ sas input info mac =
     (if check_mac L (shared_secret sas) input info mac then Inr () else Inl MismatchedSas)"

fun calculate_mac ::
  "('sk, 'ss) sas_library \<Rightarrow> supported_mac_method \<Rightarrow> 'ss established_sas \<Rightarrow> string \<Rightarrow> string \<Rightarrow> bytes" where
  "calculate_mac L HkdfHmacSha256 sas input info = derive_mac_invalid_base64 L (shared_secret sas) input info"
| "calculate_mac L _ sas input info = derive_mac L (shared_secret sas) input info"

definition extra_mac_info_receive :: "sas_ids \<Rightarrow> string \<Rightarrow> string" where
  "extra_mac_info_receive ids flow =
     ''MATRIX_KEY_VERIFICATION_MAC'' @ device_user_id (other_device ids) @ device_device_id (other_device ids) @
     account_user_id (sas_account ids) @ account_device_id (sas_account ids) @ flow"

definition extra_mac_info_send :: "sas_ids \<Rightarrow> string \<Rightarrow> string" where
  "extra_mac_info_send ids flow =
     ''MATRIX_KEY_VERIFICATION_MAC'' @ account_user_id (sas_account ids) @ account_device_id (sas_account ids) @
     device_user_id (other_device ids) @ device_device_id (other_device ids) @ flow"

fun join_comma :: "string list \<Rightarrow> string" where
  "join_comma [] = []"
| "join_comma [k] = k"
| "join_comma (k # ks) = k @ '','' @ join_comma ks"

fun receive_macs ::
  "('sk, 'ss) sas_library \<Rightarrow> 'ss established_sas \<Rightarrow> sas_ids \<Rightarrow> string \<Rightarrow> supported_mac_method \<Rightarrow> (string, bytes) btree
   \<Rightarrow> device_data list \<Rightarrow> user_identity list \<Rightarrow> cancel_code + device_data list \<times> user_identity list" where
  "receive_macs L sas ids info m [] devices identities = Inr (devices, identities)"
| "receive_macs L sas ids info m ((key_id, key_mac) # rest) devices identities =
     (if \<not> valid_key_id L key_id then receive_macs L sas ids info m rest devices identities
      else case map_of (device_keys (other_device ids)) key_id of
        Some key \<Rightarrow>
          (case verify_mac L m sas key (info @ key_id) key_mac of
             Inl c \<Rightarrow> Inl c
           | Inr _ \<Rightarrow> receive_macs L sas ids info m rest (devices @ [other_device ids]) identities)
      | None \<Rightarrow>
          (case other_identity ids of
             Some identity \<Rightarrow>
               (case map_of (master_keys identity) key_id of
                  Some key \<Rightarrow>
                    (case verify_mac L m sas (signing_key_base64 key) (info @ key_id) key_mac of
                       Inl c \<Rightarrow> Inl c
                     | Inr _ \<Rightarrow> receive_macs L sas ids info m rest devices (identities @ [identity]))
                | None \<Rightarrow> receive_macs L sas ids info m rest devices identities)
           | None \<Rightarrow> receive_macs L sas ids info m rest devices identities))"

definition receive_mac_event ::
  "('sk, 'ss) sas_library \<Rightarrow> 'ss established_sas \<Rightarrow> sas_ids \<Rightarrow> string \<Rightarrow> supported_mac_method \<Rightarrow> mac_content
   \<Rightarrow> cancel_code + device_data list \<times> user_identity list" where
  "receive_mac_event L sas ids flow m content =
     (let info = extra_mac_info_receive ids flow;
          keys = sort (map fst (macs content))
      in case verify_mac L m sas (join_comma keys) (info @ ''KEY_IDS'') (mac_of_keys content) of
           Inl c \<Rightarrow> Inl c
         | Inr _ \<Rightarrow> receive_macs L sas ids info m (macs content) [] [])"

definition get_mac_content ::
  "('sk, 'ss) sas_library \<Rightarrow> 'ss established_sas \<Rightarrow> sas_ids \<Rightarrow> flow_id \<Rightarrow> supported_mac_method \<Rightarrow> mac_content" where
  "get_mac_content L sas ids flow m =
     (let key_id = ''ed25519:'' @ account_device_id (sas_account ids);
          key = account_ed25519 (sas_account ids);
          info = extra_mac_info_send ids (flow_id_str flow);
          mac = btree_insert key_id (calculate_mac L m sas key (info @ key_id)) [];
          mac = (case sas_own_identity ids of
                   None \<Rightarrow> mac
                 | Some own \<Rightarrow>
                     if own_is_verified own then
                       (case get_first_key (own_master_keys own) of
                          None \<Rightarrow> mac
                        | Some key \<Rightarrow>
                            (let key_id = ''ed25519:'' @ key
                             in btree_insert key_id (calculate_mac L m sas key (info @ key_id)) mac))
                     else mac);
          keys = sort (map fst mac)
      in \<lparr>mac_flow_id = flow, macs = mac, mac_of_keys = calculate_mac L m sas (join_comma keys) (info @ ''KEY_IDS'')\<rparr>)"

end
