(* ===== verification/Sas_State.thy ===== *)
theory Sas_State
  imports Sas_Helpers
begin

text \<open>
  The state machine of the emoji verification (\<open>verification/sas/sas_state.rs\<close> and \<open>inner_sas.rs\<close>). The
  typed states and the enumeration over them are one record with a phase. The secret key is in an
  option from which the key exchange takes it. A new secret, a new transaction identifier and the
  current time in seconds are arguments.
\<close>

section \<open>Protocols\<close>

definition KEY_AGREEMENT_PROTOCOLS :: "key_agreement_protocol list" where
  "KEY_AGREEMENT_PROTOCOLS = [Curve25519HkdfSha256]"

definition HASHES :: "hash_algorithm list" where
  "HASHES = [Sha256]"

definition STRINGS :: "short_authentication_string list" where
  "STRINGS = [Decimal, Emoji]"

definition the_protocol_definitions :: "short_authentication_string list option \<Rightarrow> sas_v1_content" where
  "the_protocol_definitions short_auth_strings =
     \<lparr>key_agreement_protocols = KEY_AGREEMENT_PROTOCOLS, hashes = HASHES,
      message_authentication_codes = [''hkdf-hmac-sha256'', ''hkdf-hmac-sha256.v2'', ''org.matrix.msc3783.hkdf-hmac-sha256''],
      short_authentication_strings = (case short_auth_strings of None \<Rightarrow> STRINGS | Some strings \<Rightarrow> strings)\<rparr>"

definition MAX_AGE :: nat where
  "MAX_AGE = 60 * 5"

definition MAX_EVENT_TIMEOUT :: nat where
  "MAX_EVENT_TIMEOUT = 60"

record accepted_protocols =
  key_agreement :: key_agreement_protocol
  accepted_hash :: hash_algorithm
  message_auth_code :: supported_mac_method
  short_auth_string :: "short_authentication_string list"

definition protocols_from_accept :: "accept_v1_content \<Rightarrow> cancel_code + accepted_protocols" where
  "protocols_from_accept c =
     (if accept_key_agreement c \<notin> set KEY_AGREEMENT_PROTOCOLS \<or> accept_hash c \<notin> set HASHES \<or>
         Emoji \<notin> set (accept_sas c) \<and> Decimal \<notin> set (accept_sas c)
      then Inl UnknownMethod
      else case mac_method_try_from (accept_mac c) of
             None \<Rightarrow> Inl UnknownMethod
           | Some m \<Rightarrow> Inr \<lparr>key_agreement = accept_key_agreement c, accepted_hash = accept_hash c,
                             message_auth_code = m, short_auth_string = accept_sas c\<rparr>)"

definition choose_mac_method :: "supported_mac_method list \<Rightarrow> supported_mac_method option" where
  "choose_mac_method ms =
     (if HkdfHmacSha256V2 \<in> set ms then Some HkdfHmacSha256V2
      else if Msc3783HkdfHmacSha256V2 \<in> set ms then Some Msc3783HkdfHmacSha256V2
      else case ms of [] \<Rightarrow> None | m # _ \<Rightarrow> Some m)"

definition protocols_from_start :: "sas_v1_content \<Rightarrow> cancel_code + accepted_protocols" where
  "protocols_from_start c =
     (if Curve25519HkdfSha256 \<notin> set (key_agreement_protocols c) \<or> Sha256 \<notin> set (hashes c) \<or>
         Decimal \<notin> set (short_authentication_strings c) \<and> Emoji \<notin> set (short_authentication_strings c)
      then Inl UnknownMethod
      else case choose_mac_method (List.map_filter mac_method_try_from (message_authentication_codes c)) of
             None \<Rightarrow> Inl UnknownMethod
           | Some m \<Rightarrow>
               Inr \<lparr>key_agreement = Curve25519HkdfSha256, accepted_hash = Sha256, message_auth_code = m,
                    short_auth_string =
                      (if Decimal \<in> set (short_authentication_strings c) then [Decimal] else []) @
                      (if Emoji \<in> set (short_authentication_strings c) then [Emoji] else [])\<rparr>)"

section \<open>States\<close>

datatype 'ss sas_phase =
    Created sas_v1_content
  | Started bytes sas_v1_content accepted_protocols
  | Accepted accepted_protocols start_content string bytes
  | WeAccepted bool accepted_protocols bytes
  | KeyReceived "'ss established_sas" bool string accepted_protocols
  | KeySent bool start_content bytes accepted_protocols
  | KeysExchanged "'ss established_sas" bool accepted_protocols
  | Confirmed "'ss established_sas" accepted_protocols
  | MacReceived "'ss established_sas" bool "device_data list" "user_identity list" accepted_protocols
  | WaitingForDone "'ss established_sas" "device_data list" "user_identity list" accepted_protocols
  | SasDone "'ss established_sas" "device_data list" "user_identity list" accepted_protocols
  | Cancelled bool cancel_code

record ('sk, 'ss) sas_state =
  inner_sas :: "'sk option"
  our_public_key :: bytes
  ids :: sas_ids
  creation_time :: nat
  last_event_time :: nat
  verification_flow_id :: flow_id
  started_from_request :: bool
  phase :: "'ss sas_phase"

datatype verification_content =
    StartContent start_content
  | AcceptContent flow_id accept_method
  | KeyContent flow_id bytes
  | MacContent mac_content
  | DoneContent flow_id
  | CancelContent flow_id string cancel_code
  | RequestContent
  | ReadyContent

text \<open>An outgoing message comes with the identifier of its request when its sending is to be reported.\<close>

type_synonym request_info = "flow_id \<times> string"
type_synonym reply = "(verification_content \<times> request_info option) option"

definition cancel_state :: "bool \<Rightarrow> cancel_code \<Rightarrow> ('sk, 'ss) sas_state \<Rightarrow> ('sk, 'ss) sas_state" where
  "cancel_state by_us code s = s\<lparr>phase := Cancelled by_us code\<rparr>"

definition cancel_reason :: "cancel_code \<Rightarrow> string" where
  "cancel_reason code =
     (case code of
        AcceptedElsewhere \<Rightarrow> ''A m.key.verification.request was accepted by a different device.''
      | InvalidMessage \<Rightarrow> ''The received message was invalid.''
      | KeyMismatch \<Rightarrow> ''The expected key did not match the verified one''
      | MismatchedCommitment \<Rightarrow> ''The hash commitment did not match.''
      | MismatchedSas \<Rightarrow> ''The SAS did not match.''
      | Timeout \<Rightarrow> ''The verification process timed out.''
      | UnexpectedMessage \<Rightarrow> ''The device received an unexpected message.''
      | UnknownMethod \<Rightarrow> ''The device does not know how to handle the requested method.''
      | UnknownTransaction \<Rightarrow> ''The device does not know about the given transaction ID.''
      | User \<Rightarrow> ''The user cancelled the verification.''
      | UserMismatch \<Rightarrow> ''The expected user did not match the verified user''
      | CustomCode _ \<Rightarrow> ''Unknown cancel reason'')"

definition cancelled_content :: "flow_id \<Rightarrow> cancel_code \<Rightarrow> verification_content" where
  "cancelled_content flow code = CancelContent flow (cancel_reason code) code"

definition sas_timed_out :: "nat \<Rightarrow> ('sk, 'ss) sas_state \<Rightarrow> bool" where
  "sas_timed_out now s \<longleftrightarrow> MAX_AGE < now - creation_time s \<or> MAX_EVENT_TIMEOUT < now - last_event_time s"

definition check_event :: "nat \<Rightarrow> string \<Rightarrow> flow_id \<Rightarrow> ('sk, 'ss) sas_state \<Rightarrow> cancel_code option" where
  "check_event now sender flow s =
     (if flow_id_str flow \<noteq> flow_id_str (verification_flow_id s) then Some UnknownTransaction
      else if sender \<noteq> device_user_id (other_device (ids s)) then Some UserMismatch
      else if sas_timed_out now s then Some Timeout
      else None)"

section \<open>Transitions\<close>

definition sas_created ::
  "('sk, 'ss) sas_library \<Rightarrow> 'sk \<Rightarrow> nat \<Rightarrow> sas_ids \<Rightarrow> flow_id \<Rightarrow> bool \<Rightarrow> short_authentication_string list option
   \<Rightarrow> ('sk, 'ss) sas_state" where
  "sas_created L sk now the_ids flow from_request short_auth_strings =
     \<lparr>inner_sas = Some sk, our_public_key = public_key L sk, ids = the_ids, creation_time = now, last_event_time = now,
      verification_flow_id = flow, started_from_request = from_request,
      phase = Created (the_protocol_definitions short_auth_strings)\<rparr>"

definition start_content_of :: "('sk, 'ss) sas_state \<Rightarrow> sas_v1_content \<Rightarrow> start_content" where
  "start_content_of s protocols =
     \<lparr>start_from_device = account_device_id (sas_account (ids s)), start_flow_id = verification_flow_id s,
      start_method_of = StartSasV1 protocols\<rparr>"

definition into_accepted ::
  "nat \<Rightarrow> string \<Rightarrow> string \<Rightarrow> flow_id \<Rightarrow> accept_method \<Rightarrow> sas_v1_content \<Rightarrow> ('sk, 'ss) sas_state \<Rightarrow> ('sk, 'ss) sas_state" where
  "into_accepted now txn sender flow m protocols s =
     (case check_event now sender flow s of
        Some c \<Rightarrow> cancel_state True c s
      | None \<Rightarrow>
          (case m of
             OtherAcceptMethod \<Rightarrow> cancel_state True UnknownMethod s
           | AcceptSasV1 content \<Rightarrow>
               (case protocols_from_accept content of
                  Inl c \<Rightarrow> cancel_state True c s
                | Inr accepted \<Rightarrow>
                    s\<lparr>last_event_time := now,
                      phase := Accepted accepted (start_content_of s protocols) txn (accept_commitment content)\<rparr>)))"

definition sas_from_start_event ::
  "('sk, 'ss) sas_library \<Rightarrow> 'sk \<Rightarrow> nat \<Rightarrow> sas_ids \<Rightarrow> flow_id \<Rightarrow> start_content \<Rightarrow> bool
   \<Rightarrow> ('sk, 'ss) sas_state + ('sk, 'ss) sas_state" where
  "sas_from_start_event L sk now the_ids flow content from_request =
     (let s = \<lparr>inner_sas = Some sk, our_public_key = public_key L sk, ids = the_ids, creation_time = now, last_event_time = now,
               verification_flow_id = flow, started_from_request = from_request, phase = Cancelled True UnknownMethod\<rparr>
      in case start_method_of content of
           OtherStartMethod \<Rightarrow> Inl (s\<lparr>inner_sas := None\<rparr>)
         | StartSasV1 protocols \<Rightarrow>
             (let commitment = calculate_commitment L (public_key L sk) content in
              case protocols_from_start protocols of
                Inl _ \<Rightarrow> Inl (s\<lparr>inner_sas := None\<rparr>)
              | Inr accepted \<Rightarrow> Inr (s\<lparr>phase := Started commitment protocols accepted\<rparr>)))"

definition into_we_accepted ::
  "bytes \<Rightarrow> accepted_protocols \<Rightarrow> short_authentication_string list \<Rightarrow> ('sk, 'ss) sas_state \<Rightarrow> ('sk, 'ss) sas_state" where
  "into_we_accepted commitment accepted methods s =
     (let methods = (if Decimal \<in> set methods then methods else methods @ [Decimal])
      in s\<lparr>phase := WeAccepted False (accepted\<lparr>short_auth_string := methods\<rparr>) commitment\<rparr>)"

definition accept_content :: "flow_id \<Rightarrow> accepted_protocols \<Rightarrow> bytes \<Rightarrow> verification_content" where
  "accept_content flow accepted commitment =
     AcceptContent flow (AcceptSasV1 \<lparr>accept_commitment = commitment, accept_hash = accepted_hash accepted,
       accept_key_agreement = key_agreement accepted, accept_mac = mac_method_str (message_auth_code accepted),
       accept_sas = short_auth_string accepted\<rparr>)"

text \<open>The result of handling a key, and the state after the secret has been taken.\<close>

definition handle_key_content ::
  "('sk, 'ss) sas_library \<Rightarrow> nat \<Rightarrow> string \<Rightarrow> flow_id \<Rightarrow> bytes \<Rightarrow> ('sk, 'ss) sas_state
   \<Rightarrow> (cancel_code + 'ss established_sas) \<times> ('sk, 'ss) sas_state" where
  "handle_key_content L now sender flow pk s =
     (case check_event now sender flow s of
        Some c \<Rightarrow> (Inl c, s)
      | None \<Rightarrow>
          if \<not> valid_public_key L pk then (Inl (CustomCode ''Invalid public key''), s)
          else case inner_sas s of
                 None \<Rightarrow> (Inl UnexpectedMessage, s)
               | Some sk \<Rightarrow>
                   (case diffie_hellman L sk pk of
                      None \<Rightarrow> Inl (CustomCode ''Invalid public key'')
                    | Some secret \<Rightarrow> Inr \<lparr>shared_secret = secret, our_key = public_key L sk, their_key = pk\<rparr>,
                    s\<lparr>inner_sas := None\<rparr>))"

definition we_accepted_into_key_received ::
  "('sk, 'ss) sas_library \<Rightarrow> nat \<Rightarrow> string \<Rightarrow> string \<Rightarrow> flow_id \<Rightarrow> bytes \<Rightarrow> bool \<Rightarrow> accepted_protocols \<Rightarrow> ('sk, 'ss) sas_state
   \<Rightarrow> ('sk, 'ss) sas_state" where
  "we_accepted_into_key_received L now txn sender flow pk we_started accepted s =
     (case handle_key_content L now sender flow pk s of
        (Inl c, s) \<Rightarrow> cancel_state True c s
      | (Inr sas, s) \<Rightarrow> s\<lparr>last_event_time := now, phase := KeyReceived sas we_started txn accepted\<rparr>)"

definition accepted_into_key_received ::
  "('sk, 'ss) sas_library \<Rightarrow> nat \<Rightarrow> string \<Rightarrow> flow_id \<Rightarrow> bytes \<Rightarrow> accepted_protocols \<Rightarrow> start_content \<Rightarrow> string \<Rightarrow> bytes
   \<Rightarrow> ('sk, 'ss) sas_state \<Rightarrow> ('sk, 'ss) sas_state" where
  "accepted_into_key_received L now sender flow pk accepted start request_id commitment s =
     (case handle_key_content L now sender flow pk s of
        (Inl c, s) \<Rightarrow> cancel_state True c s
      | (Inr sas, s) \<Rightarrow>
          if commitment = calculate_commitment L (their_key sas) start
          then s\<lparr>last_event_time := now, phase := KeyReceived sas True request_id accepted\<rparr>
          else cancel_state True KeyMismatch s)"

definition key_sent_into_keys_exchanged ::
  "('sk, 'ss) sas_library \<Rightarrow> nat \<Rightarrow> string \<Rightarrow> flow_id \<Rightarrow> bytes \<Rightarrow> bool \<Rightarrow> start_content \<Rightarrow> bytes \<Rightarrow> accepted_protocols
   \<Rightarrow> ('sk, 'ss) sas_state \<Rightarrow> ('sk, 'ss) sas_state" where
  "key_sent_into_keys_exchanged L now sender flow pk we_started start commitment accepted s =
     (case handle_key_content L now sender flow pk s of
        (Inl c, s) \<Rightarrow> cancel_state True c s
      | (Inr sas, s) \<Rightarrow>
          if commitment = calculate_commitment L (their_key sas) start
          then s\<lparr>last_event_time := now, phase := KeysExchanged sas we_started accepted\<rparr>
          else cancel_state True KeyMismatch s)"

text \<open>Checking a MAC event: the common part of the three transitions that receive one.\<close>

definition check_macs ::
  "('sk, 'ss) sas_library \<Rightarrow> nat \<Rightarrow> string \<Rightarrow> 'ss established_sas \<Rightarrow> accepted_protocols \<Rightarrow> mac_content \<Rightarrow> ('sk, 'ss) sas_state
   \<Rightarrow> cancel_code + device_data list \<times> user_identity list" where
  "check_macs L now sender sas accepted content s =
     (case check_event now sender (mac_flow_id content) s of
        Some c \<Rightarrow> Inl c
      | None \<Rightarrow> receive_mac_event L sas (ids s) (flow_id_str (verification_flow_id s)) (message_auth_code accepted) content)"

definition into_mac_received ::
  "('sk, 'ss) sas_library \<Rightarrow> nat \<Rightarrow> string \<Rightarrow> 'ss established_sas \<Rightarrow> bool \<Rightarrow> accepted_protocols \<Rightarrow> mac_content \<Rightarrow> ('sk, 'ss) sas_state
   \<Rightarrow> ('sk, 'ss) sas_state" where
  "into_mac_received L now sender sas we_started accepted content s =
     (case check_macs L now sender sas accepted content s of
        Inl c \<Rightarrow> cancel_state True c s
      | Inr (devices, identities) \<Rightarrow>
          s\<lparr>last_event_time := now, phase := MacReceived sas we_started devices identities accepted\<rparr>)"

definition confirmed_into_done ::
  "('sk, 'ss) sas_library \<Rightarrow> nat \<Rightarrow> string \<Rightarrow> 'ss established_sas \<Rightarrow> accepted_protocols \<Rightarrow> mac_content \<Rightarrow> ('sk, 'ss) sas_state
   \<Rightarrow> ('sk, 'ss) sas_state" where
  "confirmed_into_done L now sender sas accepted content s =
     (case check_macs L now sender sas accepted content s of
        Inl c \<Rightarrow> cancel_state True c s
      | Inr (devices, identities) \<Rightarrow> s\<lparr>last_event_time := now, phase := SasDone sas devices identities accepted\<rparr>)"

definition into_waiting_for_done ::
  "('sk, 'ss) sas_library \<Rightarrow> nat \<Rightarrow> string \<Rightarrow> 'ss established_sas \<Rightarrow> accepted_protocols \<Rightarrow> mac_content \<Rightarrow> ('sk, 'ss) sas_state
   \<Rightarrow> ('sk, 'ss) sas_state" where
  "into_waiting_for_done L now sender sas accepted content s =
     (case check_macs L now sender sas accepted content s of
        Inl c \<Rightarrow> cancel_state True c s
      | Inr (devices, identities) \<Rightarrow> s\<lparr>last_event_time := now, phase := WaitingForDone sas devices identities accepted\<rparr>)"

definition waiting_into_done ::
  "nat \<Rightarrow> string \<Rightarrow> flow_id \<Rightarrow> 'ss established_sas \<Rightarrow> device_data list \<Rightarrow> user_identity list \<Rightarrow> accepted_protocols
   \<Rightarrow> ('sk, 'ss) sas_state \<Rightarrow> ('sk, 'ss) sas_state" where
  "waiting_into_done now sender flow sas devices identities accepted s =
     (case check_event now sender flow s of
        Some c \<Rightarrow> cancel_state True c s
      | None \<Rightarrow> s\<lparr>last_event_time := now, phase := SasDone sas devices identities accepted\<rparr>)"

section \<open>Operations\<close>

definition sas_start ::
  "('sk, 'ss) sas_library \<Rightarrow> 'sk \<Rightarrow> nat \<Rightarrow> sas_ids \<Rightarrow> flow_id \<Rightarrow> bool \<Rightarrow> short_authentication_string list option
   \<Rightarrow> ('sk, 'ss) sas_state \<times> verification_content" where
  "sas_start L sk now the_ids flow from_request short_auth_strings =
     (let s = sas_created L sk now the_ids flow from_request short_auth_strings
      in (s, StartContent (start_content_of s (the_protocol_definitions short_auth_strings))))"

definition sas_accept ::
  "short_authentication_string list \<Rightarrow> ('sk, 'ss) sas_state \<Rightarrow> (('sk, 'ss) sas_state \<times> verification_content) option" where
  "sas_accept methods s =
     (case phase s of
        Started commitment _ accepted \<Rightarrow>
          (let s = into_we_accepted commitment accepted methods s in
           case phase s of
             WeAccepted _ accepted commitment \<Rightarrow> Some (s, accept_content (verification_flow_id s) accepted commitment)
           | _ \<Rightarrow> None)
      | _ \<Rightarrow> None)"

definition sas_cancel ::
  "bool \<Rightarrow> cancel_code \<Rightarrow> ('sk, 'ss) sas_state \<Rightarrow> ('sk, 'ss) sas_state \<times> verification_content option" where
  "sas_cancel by_us code s =
     (case phase s of
        SasDone _ _ _ _ \<Rightarrow> (s, None)
      | Cancelled _ _ \<Rightarrow> (s, None)
      | _ \<Rightarrow> (cancel_state by_us code s, Some (cancelled_content (verification_flow_id s) code)))"

definition mac_reply :: "('sk, 'ss) sas_library \<Rightarrow> 'ss established_sas \<Rightarrow> accepted_protocols \<Rightarrow> ('sk, 'ss) sas_state \<Rightarrow> verification_content" where
  "mac_reply L sas accepted s =
     MacContent (get_mac_content L sas (ids s) (verification_flow_id s) (message_auth_code accepted))"

definition sas_confirm ::
  "('sk, 'ss) sas_library \<Rightarrow> ('sk, 'ss) sas_state \<Rightarrow> ('sk, 'ss) sas_state \<times> verification_content list" where
  "sas_confirm L s =
     (case phase s of
        KeysExchanged sas _ accepted \<Rightarrow> (s\<lparr>phase := Confirmed sas accepted\<rparr>, [mac_reply L sas accepted s])
      | MacReceived sas _ devices identities accepted \<Rightarrow>
          if started_from_request s
          then (s\<lparr>phase := WaitingForDone sas devices identities accepted\<rparr>,
                [mac_reply L sas accepted s, DoneContent (verification_flow_id s)])
          else (s\<lparr>phase := SasDone sas devices identities accepted\<rparr>, [mac_reply L sas accepted s])
      | _ \<Rightarrow> (s, []))"

definition key_reply :: "('sk, 'ss) sas_state \<Rightarrow> string \<Rightarrow> reply" where
  "key_reply s request_id =
     Some (KeyContent (verification_flow_id s) (our_public_key s), Some (verification_flow_id s, request_id))"

text \<open>A state that was cancelled is reported to the other side; otherwise the given reply is sent.\<close>

definition or_cancelled :: "('sk, 'ss) sas_state \<Rightarrow> reply \<Rightarrow> ('sk, 'ss) sas_state \<times> reply" where
  "or_cancelled s r =
     (s, case phase s of Cancelled _ code \<Rightarrow> Some (cancelled_content (verification_flow_id s) code, None) | _ \<Rightarrow> r)"

definition receive_any_event ::
  "('sk, 'ss) sas_library \<Rightarrow> nat \<Rightarrow> string \<Rightarrow> string \<Rightarrow> verification_content \<Rightarrow> ('sk, 'ss) sas_state
   \<Rightarrow> ('sk, 'ss) sas_state \<times> reply" where
  "receive_any_event L now txn sender content s =
     (case content of
        AcceptContent flow m \<Rightarrow>
          (case phase s of
             Created protocols \<Rightarrow> or_cancelled (into_accepted now txn sender flow m protocols s) (key_reply s txn)
           | Started _ protocols _ \<Rightarrow> or_cancelled (into_accepted now txn sender flow m protocols s) (key_reply s txn)
           | _ \<Rightarrow> (s, None))
      | CancelContent _ _ code \<Rightarrow> (fst (sas_cancel False code s), None)
      | KeyContent flow pk \<Rightarrow>
          (case phase s of
             Accepted accepted start request_id commitment \<Rightarrow>
               or_cancelled (accepted_into_key_received L now sender flow pk accepted start request_id commitment s) None
           | KeySent we_started start commitment accepted \<Rightarrow>
               or_cancelled (key_sent_into_keys_exchanged L now sender flow pk we_started start commitment accepted s) None
           | WeAccepted we_started accepted _ \<Rightarrow>
               or_cancelled (we_accepted_into_key_received L now txn sender flow pk we_started accepted s) (key_reply s txn)
           | _ \<Rightarrow> (s, None))
      | MacContent m \<Rightarrow>
          (case phase s of
             KeysExchanged sas we_started accepted \<Rightarrow>
               or_cancelled (into_mac_received L now sender sas we_started accepted m s) None
           | Confirmed sas accepted \<Rightarrow>
               if started_from_request s
               then or_cancelled (into_waiting_for_done L now sender sas accepted m s)
                      (Some (DoneContent (verification_flow_id s), None))
               else or_cancelled (confirmed_into_done L now sender sas accepted m s) None
           | _ \<Rightarrow> (s, None))
      | DoneContent flow \<Rightarrow>
          (case phase s of
             WaitingForDone sas devices identities accepted \<Rightarrow>
               or_cancelled (waiting_into_done now sender flow sas devices identities accepted s) None
           | _ \<Rightarrow> (s, None))
      | _ \<Rightarrow> (s, None))"

definition mark_request_as_sent :: "nat \<Rightarrow> string \<Rightarrow> ('sk, 'ss) sas_state \<Rightarrow> ('sk, 'ss) sas_state option" where
  "mark_request_as_sent now request_id s =
     (case phase s of
        Accepted accepted start rid commitment \<Rightarrow>
          if rid = request_id then Some (s\<lparr>last_event_time := now, phase := KeySent True start commitment accepted\<rparr>) else None
      | KeyReceived sas we_started rid accepted \<Rightarrow>
          if rid = request_id then Some (s\<lparr>last_event_time := now, phase := KeysExchanged sas we_started accepted\<rparr>) else None
      | _ \<Rightarrow> Some s)"

section \<open>Queries\<close>

definition has_been_accepted :: "('sk, 'ss) sas_state \<Rightarrow> bool" where
  "has_been_accepted s =
     (case phase s of Created _ \<Rightarrow> False | Started _ _ _ \<Rightarrow> False | Cancelled _ _ \<Rightarrow> False | _ \<Rightarrow> True)"

definition supports_emoji :: "('sk, 'ss) sas_state \<Rightarrow> bool" where
  "supports_emoji s =
     (case phase s of
        Started _ _ a \<Rightarrow> Emoji \<in> set (short_auth_string a)
      | WeAccepted _ a _ \<Rightarrow> Emoji \<in> set (short_auth_string a)
      | Accepted a _ _ _ \<Rightarrow> Emoji \<in> set (short_auth_string a)
      | KeyReceived _ _ _ a \<Rightarrow> Emoji \<in> set (short_auth_string a)
      | KeySent _ _ _ a \<Rightarrow> Emoji \<in> set (short_auth_string a)
      | KeysExchanged _ _ a \<Rightarrow> Emoji \<in> set (short_auth_string a)
      | MacReceived _ _ _ _ a \<Rightarrow> Emoji \<in> set (short_auth_string a)
      | _ \<Rightarrow> False)"

definition can_be_presented :: "('sk, 'ss) sas_state \<Rightarrow> bool" where
  "can_be_presented s = (case phase s of KeysExchanged _ _ _ \<Rightarrow> True | MacReceived _ _ _ _ _ \<Rightarrow> True | _ \<Rightarrow> False)"

definition have_we_confirmed :: "('sk, 'ss) sas_state \<Rightarrow> bool" where
  "have_we_confirmed s =
     (case phase s of Confirmed _ _ \<Rightarrow> True | WaitingForDone _ _ _ _ \<Rightarrow> True | SasDone _ _ _ _ \<Rightarrow> True | _ \<Rightarrow> False)"

definition sas_emoji_index :: "('sk, 'ss) sas_library \<Rightarrow> ('sk, 'ss) sas_state \<Rightarrow> nat list option" where
  "sas_emoji_index L s =
     (case phase s of
        KeysExchanged sas we _ \<Rightarrow> Some (get_emoji_index L sas (ids s) (flow_id_str (verification_flow_id s)) we)
      | MacReceived sas we _ _ _ \<Rightarrow> Some (get_emoji_index L sas (ids s) (flow_id_str (verification_flow_id s)) we)
      | _ \<Rightarrow> None)"

definition sas_emoji :: "('sk, 'ss) sas_library \<Rightarrow> ('sk, 'ss) sas_state \<Rightarrow> emoji list run option" where
  "sas_emoji L s =
     (case phase s of
        KeysExchanged sas we _ \<Rightarrow> Some (get_emoji L sas (ids s) (flow_id_str (verification_flow_id s)) we)
      | MacReceived sas we _ _ _ \<Rightarrow> Some (get_emoji L sas (ids s) (flow_id_str (verification_flow_id s)) we)
      | _ \<Rightarrow> None)"

definition sas_decimals :: "('sk, 'ss) sas_library \<Rightarrow> ('sk, 'ss) sas_state \<Rightarrow> (nat \<times> nat \<times> nat) option" where
  "sas_decimals L s =
     (case phase s of
        KeysExchanged sas we _ \<Rightarrow> Some (get_decimal L sas (ids s) (flow_id_str (verification_flow_id s)) we)
      | MacReceived sas we _ _ _ \<Rightarrow> Some (get_decimal L sas (ids s) (flow_id_str (verification_flow_id s)) we)
      | _ \<Rightarrow> None)"

definition verified_devices :: "('sk, 'ss) sas_state \<Rightarrow> device_data list option" where
  "verified_devices s = (case phase s of SasDone _ devices _ _ \<Rightarrow> Some devices | _ \<Rightarrow> None)"

definition verified_identities :: "('sk, 'ss) sas_state \<Rightarrow> user_identity list option" where
  "verified_identities s = (case phase s of SasDone _ _ identities _ \<Rightarrow> Some identities | _ \<Rightarrow> None)"

section \<open>The verification object\<close>

text \<open>What \<open>Sas\<close> in \<open>verification/sas/mod.rs\<close> adds around the state, and what it shows to the user.\<close>

datatype sas_view =
    ViewCreated sas_v1_content
  | ViewStarted sas_v1_content
  | ViewAccepted accepted_protocols
  | ViewKeysExchanged "(nat list \<times> emoji list run) option" "nat \<times> nat \<times> nat"
  | ViewConfirmed
  | ViewDone "device_data list" "user_identity list"
  | ViewCancelled bool cancel_code string

definition presented ::
  "('sk, 'ss) sas_library \<Rightarrow> ('sk, 'ss) sas_state \<Rightarrow> 'ss established_sas \<Rightarrow> bool \<Rightarrow> sas_view" where
  "presented L s sas we =
     ViewKeysExchanged
       (if supports_emoji s
        then Some (get_emoji_index L sas (ids s) (flow_id_str (verification_flow_id s)) we,
                   get_emoji L sas (ids s) (flow_id_str (verification_flow_id s)) we)
        else None)
       (get_decimal L sas (ids s) (flow_id_str (verification_flow_id s)) we)"

definition view_of :: "('sk, 'ss) sas_library \<Rightarrow> ('sk, 'ss) sas_state \<Rightarrow> sas_view" where
  "view_of L s =
     (case phase s of
        Created protocols \<Rightarrow> ViewCreated protocols
      | Started _ protocols _ \<Rightarrow> ViewStarted protocols
      | Accepted a _ _ _ \<Rightarrow> ViewAccepted a
      | WeAccepted _ a _ \<Rightarrow> ViewAccepted a
      | KeySent _ _ _ a \<Rightarrow> ViewAccepted a
      | KeyReceived _ _ _ a \<Rightarrow> ViewAccepted a
      | KeysExchanged sas we _ \<Rightarrow> presented L s sas we
      | MacReceived sas we _ _ _ \<Rightarrow> presented L s sas we
      | Confirmed _ _ \<Rightarrow> ViewConfirmed
      | WaitingForDone _ _ _ _ \<Rightarrow> ViewConfirmed
      | SasDone _ devices identities _ \<Rightarrow> ViewDone devices identities
      | Cancelled by_us code \<Rightarrow> ViewCancelled by_us code (cancel_reason code))"

definition sas_accept_all :: "('sk, 'ss) sas_state \<Rightarrow> (('sk, 'ss) sas_state \<times> verification_content) option" where
  "sas_accept_all s =
     (case phase s of
        Started _ protocols _ \<Rightarrow> sas_accept (short_authentication_strings protocols) s
      | _ \<Rightarrow> None)"

definition sas_accept_with_settings ::
  "short_authentication_string list \<Rightarrow> ('sk, 'ss) sas_state \<Rightarrow> ('sk, 'ss) sas_state \<times> verification_content option" where
  "sas_accept_with_settings methods s =
     (case sas_accept methods s of Some (s', content) \<Rightarrow> (s', Some content) | None \<Rightarrow> (s, None))"

definition sas_cancel_if_timed_out ::
  "nat \<Rightarrow> ('sk, 'ss) sas_state \<Rightarrow> ('sk, 'ss) sas_state \<times> verification_content option" where
  "sas_cancel_if_timed_out now s =
     (case phase s of
        Cancelled _ _ \<Rightarrow> (s, None)
      | SasDone _ _ _ _ \<Rightarrow> (s, None)
      | _ \<Rightarrow> if sas_timed_out now s then sas_cancel True Timeout s else (s, None))"

definition sas_mark_request_as_sent :: "nat \<Rightarrow> string \<Rightarrow> ('sk, 'ss) sas_state \<Rightarrow> ('sk, 'ss) sas_state" where
  "sas_mark_request_as_sent now request_id s =
     (case mark_request_as_sent now request_id s of Some s' \<Rightarrow> s' | None \<Rightarrow> s)"

text \<open>Everything that can happen to a verification: calls by the user, events, and reports of sent requests.\<close>

datatype sas_input =
    AcceptWith "short_authentication_string list"
  | Confirm
  | CancelWith cancel_code
  | CheckTimeout nat
  | Receive nat string string verification_content
  | RequestSent nat string

fun sas_step :: "('sk, 'ss) sas_library \<Rightarrow> sas_input \<Rightarrow> ('sk, 'ss) sas_state \<Rightarrow> ('sk, 'ss) sas_state" where
  "sas_step L (AcceptWith methods) s = fst (sas_accept_with_settings methods s)"
| "sas_step L Confirm s = fst (sas_confirm L s)"
| "sas_step L (CancelWith code) s = fst (sas_cancel True code s)"
| "sas_step L (CheckTimeout now) s = fst (sas_cancel_if_timed_out now s)"
| "sas_step L (Receive now txn sender content) s = fst (receive_any_event L now txn sender content s)"
| "sas_step L (RequestSent now request_id) s = sas_mark_request_as_sent now request_id s"

definition sas_run :: "('sk, 'ss) sas_library \<Rightarrow> sas_input list \<Rightarrow> ('sk, 'ss) sas_state \<Rightarrow> ('sk, 'ss) sas_state" where
  "sas_run L ins s = fold (sas_step L) ins s"

end
