(* ===== verification/Sas_Safety.thy ===== *)
theory Sas_Safety
  imports Sas_State
begin

text \<open>
  What a completed emoji verification guarantees. An invariant over all sequences of inputs ties each
  phase to what has been received and confirmed so far; at the end, the devices that count as verified
  have authenticated their keys under a secret whose string the user has confirmed.
\<close>

section \<open>Evidence in a history\<close>

definition other_user :: "('sk, 'ss) sas_state \<Rightarrow> string" where
  "other_user s = device_user_id (other_device (ids s))"

definition this_flow :: "('sk, 'ss) sas_state \<Rightarrow> flow_id \<Rightarrow> bool" where
  "this_flow s flow \<longleftrightarrow> flow_id_str flow = flow_id_str (verification_flow_id s)"

text \<open>The other side has sent an acceptance with the given commitment.\<close>

definition commitment_received :: "('sk, 'ss) sas_state \<Rightarrow> sas_input list \<Rightarrow> bytes \<Rightarrow> bool" where
  "commitment_received s0 ins commitment \<longleftrightarrow>
     (\<exists>now txn flow c. Receive now txn (other_user s0) (AcceptContent flow (AcceptSasV1 c)) \<in> set ins \<and>
        this_flow s0 flow \<and> accept_commitment c = commitment)"

definition proposed :: "('sk, 'ss) sas_state \<Rightarrow> sas_v1_content \<Rightarrow> bool" where
  "proposed s0 protocols \<longleftrightarrow>
     (case phase s0 of Created p \<Rightarrow> p = protocols | Started _ p _ \<Rightarrow> p = protocols | _ \<Rightarrow> False)"

text \<open>
  The other side was bound to a key before it could see ours, or we were the ones to be bound: the user
  accepted a verification that the other side started.
\<close>

definition key_bound :: "('sk, 'ss) sas_library \<Rightarrow> ('sk, 'ss) sas_state \<Rightarrow> sas_input list \<Rightarrow> bytes \<Rightarrow> bool" where
  "key_bound L s0 ins pk \<longleftrightarrow>
     (\<exists>protocols. proposed s0 protocols \<and>
        commitment_received s0 ins (calculate_commitment L pk (start_content_of s0 protocols))) \<or>
     (\<exists>commitment protocols accepted methods.
        phase s0 = Started commitment protocols accepted \<and> AcceptWith methods \<in> set ins)"

definition key_agreed ::
  "('sk, 'ss) sas_library \<Rightarrow> ('sk, 'ss) sas_state \<Rightarrow> sas_input list \<Rightarrow> 'ss established_sas \<Rightarrow> bool" where
  "key_agreed L s0 ins sas \<longleftrightarrow>
     (\<exists>before now txn flow after sk.
        ins = before @ Receive now txn (other_user s0) (KeyContent flow (their_key sas)) # after \<and> this_flow s0 flow \<and>
        key_bound L s0 before (their_key sas) \<and> inner_sas s0 = Some sk \<and> our_key sas = public_key L sk \<and>
        diffie_hellman L sk (their_key sas) = Some (shared_secret sas))"

definition presenting :: "('sk, 'ss) sas_state \<Rightarrow> 'ss established_sas \<Rightarrow> bool" where
  "presenting s sas \<longleftrightarrow>
     (case phase s of KeysExchanged sas' _ _ \<Rightarrow> sas' = sas | MacReceived sas' _ _ _ _ \<Rightarrow> sas' = sas | _ \<Rightarrow> False)"

definition user_confirmed ::
  "('sk, 'ss) sas_library \<Rightarrow> ('sk, 'ss) sas_state \<Rightarrow> sas_input list \<Rightarrow> 'ss established_sas \<Rightarrow> bool" where
  "user_confirmed L s0 ins sas \<longleftrightarrow>
     (\<exists>before after. ins = before @ Confirm # after \<and> presenting (sas_run L before s0) sas)"

definition macs_checked ::
  "('sk, 'ss) sas_library \<Rightarrow> ('sk, 'ss) sas_state \<Rightarrow> sas_input list \<Rightarrow> 'ss established_sas \<Rightarrow> accepted_protocols
   \<Rightarrow> device_data list \<Rightarrow> user_identity list \<Rightarrow> bool" where
  "macs_checked L s0 ins sas accepted devices identities \<longleftrightarrow>
     (\<exists>now txn content. Receive now txn (other_user s0) (MacContent content) \<in> set ins \<and> this_flow s0 (mac_flow_id content) \<and>
        receive_mac_event L sas (ids s0) (flow_id_str (verification_flow_id s0)) (message_auth_code accepted) content =
          Inr (devices, identities))"

lemma commitment_received_snoc [intro]:
  "commitment_received s0 ins c \<Longrightarrow> commitment_received s0 (ins @ [i]) c"
  by (auto simp: commitment_received_def)

lemma key_agreed_snoc [intro]: "key_agreed L s0 ins sas \<Longrightarrow> key_agreed L s0 (ins @ [i]) sas"
  unfolding key_agreed_def by fastforce

lemma user_confirmed_snoc [intro]: "user_confirmed L s0 ins sas \<Longrightarrow> user_confirmed L s0 (ins @ [i]) sas"
  unfolding user_confirmed_def by fastforce

lemma macs_checked_snoc [intro]: "macs_checked L s0 ins sas a d t \<Longrightarrow> macs_checked L s0 (ins @ [i]) sas a d t"
  by (auto simp: macs_checked_def)

section \<open>The invariant\<close>

text \<open>What never changes.\<close>

definition same_parties :: "('sk, 'ss) sas_state \<Rightarrow> ('sk, 'ss) sas_state \<Rightarrow> bool" where
  "same_parties s0 s \<longleftrightarrow>
     ids s = ids s0 \<and> verification_flow_id s = verification_flow_id s0 \<and> our_public_key s = our_public_key s0 \<and>
     started_from_request s = started_from_request s0"

definition phase_justified ::
  "('sk, 'ss) sas_library \<Rightarrow> ('sk, 'ss) sas_state \<Rightarrow> sas_input list \<Rightarrow> ('sk, 'ss) sas_state \<Rightarrow> bool" where
  "phase_justified L s0 ins s \<longleftrightarrow>
     (case phase s of
        Created p \<Rightarrow> inner_sas s = inner_sas s0 \<and> phase s0 = Created p
      | Started c p a \<Rightarrow> inner_sas s = inner_sas s0 \<and> phase s0 = Started c p a
      | Accepted _ start _ commitment \<Rightarrow>
          inner_sas s = inner_sas s0 \<and> commitment_received s0 ins commitment \<and> (\<exists>p. proposed s0 p \<and> start = start_content_of s0 p)
      | WeAccepted _ _ _ \<Rightarrow>
          inner_sas s = inner_sas s0 \<and> (\<exists>c p a methods. phase s0 = Started c p a \<and> AcceptWith methods \<in> set ins)
      | KeySent _ start commitment _ \<Rightarrow>
          inner_sas s = inner_sas s0 \<and> commitment_received s0 ins commitment \<and> (\<exists>p. proposed s0 p \<and> start = start_content_of s0 p)
      | KeyReceived sas _ _ _ \<Rightarrow> key_agreed L s0 ins sas
      | KeysExchanged sas _ _ \<Rightarrow> key_agreed L s0 ins sas
      | Confirmed sas _ \<Rightarrow> key_agreed L s0 ins sas \<and> user_confirmed L s0 ins sas
      | MacReceived sas _ devices identities accepted \<Rightarrow>
          key_agreed L s0 ins sas \<and> macs_checked L s0 ins sas accepted devices identities
      | WaitingForDone sas devices identities accepted \<Rightarrow>
          key_agreed L s0 ins sas \<and> user_confirmed L s0 ins sas \<and> macs_checked L s0 ins sas accepted devices identities
      | SasDone sas devices identities accepted \<Rightarrow>
          key_agreed L s0 ins sas \<and> user_confirmed L s0 ins sas \<and> macs_checked L s0 ins sas accepted devices identities
      | Cancelled _ _ \<Rightarrow> True)"

lemma phase_justified_snoc:
  "phase_justified L s0 ins s \<Longrightarrow> phase_justified L s0 (ins @ [i]) s"
  by (cases "phase s") (auto simp: phase_justified_def)

lemma phase_justified_cancel [simp]: "phase_justified L s0 ins (cancel_state by_us code s)"
  by (simp add: phase_justified_def cancel_state_def)

lemma same_parties_cancel [simp]: "same_parties s0 (cancel_state by_us code s) \<longleftrightarrow> same_parties s0 s"
  by (simp add: same_parties_def cancel_state_def)

definition sas_inv ::
  "('sk, 'ss) sas_library \<Rightarrow> ('sk, 'ss) sas_state \<Rightarrow> sas_input list \<Rightarrow> ('sk, 'ss) sas_state \<Rightarrow> bool" where
  "sas_inv L s0 ins s \<longleftrightarrow> same_parties s0 s \<and> phase_justified L s0 ins s"

lemma sas_inv_snoc: "sas_inv L s0 ins s \<Longrightarrow> sas_inv L s0 (ins @ [i]) s"
  by (simp add: sas_inv_def phase_justified_snoc)

lemma sas_inv_cancel: "sas_inv L s0 ins s \<Longrightarrow> sas_inv L s0 ins' (cancel_state by_us code s)"
  by (simp add: sas_inv_def)

lemma check_event_passes:
  assumes "check_event now sender flow s = None" "same_parties s0 s"
  shows "sender = other_user s0" "this_flow s0 flow"
  using assms by (auto simp: check_event_def same_parties_def other_user_def this_flow_def split: if_splits)

text \<open>Handling a key yields the secret with the key that was sent, or leaves only the own secret consumed.\<close>

lemma handle_key_content_cases:
  obtains (rejected) c s' where "handle_key_content L now sender flow pk s = (Inl c, s')" "s' = s \<or> s' = s\<lparr>inner_sas := None\<rparr>"
  | (agreed) sk secret where
      "handle_key_content L now sender flow pk s =
         (Inr \<lparr>shared_secret = secret, our_key = public_key L sk, their_key = pk\<rparr>, s\<lparr>inner_sas := None\<rparr>)"
      "check_event now sender flow s = None" "inner_sas s = Some sk" "diffie_hellman L sk pk = Some secret"
  by (cases "check_event now sender flow s"; cases "inner_sas s"; cases "valid_public_key L pk";
      cases "diffie_hellman L (the (inner_sas s)) pk") (auto simp: handle_key_content_def)

lemma key_agreedI:
  assumes "check_event now sender flow s = None" "same_parties s0 s" "inner_sas s = Some sk" "inner_sas s = inner_sas s0"
    and "diffie_hellman L sk pk = Some secret" "key_bound L s0 ins pk"
  shows "key_agreed L s0 (ins @ [Receive now txn sender (KeyContent flow pk)])
           \<lparr>shared_secret = secret, our_key = public_key L sk, their_key = pk\<rparr>"
  unfolding key_agreed_def using assms check_event_passes [OF assms(1,2)] by fastforce

lemma check_macs_cases:
  assumes "same_parties s0 s"
  obtains (rejected) c where "check_macs L now sender sas accepted m s = Inl c"
  | (checked) d t where "check_macs L now sender sas accepted m s = Inr (d, t)"
      "macs_checked L s0 (ins @ [Receive now txn sender (MacContent m)]) sas accepted d t"
proof (cases "check_macs L now sender sas accepted m s")
  case (Inr p)
  then have ok: "check_event now sender (mac_flow_id m) s = None"
    by (auto simp: check_macs_def split: option.splits)
  show ?thesis
  proof (cases p)
    case (Pair d t)
    have "macs_checked L s0 (ins @ [Receive now txn sender (MacContent m)]) sas accepted d t"
      using Inr Pair ok assms check_event_passes [OF ok assms]
      by (auto simp: macs_checked_def check_macs_def same_parties_def)
    with Inr Pair show ?thesis using checked by blast
  qed
qed (use rejected in blast)

section \<open>Every input keeps it\<close>

lemma accept_keeps_inv:
  assumes "sas_inv L s0 ins s"
  shows "sas_inv L s0 (ins @ [AcceptWith methods]) (fst (sas_accept_with_settings methods s))"
proof (cases "phase s")
  case (Started c p a)
  then show ?thesis
    using assms by (auto simp: sas_accept_with_settings_def sas_accept_def into_we_accepted_def Let_def sas_inv_def
      phase_justified_def same_parties_def)
qed (simp_all add: sas_accept_with_settings_def sas_accept_def sas_inv_snoc assms)

lemma cancel_keeps_inv:
  assumes "sas_inv L s0 ins s"
  shows "sas_inv L s0 (ins @ [i]) (fst (sas_cancel by_us code s))"
  by (cases "phase s") (simp_all add: sas_cancel_def sas_inv_snoc sas_inv_cancel [OF assms] assms)

lemma timeout_keeps_inv:
  assumes "sas_inv L s0 ins s"
  shows "sas_inv L s0 (ins @ [i]) (fst (sas_cancel_if_timed_out now s))"
  by (cases "phase s") (simp_all add: sas_cancel_if_timed_out_def sas_inv_snoc cancel_keeps_inv assms)

lemma sent_keeps_inv:
  assumes "sas_inv L s0 ins s"
  shows "sas_inv L s0 (ins @ [i]) (sas_mark_request_as_sent now request_id s)"
  using sas_inv_snoc [OF assms, of i]
  by (cases "phase s") (auto simp: sas_mark_request_as_sent_def mark_request_as_sent_def sas_inv_def
    phase_justified_def same_parties_def)

lemma user_confirmedI:
  "presenting (sas_run L ins s0) sas \<Longrightarrow> user_confirmed L s0 (ins @ [Confirm]) sas"
  by (auto simp: user_confirmed_def)

lemma confirm_keeps_inv:
  assumes "sas_inv L s0 ins s" "s = sas_run L ins s0"
  shows "sas_inv L s0 (ins @ [Confirm]) (fst (sas_confirm L s))"
proof (cases "phase s")
  case (KeysExchanged sas we a)
  then have "user_confirmed L s0 (ins @ [Confirm]) sas"
    using assms(2) by (intro user_confirmedI) (simp add: presenting_def)
  then show ?thesis
    using KeysExchanged sas_inv_snoc [OF assms(1), of Confirm]
    by (simp add: sas_confirm_def sas_inv_def phase_justified_def same_parties_def)
next
  case (MacReceived sas we d t a)
  then have "user_confirmed L s0 (ins @ [Confirm]) sas"
    using assms(2) by (intro user_confirmedI) (simp add: presenting_def)
  then show ?thesis
    using MacReceived sas_inv_snoc [OF assms(1), of Confirm]
    by (simp add: sas_confirm_def sas_inv_def phase_justified_def same_parties_def)
qed (simp_all add: sas_confirm_def sas_inv_snoc assms(1))

subsection \<open>Events\<close>

lemma into_accepted_keeps_inv:
  assumes inv: "sas_inv L s0 ins s" and p: "proposed s0 p" and inner: "inner_sas s = inner_sas s0"
  shows "sas_inv L s0 (ins @ [Receive now txn sender (AcceptContent flow m)]) (into_accepted now txn sender flow m p s)"
proof (cases "check_event now sender flow s")
  case None
  have parties: "same_parties s0 s" using inv by (simp add: sas_inv_def)
  have start: "start_content_of s p = start_content_of s0 p"
    using parties by (simp add: start_content_of_def same_parties_def)
  show ?thesis
  proof (cases m)
    case (AcceptSasV1 c)
    have "commitment_received s0 (ins @ [Receive now txn sender (AcceptContent flow m)]) (accept_commitment c)"
      using check_event_passes [OF None parties] AcceptSasV1 by (auto simp: commitment_received_def)
    then show ?thesis
      using None AcceptSasV1 parties p inner start sas_inv_cancel [OF inv]
      by (auto simp: into_accepted_def sas_inv_def phase_justified_def same_parties_def split: sum.splits)
  qed (use None sas_inv_cancel [OF inv] in \<open>simp add: into_accepted_def\<close>)
qed (use sas_inv_cancel [OF inv] in \<open>simp add: into_accepted_def\<close>)

lemma same_parties_taken [simp]: "same_parties s0 (s\<lparr>inner_sas := x\<rparr>) \<longleftrightarrow> same_parties s0 s"
  by (simp add: same_parties_def)

lemma cancel_taken_inv:
  assumes "sas_inv L s0 ins s" "s' = s \<or> s' = s\<lparr>inner_sas := None\<rparr>"
  shows "sas_inv L s0 ins' (cancel_state by_us code s')"
  using assms by (auto simp: sas_inv_def)

lemma we_accepted_keeps_inv:
  assumes inv: "sas_inv L s0 ins s" and ph: "phase s = WeAccepted we a c"
  shows "sas_inv L s0 (ins @ [Receive now txn sender (KeyContent flow pk)])
           (we_accepted_into_key_received L now txn sender flow pk we a s)"
proof (cases rule: handle_key_content_cases [of L now sender flow pk s])
  case (rejected c s')
  then show ?thesis using cancel_taken_inv [OF inv] by (simp add: we_accepted_into_key_received_def)
next
  case (agreed sk secret)
  have j: "same_parties s0 s" "inner_sas s = inner_sas s0" "key_bound L s0 ins pk"
    using inv ph by (auto simp: sas_inv_def phase_justified_def key_bound_def)
  note k = key_agreedI [OF agreed(2) j(1) agreed(3) j(2) agreed(4) j(3), of txn]
  show ?thesis using agreed(1) k j(1)
    by (simp add: we_accepted_into_key_received_def sas_inv_def phase_justified_def same_parties_def)
qed

text \<open>Both states of the side that started compare the key with the commitment.\<close>

lemma bound_by_commitment:
  assumes "commitment_received s0 ins (calculate_commitment L pk start)" "\<exists>p. proposed s0 p \<and> start = start_content_of s0 p"
  shows "key_bound L s0 ins pk"
  using assms by (auto simp: key_bound_def)

lemma accepted_keeps_inv:
  assumes inv: "sas_inv L s0 ins s" and ph: "phase s = Accepted a start rid c"
  shows "sas_inv L s0 (ins @ [Receive now txn sender (KeyContent flow pk)])
           (accepted_into_key_received L now sender flow pk a start rid c s)"
proof (cases rule: handle_key_content_cases [of L now sender flow pk s])
  case (rejected c s')
  then show ?thesis using cancel_taken_inv [OF inv] by (simp add: accepted_into_key_received_def)
next
  case (agreed sk secret)
  have j: "same_parties s0 s" "inner_sas s = inner_sas s0"
    using inv ph by (auto simp: sas_inv_def phase_justified_def)
  show ?thesis
  proof (cases "c = calculate_commitment L pk start")
    case True
    have "key_bound L s0 ins pk"
      using inv ph True by (intro bound_by_commitment) (auto simp: sas_inv_def phase_justified_def)
    from key_agreedI [OF agreed(2) j(1) agreed(3) j(2) agreed(4) this, of txn] show ?thesis
      using agreed(1) j(1) True
      by (simp add: accepted_into_key_received_def sas_inv_def phase_justified_def same_parties_def)
  next
    case False
    then show ?thesis using agreed(1) cancel_taken_inv [OF inv] by (simp add: accepted_into_key_received_def)
  qed
qed

lemma key_sent_keeps_inv:
  assumes inv: "sas_inv L s0 ins s" and ph: "phase s = KeySent we start c a"
  shows "sas_inv L s0 (ins @ [Receive now txn sender (KeyContent flow pk)])
           (key_sent_into_keys_exchanged L now sender flow pk we start c a s)"
proof (cases rule: handle_key_content_cases [of L now sender flow pk s])
  case (rejected c s')
  then show ?thesis using cancel_taken_inv [OF inv] by (simp add: key_sent_into_keys_exchanged_def)
next
  case (agreed sk secret)
  have j: "same_parties s0 s" "inner_sas s = inner_sas s0"
    using inv ph by (auto simp: sas_inv_def phase_justified_def)
  show ?thesis
  proof (cases "c = calculate_commitment L pk start")
    case True
    have "key_bound L s0 ins pk"
      using inv ph True by (intro bound_by_commitment) (auto simp: sas_inv_def phase_justified_def)
    from key_agreedI [OF agreed(2) j(1) agreed(3) j(2) agreed(4) this, of txn] show ?thesis
      using agreed(1) j(1) True
      by (simp add: key_sent_into_keys_exchanged_def sas_inv_def phase_justified_def same_parties_def)
  next
    case False
    then show ?thesis using agreed(1) cancel_taken_inv [OF inv] by (simp add: key_sent_into_keys_exchanged_def)
  qed
qed

lemma mac_keeps_inv:
  assumes inv: "sas_inv L s0 ins s"
  defines "ins' txn now sender m \<equiv> ins @ [Receive now txn sender (MacContent m)]"
  shows "phase s = KeysExchanged sas we a \<Longrightarrow>
           sas_inv L s0 (ins' txn now sender m) (into_mac_received L now sender sas we a m s)"
    and "phase s = Confirmed sas a \<Longrightarrow>
           sas_inv L s0 (ins' txn now sender m) (into_waiting_for_done L now sender sas a m s)"
    and "phase s = Confirmed sas a \<Longrightarrow>
           sas_inv L s0 (ins' txn now sender m) (confirmed_into_done L now sender sas a m s)"
proof -
  have parties: "same_parties s0 s" using inv by (simp add: sas_inv_def)
  note inv' = sas_inv_snoc [OF inv, of "Receive now txn sender (MacContent m)"]
  note defs = into_mac_received_def into_waiting_for_done_def confirmed_into_done_def
  note unfolds = sas_inv_def phase_justified_def same_parties_def
  { assume "phase s = KeysExchanged sas we a"
    then show "sas_inv L s0 (ins' txn now sender m) (into_mac_received L now sender sas we a m s)"
      by (cases rule: check_macs_cases [OF parties, where L = L and now = now and sender = sender and sas = sas and accepted = a and m = m and ins = ins and txn = txn])
        (use inv' sas_inv_cancel [OF inv] in \<open>auto simp: ins'_def defs unfolds\<close>) }
  { assume "phase s = Confirmed sas a"
    then show "sas_inv L s0 (ins' txn now sender m) (into_waiting_for_done L now sender sas a m s)"
      by (cases rule: check_macs_cases [OF parties, where L = L and now = now and sender = sender and sas = sas and accepted = a and m = m and ins = ins and txn = txn])
        (use inv' sas_inv_cancel [OF inv] in \<open>auto simp: ins'_def defs unfolds\<close>) }
  { assume "phase s = Confirmed sas a"
    then show "sas_inv L s0 (ins' txn now sender m) (confirmed_into_done L now sender sas a m s)"
      by (cases rule: check_macs_cases [OF parties, where L = L and now = now and sender = sender and sas = sas and accepted = a and m = m and ins = ins and txn = txn])
        (use inv' sas_inv_cancel [OF inv] in \<open>auto simp: ins'_def defs unfolds\<close>) }
qed

lemma done_keeps_inv:
  assumes inv: "sas_inv L s0 ins s" and ph: "phase s = WaitingForDone sas d t a"
  shows "sas_inv L s0 (ins @ [i]) (waiting_into_done now sender flow sas d t a s)"
  using sas_inv_snoc [OF inv, of i] sas_inv_cancel [OF inv] ph
  by (auto simp: waiting_into_done_def sas_inv_def phase_justified_def same_parties_def split: option.splits)

lemma fst_or_cancelled [simp]: "fst (or_cancelled s r) = s"
  by (simp add: or_cancelled_def)

lemma receive_keeps_inv:
  assumes inv: "sas_inv L s0 ins s"
  shows "sas_inv L s0 (ins @ [Receive now txn sender content]) (fst (receive_any_event L now txn sender content s))"
proof (cases content)
  case (AcceptContent flow m)
  note accepted = into_accepted_keeps_inv [OF inv]
  show ?thesis
    using inv accepted
    by (cases "phase s") (simp_all add: AcceptContent receive_any_event_def sas_inv_snoc,
      auto simp: sas_inv_def phase_justified_def proposed_def)
next
  case (KeyContent flow pk)
  show ?thesis
    by (cases "phase s") (simp_all add: KeyContent receive_any_event_def sas_inv_snoc inv accepted_keeps_inv [OF inv]
      key_sent_keeps_inv [OF inv] we_accepted_keeps_inv [OF inv])
next
  case (MacContent m)
  show ?thesis
    by (cases "phase s") (simp_all add: MacContent receive_any_event_def sas_inv_snoc inv mac_keeps_inv [OF inv])
next
  case (DoneContent flow)
  show ?thesis
    by (cases "phase s") (simp_all add: DoneContent receive_any_event_def sas_inv_snoc inv done_keeps_inv [OF inv])
qed (simp_all add: receive_any_event_def sas_inv_snoc inv cancel_keeps_inv)

lemma step_keeps_inv:
  assumes "sas_inv L s0 ins s" "s = sas_run L ins s0"
  shows "sas_inv L s0 (ins @ [i]) (sas_step L i s)"
  by (cases i) (simp_all add: accept_keeps_inv confirm_keeps_inv cancel_keeps_inv timeout_keeps_inv sent_keeps_inv
    receive_keeps_inv assms(1) assms(2) [symmetric])

lemma sas_run_snoc [simp]: "sas_run L (ins @ [i]) s = sas_step L i (sas_run L ins s)"
  by (simp add: sas_run_def)

definition verification_begins :: "('sk, 'ss) sas_library \<Rightarrow> ('sk, 'ss) sas_state \<Rightarrow> bool" where
  "verification_begins L s \<longleftrightarrow>
     (\<exists>sk now the_ids flow from_request strings. s = fst (sas_start L sk now the_ids flow from_request strings)) \<or>
     (\<exists>sk now the_ids flow content from_request. sas_from_start_event L sk now the_ids flow content from_request = Inr s)"

lemma from_start_event_InrE:
  assumes "sas_from_start_event L sk now the_ids flow content from_request = Inr s"
  obtains protocols accepted where
    "s = \<lparr>inner_sas = Some sk, our_public_key = public_key L sk, ids = the_ids, creation_time = now, last_event_time = now,
          verification_flow_id = flow, started_from_request = from_request,
          phase = Started (calculate_commitment L (public_key L sk) content) protocols accepted\<rparr>"
  using assms
  by (cases "start_method_of content"; cases "protocols_from_start (case start_method_of content of StartSasV1 p \<Rightarrow> p)")
    (auto simp: sas_from_start_event_def Let_def)

lemma begins_inv: "verification_begins L s0 \<Longrightarrow> sas_inv L s0 [] s0"
  unfolding verification_begins_def sas_start_def sas_created_def Let_def sas_inv_def same_parties_def phase_justified_def
  by (auto elim!: from_start_event_InrE)

lemma run_keeps_inv:
  assumes "verification_begins L s0"
  shows "sas_inv L s0 ins (sas_run L ins s0)"
proof (induction ins rule: rev_induct)
  case Nil
  then show ?case using begins_inv [OF assms] by (simp add: sas_run_def)
next
  case (snoc i ins)
  then show ?case by (simp add: step_keeps_inv)
qed

section \<open>What checked MACs mean\<close>

definition device_authenticated ::
  "('sk, 'ss) sas_library \<Rightarrow> 'ss established_sas \<Rightarrow> sas_ids \<Rightarrow> string \<Rightarrow> supported_mac_method \<Rightarrow> (string, bytes) btree \<Rightarrow> bool" where
  "device_authenticated L sas the_ids info m ms \<longleftrightarrow>
     (\<exists>key_id key_mac key. (key_id, key_mac) \<in> set ms \<and> map_of (device_keys (other_device the_ids)) key_id = Some key \<and>
        verify_mac L m sas key (info @ key_id) key_mac = Inr ())"

definition identity_authenticated ::
  "('sk, 'ss) sas_library \<Rightarrow> 'ss established_sas \<Rightarrow> user_identity \<Rightarrow> string \<Rightarrow> supported_mac_method \<Rightarrow> (string, bytes) btree \<Rightarrow> bool" where
  "identity_authenticated L sas identity info m ms \<longleftrightarrow>
     (\<exists>key_id key_mac key. (key_id, key_mac) \<in> set ms \<and> map_of (master_keys identity) key_id = Some key \<and>
        verify_mac L m sas (signing_key_base64 key) (info @ key_id) key_mac = Inr ())"

lemma authenticated_Cons:
  "device_authenticated L sas the_ids info m ms \<Longrightarrow> device_authenticated L sas the_ids info m (x # ms)"
  "identity_authenticated L sas identity info m ms \<Longrightarrow> identity_authenticated L sas identity info m (x # ms)"
  by (auto simp: device_authenticated_def identity_authenticated_def)

lemma receive_macs_sound:
  assumes "receive_macs L sas the_ids info m ms ds ts = Inr (devices, identities)"
  shows "(\<forall>d \<in> set devices. d \<in> set ds \<or> d = other_device the_ids \<and> device_authenticated L sas the_ids info m ms) \<and>
         (\<forall>t \<in> set identities. t \<in> set ts \<or> other_identity the_ids = Some t \<and> identity_authenticated L sas t info m ms)"
  using assms
proof (induction L sas the_ids info m ms ds ts rule: receive_macs.induct)
  case (2 L sas the_ids info m key_id key_mac rest ds ts)
  show ?case
  proof (cases "valid_key_id L key_id")
    case False
    with 2 show ?thesis using authenticated_Cons by fastforce
  next
    case valid: True
    show ?thesis
    proof (cases "map_of (device_keys (other_device the_ids)) key_id")
      case (Some key)
      then have ok: "verify_mac L m sas key (info @ key_id) key_mac = Inr ()"
        using "2.prems" valid by (auto split: sum.split_asm)
      then have "device_authenticated L sas the_ids info m ((key_id, key_mac) # rest)"
        using Some by (auto simp: device_authenticated_def)
      with "2.IH"(5) [OF _ Some] "2.prems" valid Some ok show ?thesis using authenticated_Cons by fastforce
    next
      case dev: None
      show ?thesis
      proof (cases "other_identity the_ids")
        case None
        with 2 dev valid show ?thesis using authenticated_Cons by fastforce
      next
        case ident: (Some t)
        show ?thesis
        proof (cases "map_of (master_keys t) key_id")
          case None
          with 2 dev valid ident show ?thesis using authenticated_Cons by fastforce
        next
          case (Some key)
          then have ok: "verify_mac L m sas (signing_key_base64 key) (info @ key_id) key_mac = Inr ()"
            using "2.prems" valid dev ident by (auto split: sum.split_asm)
          then have "identity_authenticated L sas t info m ((key_id, key_mac) # rest)"
            using Some by (auto simp: identity_authenticated_def)
          with "2.IH"(4) [OF _ dev ident Some] "2.prems" valid dev ident Some ok show ?thesis using authenticated_Cons by fastforce
        qed
      qed
    qed
  qed
qed simp

text \<open>The MACs cover the list of key identifiers, and the key of everything that they verify.\<close>

definition authenticated ::
  "('sk, 'ss) sas_library \<Rightarrow> ('sk, 'ss) sas_state \<Rightarrow> 'ss established_sas \<Rightarrow> supported_mac_method \<Rightarrow> mac_content
   \<Rightarrow> device_data list \<Rightarrow> user_identity list \<Rightarrow> bool" where
  "authenticated L s0 sas m content devices identities \<longleftrightarrow>
     (let info = extra_mac_info_receive (ids s0) (flow_id_str (verification_flow_id s0)) in
        verify_mac L m sas (join_comma (sort (map fst (macs content)))) (info @ ''KEY_IDS'') (mac_of_keys content) = Inr () \<and>
        (\<forall>d \<in> set devices. d = other_device (ids s0) \<and> device_authenticated L sas (ids s0) info m (macs content)) \<and>
        (\<forall>t \<in> set identities. other_identity (ids s0) = Some t \<and> identity_authenticated L sas t info m (macs content)))"

lemma received_macs_authenticated:
  assumes "receive_mac_event L sas (ids s0) (flow_id_str (verification_flow_id s0)) m content = Inr (devices, identities)"
  shows "authenticated L s0 sas m content devices identities"
proof -
  define info where "info = extra_mac_info_receive (ids s0) (flow_id_str (verification_flow_id s0))"
  from assms have v: "verify_mac L m sas (join_comma (sort (map fst (macs content)))) (info @ ''KEY_IDS'') (mac_of_keys content) = Inr ()"
    and rm: "receive_macs L sas (ids s0) info m (macs content) [] [] = Inr (devices, identities)"
    by (auto simp: receive_mac_event_def Let_def info_def split: sum.split_asm)
  show ?thesis
    using v receive_macs_sound [OF rm] unfolding authenticated_def Let_def info_def by auto
qed

section \<open>An example\<close>

definition toy_library :: "(u8, u8) sas_library" where
  "toy_library =
     \<lparr>public_key = \<lambda>sk. [sk], valid_public_key = \<lambda>pk. length pk = 1,
      diffie_hellman = \<lambda>sk pk. Some (sk * hd pk),
      derive_mac = \<lambda>secret input info. [secret, of_nat (length input), of_nat (length info)],
      derive_mac_invalid_base64 = \<lambda>secret input info. [secret],
      check_mac = \<lambda>secret input info mac. mac = [secret, of_nat (length input), of_nat (length info)],
      emoji_indices = \<lambda>secret info. [1, 2, 3, 4, 5, 6, 7], decimals = \<lambda>secret info. (1000, 2000, 3000),
      sha256 = \<lambda>text. [of_nat (length text)], key_to_base64 = \<lambda>pk. ''key'', canonical_json = \<lambda>content. ''start'',
      valid_key_id = \<lambda>k. True\<rparr>"

definition toy_account :: "string \<Rightarrow> string \<Rightarrow> static_account_data" where
  "toy_account user device = \<lparr>account_user_id = user, account_device_id = device, account_ed25519 = device @ ''key''\<rparr>"

definition toy_device :: "string \<Rightarrow> string \<Rightarrow> device_data" where
  "toy_device user device =
     \<lparr>device_user_id = user, device_device_id = device, device_keys = [(''ed25519:'' @ device, device @ ''key'')],
      trust_state = TrustUnset\<rparr>"

definition alice_ids :: sas_ids where
  "alice_ids = \<lparr>sas_account = toy_account ''@a'' ''A'', sas_own_identity = None, other_device = toy_device ''@b'' ''B'',
     other_identity = None\<rparr>"

definition alice_start :: "(u8, u8) sas_state" where
  "alice_start = fst (sas_start toy_library 3 0 alice_ids (ToDevice ''flow'') False None)"

definition bob_secret :: "u8 established_sas" where
  "bob_secret = \<lparr>shared_secret = 15, our_key = [5], their_key = [3]\<rparr>"

definition bob_ids :: sas_ids where
  "bob_ids = \<lparr>sas_account = toy_account ''@b'' ''B'', sas_own_identity = None, other_device = toy_device ''@a'' ''A'',
     other_identity = None\<rparr>"

definition alice_inputs :: "sas_input list" where
  "alice_inputs =
     [Receive 1 ''t1'' ''@b'' (AcceptContent (ToDevice ''flow'') (AcceptSasV1 \<lparr>accept_commitment = [8], accept_hash = Sha256,
        accept_key_agreement = Curve25519HkdfSha256, accept_mac = ''hkdf-hmac-sha256.v2'', accept_sas = [Emoji]\<rparr>)),
      RequestSent 2 ''t1'',
      Receive 3 ''t2'' ''@b'' (KeyContent (ToDevice ''flow'') [5]),
      Confirm,
      Receive 4 ''t3'' ''@b'' (MacContent (get_mac_content toy_library bob_secret bob_ids (ToDevice ''flow'') HkdfHmacSha256V2))]"

definition alice_secret :: "u8 established_sas" where
  "alice_secret = \<lparr>shared_secret = 15, our_key = [3], their_key = [5]\<rparr>"

definition toy_protocols :: accepted_protocols where
  "toy_protocols = \<lparr>key_agreement = Curve25519HkdfSha256, accepted_hash = Sha256, message_auth_code = HkdfHmacSha256V2,
     short_auth_string = [Emoji]\<rparr>"

lemma alice_begins: "verification_begins toy_library alice_start"
  unfolding verification_begins_def alice_start_def by blast

lemma alice_done:
  "phase (sas_run toy_library alice_inputs alice_start) = SasDone alice_secret [toy_device ''@b'' ''B''] [] toy_protocols"
  by code_simp

text \<open>C5. Safety. However a verification runs, whatever is received from whomever and whatever the
  user does, when it is done then its secret was agreed with a key that the other user sent for this
  flow and that was fixed by a commitment before (or the user accepted a verification started by the
  other side, where the own key is the committed one); the user has confirmed while the string of
  exactly this secret was presented; and every device or identity that is reported as verified is the
  one that was to be verified, with a valid MAC of its key under this secret sent by the other user.\<close>

theorem verified_only_after_checks:
  assumes "verification_begins L s0" "phase (sas_run L ins s0) = SasDone sas devices identities accepted"
  shows "key_agreed L s0 ins sas \<and> user_confirmed L s0 ins sas \<and>
    (\<exists>now txn content. Receive now txn (other_user s0) (MacContent content) \<in> set ins \<and> this_flow s0 (mac_flow_id content) \<and>
       authenticated L s0 sas (message_auth_code accepted) content devices identities)"
  using run_keeps_inv [OF assms(1), of ins] assms(2) received_macs_authenticated
  by (fastforce simp: sas_inv_def phase_justified_def macs_checked_def)

theorem verified_only_after_checks_witness:
  "verification_begins toy_library alice_start \<and>
   phase (sas_run toy_library alice_inputs alice_start) = SasDone alice_secret [toy_device ''@b'' ''B''] [] toy_protocols \<and>
   key_agreed toy_library alice_start alice_inputs alice_secret"
  using verified_only_after_checks [OF alice_begins alice_done] alice_begins alice_done by blast

section \<open>Final phases and lost messages\<close>

text \<open>A verification that is done or cancelled stays as it is.\<close>

lemma finished_is_final:
  assumes "case phase s of SasDone _ _ _ _ \<Rightarrow> True | Cancelled _ _ \<Rightarrow> True | _ \<Rightarrow> False"
  shows "sas_run L ins s = s"
proof -
  have step: "sas_step L i s = s" for i
    using assms by (cases i; cases "phase s")
      (auto simp: sas_accept_with_settings_def sas_accept_def sas_confirm_def sas_cancel_def sas_cancel_if_timed_out_def
        sas_mark_request_as_sent_def mark_request_as_sent_def receive_any_event_def split: verification_content.splits)
  show ?thesis by (induction ins) (simp_all add: sas_run_def step)
qed

text \<open>
  A MAC that arrives before the sending of the own key has been reported is dropped, so the verification
  then waits for a MAC that the other side has already sent.
\<close>

lemma early_mac_dropped:
  assumes "phase s = KeyReceived sas we request_id accepted"
  shows "phase (sas_run L [Receive now txn sender (MacContent m), RequestSent now' request_id, Confirm] s) = Confirmed sas accepted"
  using assms by (simp add: sas_run_def receive_any_event_def sas_mark_request_as_sent_def mark_request_as_sent_def sas_confirm_def)

text \<open>
  When both sides start and ours is accepted, the commitment is compared with a start content that has
  the protocols of the other side: a commitment to the content that was sent is refused when they differ.
\<close>

lemma crossed_start_cancelled:
  assumes "phase s = Started c theirs a" "accept_commitment content = calculate_commitment L pk (start_content_of s ours)"
    and "calculate_commitment L pk (start_content_of s ours) \<noteq> calculate_commitment L pk (start_content_of s theirs)"
    and "protocols_from_accept content = Inr accepted" "valid_public_key L pk" "inner_sas s = Some sk"
    and "diffie_hellman L sk pk = Some secret" "creation_time s = now" "last_event_time s = now"
  shows "phase (sas_run L [Receive now txn (other_user s) (AcceptContent (verification_flow_id s) (AcceptSasV1 content)),
                           Receive now txn (other_user s) (KeyContent (verification_flow_id s) pk)] s) = Cancelled True KeyMismatch"
  using assms by (simp add: sas_run_def receive_any_event_def into_accepted_def check_event_def sas_timed_out_def
    other_user_def accepted_into_key_received_def handle_key_content_def cancel_state_def)

end
