(* ===== verification/Sas_Exchange.thy ===== *)
theory Sas_Exchange
  imports Sas_Safety
begin

text \<open>
  Two devices that verify each other with the operations of \<open>Sas_State\<close>. The messages between them are
  delivered in order; deliveries, confirmations and reports of sent requests interleave freely, except
  that a key request is reported as sent before a MAC arrives. Each device is described by a stage which
  determines how many messages it has sent and received.
\<close>

section \<open>The two devices\<close>

record ('sk, 'ss) sas_pair =
  alice :: "('sk, 'ss) sas_state"
  bob :: "('sk, 'ss) sas_state"
  to_alice :: "verification_content list"
  to_bob :: "verification_content list"

definition initial_pair ::
  "('sk, 'ss) sas_library \<Rightarrow> 'sk \<Rightarrow> 'sk \<Rightarrow> nat \<Rightarrow> sas_ids \<Rightarrow> sas_ids \<Rightarrow> flow_id \<Rightarrow> bool \<Rightarrow> short_authentication_string list option
   \<Rightarrow> ('sk, 'ss) sas_pair option" where
  "initial_pair L sk sk' t0 x y flow from_request strings =
     (case sas_start L sk t0 x flow from_request strings of
        (a, StartContent content) \<Rightarrow>
          (case sas_from_start_event L sk' t0 y flow content from_request of
             Inr b \<Rightarrow> Some \<lparr>alice = a, bob = b, to_alice = [], to_bob = []\<rparr>
           | Inl _ \<Rightarrow> None)
      | _ \<Rightarrow> None)"

definition reply_messages :: "reply \<Rightarrow> verification_content list" where
  "reply_messages r = (case r of None \<Rightarrow> [] | Some (content, _) \<Rightarrow> [content])"

definition unreported :: "('sk, 'ss) sas_state \<Rightarrow> string option" where
  "unreported s = (case phase s of Accepted _ _ rid _ \<Rightarrow> Some rid | KeyReceived _ _ rid _ \<Rightarrow> Some rid | _ \<Rightarrow> None)"

definition own_user :: "('sk, 'ss) sas_state \<Rightarrow> string" where
  "own_user s = account_user_id (sas_account (ids s))"

definition deliverable :: "verification_content \<Rightarrow> ('sk, 'ss) sas_state \<Rightarrow> bool" where
  "deliverable m s \<longleftrightarrow>
     (case m of MacContent _ \<Rightarrow> (case phase s of KeyReceived _ _ _ _ \<Rightarrow> False | _ \<Rightarrow> True) | _ \<Rightarrow> True)"

inductive exchange :: "('sk, 'ss) sas_library \<Rightarrow> nat \<Rightarrow> ('sk, 'ss) sas_pair \<Rightarrow> ('sk, 'ss) sas_pair \<Rightarrow> bool"
  for L t0 where
  bob_accepts: "sas_accept methods (bob c) = Some (b, m) \<Longrightarrow> exchange L t0 c (c\<lparr>bob := b, to_alice := to_alice c @ [m]\<rparr>)"
| alice_receives:
    "to_alice c = m # ms \<Longrightarrow> deliverable m (alice c) \<Longrightarrow> t0 \<le> now \<Longrightarrow> now \<le> t0 + 60 \<Longrightarrow>
     receive_any_event L now txn (own_user (bob c)) m (alice c) = (a, r) \<Longrightarrow>
     exchange L t0 c (c\<lparr>alice := a, to_alice := ms, to_bob := to_bob c @ reply_messages r\<rparr>)"
| bob_receives:
    "to_bob c = m # ms \<Longrightarrow> deliverable m (bob c) \<Longrightarrow> t0 \<le> now \<Longrightarrow> now \<le> t0 + 60 \<Longrightarrow>
     receive_any_event L now txn (own_user (alice c)) m (bob c) = (b, r) \<Longrightarrow>
     exchange L t0 c (c\<lparr>bob := b, to_bob := ms, to_alice := to_alice c @ reply_messages r\<rparr>)"
| alice_reports:
    "unreported (alice c) = Some rid \<Longrightarrow> t0 \<le> now \<Longrightarrow> now \<le> t0 + 60 \<Longrightarrow>
     exchange L t0 c (c\<lparr>alice := sas_mark_request_as_sent now rid (alice c)\<rparr>)"
| bob_reports:
    "unreported (bob c) = Some rid \<Longrightarrow> t0 \<le> now \<Longrightarrow> now \<le> t0 + 60 \<Longrightarrow>
     exchange L t0 c (c\<lparr>bob := sas_mark_request_as_sent now rid (bob c)\<rparr>)"
| alice_confirms:
    "can_be_presented (alice c) \<Longrightarrow> sas_confirm L (alice c) = (a, ms) \<Longrightarrow>
     exchange L t0 c (c\<lparr>alice := a, to_bob := to_bob c @ ms\<rparr>)"
| bob_confirms:
    "can_be_presented (bob c) \<Longrightarrow> sas_confirm L (bob c) = (b, ms) \<Longrightarrow>
     exchange L t0 c (c\<lparr>bob := b, to_alice := to_alice c @ ms\<rparr>)"

section \<open>What the devices know of each other\<close>

definition sent_master_key :: "sas_ids \<Rightarrow> string option" where
  "sent_master_key y =
     (case sas_own_identity y of
        None \<Rightarrow> None
      | Some own \<Rightarrow> if own_is_verified own then get_first_key (own_master_keys own) else None)"

text \<open>\<open>x\<close> has the device of \<open>y\<close> with its key, and no other key under the identifiers that \<open>y\<close> sends.\<close>

definition knows :: "('sk, 'ss) sas_library \<Rightarrow> sas_ids \<Rightarrow> sas_ids \<Rightarrow> bool" where
  "knows L x y \<longleftrightarrow>
     device_user_id (other_device x) = account_user_id (sas_account y) \<and>
     device_device_id (other_device x) = account_device_id (sas_account y) \<and>
     map_of (device_keys (other_device x)) (''ed25519:'' @ account_device_id (sas_account y)) = Some (account_ed25519 (sas_account y)) \<and>
     valid_key_id L (''ed25519:'' @ account_device_id (sas_account y)) \<and>
     (case sent_master_key y of
        None \<Rightarrow> True
      | Some k \<Rightarrow>
          k \<noteq> account_device_id (sas_account y) \<and> valid_key_id L (''ed25519:'' @ k) \<and>
          map_of (device_keys (other_device x)) (''ed25519:'' @ k) = None \<and>
          (case other_identity x of
             None \<Rightarrow> True
           | Some t \<Rightarrow> (case map_of (master_keys t) (''ed25519:'' @ k) of None \<Rightarrow> True | Some key \<Rightarrow> signing_key_base64 key = k)))"

definition proven_identities :: "sas_ids \<Rightarrow> sas_ids \<Rightarrow> user_identity list" where
  "proven_identities x y =
     (case sent_master_key y of
        None \<Rightarrow> []
      | Some k \<Rightarrow>
          (case other_identity x of
             None \<Rightarrow> []
           | Some t \<Rightarrow> if map_of (master_keys t) (''ed25519:'' @ k) = None then [] else [t]))"

lemma verify_calculated_mac:
  assumes "\<And>secret input info. check_mac L secret input info (derive_mac L secret input info)"
    and "shared_secret sas = shared_secret sas'"
  shows "verify_mac L m sas input info (calculate_mac L m sas' input info) = Inr ()"
  using assms by (cases m) simp_all

lemma extra_mac_info_agrees:
  "knows L x y \<Longrightarrow> knows L y x \<Longrightarrow> extra_mac_info_receive x flow = extra_mac_info_send y flow"
  by (simp add: knows_def extra_mac_info_receive_def extra_mac_info_send_def)

lemma honest_macs_accepted:
  assumes law: "\<And>secret input info. check_mac L secret input info (derive_mac L secret input info)"
    and ss: "shared_secret sas = shared_secret sas'" and k: "knows L x y" "knows L y x"
  shows "receive_mac_event L sas x (flow_id_str flow) m (get_mac_content L sas' y flow m) =
         Inr ([other_device x], proven_identities x y)"
proof -
  note v = verify_calculated_mac [OF law ss]
  note info = extra_mac_info_agrees [OF k]
  show ?thesis
  proof (cases "sent_master_key y")
    case None
    then show ?thesis using k(1)
      by (auto simp: receive_mac_event_def get_mac_content_def sent_master_key_def knows_def proven_identities_def info v Let_def
        split: option.splits if_splits)
  next
    case (Some key)
    then show ?thesis using k(1)
      by (auto simp: receive_mac_event_def get_mac_content_def sent_master_key_def knows_def proven_identities_def info v Let_def
        split: option.splits if_splits)
  qed
qed

lemma same_extra_info:
  "knows L x y \<Longrightarrow> knows L y x \<Longrightarrow> extra_info_sas L x pk pk' flow True = extra_info_sas L y pk' pk flow False"
  by (simp add: knows_def extra_info_sas_def)


section \<open>Stages\<close>

datatype stage = S0 | S1 | S2s | S2r | S3 | S4c | S4m | S5 | S6

text \<open>What is fixed about one device during the exchange.\<close>

record ('sk, 'ss) party =
  starter :: bool
  secret_key :: 'sk
  party_ids :: sas_ids
  peer_ids :: sas_ids
  secrets :: "'ss established_sas"
  flow :: flow_id
  from_request :: bool
  offer :: sas_v1_content
  first_accepted :: accepted_protocols
  start_event :: start_content
  commitment_of :: bytes

definition stage_phase :: "('sk, 'ss) party \<Rightarrow> accepted_protocols \<Rightarrow> stage \<Rightarrow> 'ss sas_phase \<Rightarrow> bool" where
  "stage_phase P acc st ph \<longleftrightarrow>
     (case st of
        S0 \<Rightarrow> ph = (if starter P then Created (offer P) else Started (commitment_of P) (offer P) (first_accepted P))
      | S1 \<Rightarrow> if starter P then \<exists>rid. ph = Accepted acc (start_event P) rid (commitment_of P)
              else ph = WeAccepted False acc (commitment_of P)
      | S2s \<Rightarrow> starter P \<and> ph = KeySent True (start_event P) (commitment_of P) acc
      | S2r \<Rightarrow> \<exists>rid. ph = KeyReceived (secrets P) (starter P) rid acc
      | S3 \<Rightarrow> ph = KeysExchanged (secrets P) (starter P) acc
      | S4c \<Rightarrow> ph = Confirmed (secrets P) acc
      | S4m \<Rightarrow> ph = MacReceived (secrets P) (starter P) [other_device (party_ids P)] (proven_identities (party_ids P) (peer_ids P)) acc
      | S5 \<Rightarrow> from_request P \<and>
               ph = WaitingForDone (secrets P) [other_device (party_ids P)] (proven_identities (party_ids P) (peer_ids P)) acc
      | S6 \<Rightarrow> ph = SasDone (secrets P) [other_device (party_ids P)] (proven_identities (party_ids P) (peer_ids P)) acc)"

fun key_unused :: "stage \<Rightarrow> bool" where
  "key_unused S0 = True"
| "key_unused S1 = True"
| "key_unused S2s = True"
| "key_unused _ = False"

definition at_stage ::
  "('sk, 'ss) sas_library \<Rightarrow> nat \<Rightarrow> ('sk, 'ss) party \<Rightarrow> accepted_protocols \<Rightarrow> stage \<Rightarrow> ('sk, 'ss) sas_state \<Rightarrow> bool" where
  "at_stage L t0 P acc st s \<longleftrightarrow>
     stage_phase P acc st (phase s) \<and> (key_unused st \<longrightarrow> inner_sas s = Some (secret_key P)) \<and>
     our_public_key s = public_key L (secret_key P) \<and> ids s = party_ids P \<and> verification_flow_id s = flow P \<and>
     started_from_request s = from_request P \<and> t0 \<le> creation_time s \<and> t0 \<le> last_event_time s"

text \<open>The messages a device sends in the course of the exchange, and how many of them by which stage.\<close>

definition messages ::
  "('sk, 'ss) sas_library \<Rightarrow> ('sk, 'ss) party \<Rightarrow> accepted_protocols \<Rightarrow> verification_content list" where
  "messages L P acc =
     (if starter P then [] else [accept_content (flow P) acc (commitment_of P)]) @
     [KeyContent (flow P) (public_key L (secret_key P)),
      MacContent (get_mac_content L (secrets P) (party_ids P) (flow P) (message_auth_code acc)),
      DoneContent (flow P)]"

fun sent_count :: "bool \<Rightarrow> bool \<Rightarrow> stage \<Rightarrow> nat" where
  "sent_count starts req S0 = 0"
| "sent_count starts req S1 = 1"
| "sent_count starts req S2s = 1"
| "sent_count starts req S2r = (if starts then 1 else 2)"
| "sent_count starts req S3 = (if starts then 1 else 2)"
| "sent_count starts req S4c = (if starts then 2 else 3)"
| "sent_count starts req S4m = (if starts then 1 else 2)"
| "sent_count starts req S5 = (if starts then 3 else 4)"
| "sent_count starts req S6 = (if starts then 2 else 3) + (if req then 1 else 0)"

fun received_count :: "bool \<Rightarrow> bool \<Rightarrow> stage \<Rightarrow> nat" where
  "received_count starts req S0 = 0"
| "received_count starts req S1 = (if starts then 1 else 0)"
| "received_count starts req S2s = 1"
| "received_count starts req S2r = (if starts then 2 else 1)"
| "received_count starts req S3 = (if starts then 2 else 1)"
| "received_count starts req S4c = (if starts then 2 else 1)"
| "received_count starts req S4m = (if starts then 3 else 2)"
| "received_count starts req S5 = (if starts then 3 else 2)"
| "received_count starts req S6 = (if starts then 3 else 2) + (if req then 1 else 0)"

fun stage_rank :: "stage \<Rightarrow> nat" where
  "stage_rank S0 = 0"
| "stage_rank S1 = 1"
| "stage_rank S2s = 2"
| "stage_rank S2r = 2"
| "stage_rank S3 = 3"
| "stage_rank S4c = 4"
| "stage_rank S4m = 4"
| "stage_rank S5 = 5"
| "stage_rank S6 = 6"

fun after_message :: "bool \<Rightarrow> bool \<Rightarrow> stage \<Rightarrow> stage option" where
  "after_message starts req S0 = (if starts then Some S1 else None)"
| "after_message starts req S1 = Some S2r"
| "after_message starts req S2s = Some S3"
| "after_message starts req S3 = Some S4m"
| "after_message starts req S4c = Some (if req then S5 else S6)"
| "after_message starts req S5 = Some S6"
| "after_message starts req _ = None"

definition segment :: "nat \<Rightarrow> nat \<Rightarrow> 'a list \<Rightarrow> 'a list" where
  "segment i j xs = drop i (take j xs)"

text \<open>The relation between the two devices that the protocol relies on.\<close>

definition peers :: "('sk, 'ss) sas_library \<Rightarrow> ('sk, 'ss) party \<Rightarrow> ('sk, 'ss) party \<Rightarrow> bool" where
  "peers L P Q \<longleftrightarrow>
     starter Q = (\<not> starter P) \<and> flow Q = flow P \<and> from_request Q = from_request P \<and>
     start_event Q = start_event P \<and> commitment_of Q = commitment_of P \<and>
     peer_ids P = party_ids Q \<and> knows L (party_ids P) (party_ids Q) \<and>
     our_key (secrets P) = public_key L (secret_key P) \<and> their_key (secrets P) = public_key L (secret_key Q) \<and>
     shared_secret (secrets P) = shared_secret (secrets Q) \<and>
     diffie_hellman L (secret_key P) (public_key L (secret_key Q)) = Some (shared_secret (secrets P)) \<and>
     valid_public_key L (public_key L (secret_key Q)) \<and>
     (\<forall>secret input info. check_mac L secret input info (derive_mac L secret input info)) \<and>
     (starter P \<longrightarrow> commitment_of P = calculate_commitment L (public_key L (secret_key Q)) (start_event P) \<and>
        start_event P = \<lparr>start_from_device = account_device_id (sas_account (party_ids P)), start_flow_id = flow P,
                         start_method_of = StartSasV1 (offer P)\<rparr>)"

section \<open>Steps of one device\<close>

lemma at_stage_not_timed_out:
  assumes "at_stage L t0 P acc st s" "now \<le> t0 + 60"
  shows "\<not> sas_timed_out now s"
  using assms by (auto simp: at_stage_def sas_timed_out_def MAX_AGE_def MAX_EVENT_TIMEOUT_def)

lemma peer_event_passes:
  assumes "at_stage L t0 P acc st s" "peers L P Q" "now \<le> t0 + 60"
  shows "check_event now (account_user_id (sas_account (party_ids Q))) (flow Q) s = None"
  using assms at_stage_not_timed_out [OF assms(1,3)]
  by (auto simp: check_event_def at_stage_def peers_def knows_def)

lemma peer_key_agreed:
  assumes "at_stage L t0 P acc st s" "peers L P Q" "now \<le> t0 + 60" "key_unused st"
  shows "handle_key_content L now (account_user_id (sas_account (party_ids Q))) (flow Q) (public_key L (secret_key Q)) s =
         (Inr (secrets P), s\<lparr>inner_sas := None\<rparr>)"
  using assms peer_event_passes [OF assms(1-3)] by (auto simp: handle_key_content_def at_stage_def peers_def)

lemma mac_flow_id_content [simp]: "mac_flow_id (get_mac_content L sas the_ids fl m) = fl"
  by (simp add: get_mac_content_def Let_def)

lemma peer_macs_checked:
  assumes "at_stage L t0 P acc st s" "peers L P Q" "peers L Q P" "now \<le> t0 + 60"
  shows "check_macs L now (account_user_id (sas_account (party_ids Q))) (secrets P) acc
           (get_mac_content L (secrets Q) (party_ids Q) (flow Q) (message_auth_code acc)) s =
         Inr ([other_device (party_ids P)], proven_identities (party_ids P) (peer_ids P))"
proof -
  have k: "knows L (party_ids P) (party_ids Q)" "knows L (party_ids Q) (party_ids P)"
    and ss: "shared_secret (secrets P) = shared_secret (secrets Q)"
    and law: "\<And>secret input info. check_mac L secret input info (derive_mac L secret input info)"
    and same: "peer_ids P = party_ids Q" "flow Q = flow P"
    using assms(2,3) by (auto simp: peers_def)
  show ?thesis
    using peer_event_passes [OF assms(1,2,4)] honest_macs_accepted [OF law ss k, of "flow Q"] assms(1) same
    by (simp add: check_macs_def at_stage_def)
qed

text \<open>
  A message of the other device that arrives in its turn moves the device to the next stage and makes it
  send the messages that this stage requires.
\<close>

definition acceptable :: "accepted_protocols \<Rightarrow> bool" where
  "acceptable acc \<longleftrightarrow>
     key_agreement acc = Curve25519HkdfSha256 \<and> accepted_hash acc = Sha256 \<and> Decimal \<in> set (short_auth_string acc)"

lemma mac_method_round_trip [simp]: "mac_method_try_from (mac_method_str m) = Some m"
  by (cases m) (simp_all add: mac_method_try_from_def)

lemma acceptable_round_trip:
  "acceptable acc \<Longrightarrow>
   protocols_from_accept \<lparr>accept_commitment = c, accept_hash = accepted_hash acc, accept_key_agreement = key_agreement acc,
     accept_mac = mac_method_str (message_auth_code acc), accept_sas = short_auth_string acc\<rparr> = Inr acc"
  by (simp add: protocols_from_accept_def acceptable_def KEY_AGREEMENT_PROTOCOLS_def HASHES_def)

lemma receive_at_stage:
  assumes s: "at_stage L t0 P acc st s" and p: "peers L P Q" "peers L Q P" and t: "t0 \<le> now" "now \<le> t0 + 60"
    and acc: "acceptable acc" and nxt: "after_message (starter P) (from_request P) st = Some st'"
    and m: "m = messages L Q acc ! received_count (starter P) (from_request P) st"
    and r: "receive_any_event L now txn (account_user_id (sas_account (party_ids Q))) m s = (s', r)"
  shows "at_stage L t0 P acc st' s' \<and>
    reply_messages r = segment (sent_count (starter P) (from_request P) st) (sent_count (starter P) (from_request P) st') (messages L P acc) \<and>
    received_count (starter P) (from_request P) st' = Suc (received_count (starter P) (from_request P) st)"
proof -
  note ev = peer_event_passes [OF s p(1) t(2)]
  note key = peer_key_agreed [OF s p(1) t(2)]
  note mac = peer_macs_checked [OF s p t(2)]
  have q: "starter Q = (\<not> starter P)" "flow Q = flow P" "commitment_of Q = commitment_of P"
    using p(1) by (auto simp: peers_def)
  note defs = receive_any_event_def or_cancelled_def at_stage_def stage_phase_def messages_def segment_def reply_messages_def
  show ?thesis
  proof (cases st)
    case S0
    then have st: "starter P" using nxt by (simp split: if_splits)
    have "start_content_of s (offer P) = start_event P"
      using s p(1) st by (simp add: start_content_of_def at_stage_def peers_def)
    then show ?thesis
      using s r m t nxt ev st S0 q acceptable_round_trip [OF acc]
      by (auto simp: defs into_accepted_def accept_content_def key_reply_def)
  next
    case S1
    then show ?thesis
    proof (cases "starter P")
      case True
      then show ?thesis
        using s r m t nxt S1 q key p(1)
        by (auto simp: defs accepted_into_key_received_def peers_def)
    next
      case False
      then show ?thesis
        using s r m t nxt S1 q key
        by (auto simp: defs we_accepted_into_key_received_def key_reply_def)
    qed
  next
    case S2s
    then show ?thesis
      using s r m t nxt q key p(1)
      by (auto simp: defs key_sent_into_keys_exchanged_def peers_def)
  next
    case S3
    then show ?thesis
      using s r m t nxt q mac by (cases "starter P") (auto simp: defs into_mac_received_def)
  next
    case S4c
    then show ?thesis
      using s r m t nxt q mac
      by (cases "starter P"; cases "from_request P") (auto simp: defs into_waiting_for_done_def confirmed_into_done_def)
  next
    case S5
    then show ?thesis
      using s r m t nxt q ev
      by (cases "starter P") (auto simp: defs waiting_into_done_def)
  qed (use nxt in simp_all)
qed

end
