(* ===== verification/Sas_Completion.thy ===== *)
theory Sas_Completion
  imports Sas_Exchange
begin

text \<open>
  Two honest devices complete the emoji verification: every step of the exchange keeps the description of
  both devices by their stages and brings one of them forward, and only two devices that are done have no
  further step.
\<close>

section \<open>Confirming, reporting and accepting\<close>

lemma confirm_at_stage:
  assumes "at_stage L t0 P acc st s" "can_be_presented s" "sas_confirm L s = (s', ms)"
  shows "\<exists>st'. at_stage L t0 P acc st' s' \<and> stage_rank st < stage_rank st' \<and>
    ms = segment (sent_count (starter P) (from_request P) st) (sent_count (starter P) (from_request P) st') (messages L P acc) \<and>
    sent_count (starter P) (from_request P) st \<le> sent_count (starter P) (from_request P) st' \<and>
    received_count (starter P) (from_request P) st' = received_count (starter P) (from_request P) st"
proof -
  note defs = at_stage_def stage_phase_def can_be_presented_def sas_confirm_def mac_reply_def segment_def messages_def
  have "st = S3 \<or> st = S4m"
    using assms(1,2) by (cases st) (auto simp: defs split: if_splits)
  then show ?thesis
  proof
    assume "st = S3"
    then show ?thesis using assms by (intro exI [of _ S4c]) (auto simp: defs)
  next
    assume "st = S4m"
    then show ?thesis using assms
      by (intro exI [of _ "if from_request P then S5 else S6"]) (cases "from_request P"; auto simp: defs)
  qed
qed

lemma report_at_stage:
  assumes "at_stage L t0 P acc st s" "unreported s = Some rid" "t0 \<le> now"
  shows "\<exists>st'. at_stage L t0 P acc st' (sas_mark_request_as_sent now rid s) \<and> stage_rank st < stage_rank st' \<and>
    sent_count (starter P) (from_request P) st' = sent_count (starter P) (from_request P) st \<and>
    received_count (starter P) (from_request P) st' = received_count (starter P) (from_request P) st"
proof -
  note defs = at_stage_def stage_phase_def unreported_def sas_mark_request_as_sent_def mark_request_as_sent_def
  have "st = S1 \<and> starter P \<or> st = S2r"
    using assms(1,2) by (cases st) (auto simp: defs split: if_splits)
  then show ?thesis
  proof
    assume "st = S1 \<and> starter P"
    then show ?thesis using assms by (intro exI [of _ S2s]) (auto simp: defs)
  next
    assume "st = S2r"
    then show ?thesis using assms by (intro exI [of _ S3]) (auto simp: defs)
  qed
qed

definition standard :: "accepted_protocols \<Rightarrow> bool" where
  "standard acc \<longleftrightarrow> key_agreement acc = Curve25519HkdfSha256 \<and> accepted_hash acc = Sha256"

lemma accept_at_stage:
  assumes "at_stage L t0 P acc st s" "\<not> starter P" "standard (first_accepted P)" "sas_accept methods s = Some (s', m)"
  shows "st = S0 \<and> (\<exists>acc'. acceptable acc' \<and> at_stage L t0 P acc' S1 s' \<and>
    [m] = segment 0 1 (messages L P acc'))"
proof -
  note defs = at_stage_def stage_phase_def sas_accept_def into_we_accepted_def
  have st: "st = S0" using assms by (cases st) (auto simp: defs)
  define ms where "ms = (if Decimal \<in> set methods then methods else methods @ [Decimal])"
  have "acceptable (first_accepted P\<lparr>short_auth_string := ms\<rparr>)"
    using assms(3) by (auto simp: acceptable_def standard_def ms_def)
  then show ?thesis
    using assms st
    by (intro conjI exI [of _ "first_accepted P\<lparr>short_auth_string := ms\<rparr>"])
      (auto simp: defs Let_def segment_def messages_def ms_def [symmetric])
qed

section \<open>Both devices\<close>

lemma segment_append: "i \<le> j \<Longrightarrow> j \<le> k \<Longrightarrow> segment i j xs @ segment j k xs = segment i k xs"
proof -
  assume "i \<le> j" "j \<le> k"
  have "take k xs = take j xs @ drop j (take k xs)"
    using \<open>j \<le> k\<close> by (metis append_take_drop_id min.absorb1 take_take)
  moreover have "i - length (take j xs) = 0 \<or> drop j (take k xs) = []"
    using \<open>i \<le> j\<close> by auto
  ultimately show ?thesis
    unfolding segment_def by (metis append_Nil2 drop_0 drop_append)
qed

lemma segment_Cons:
  assumes "segment i j xs = m # ms"
  shows "i < j" "i < length xs" "m = xs ! i" "ms = segment (Suc i) j xs"
proof -
  have len: "i < length (take j xs)"
    using assms unfolding segment_def by (metis drop_all list.distinct(1) not_le)
  then show "i < j" "i < length xs" by auto
  have "drop i (take j xs) = take j xs ! i # drop (Suc i) (take j xs)"
    using len by (rule Cons_nth_drop_Suc [symmetric])
  then show "m = xs ! i" "ms = segment (Suc i) j xs"
    using assms \<open>i < j\<close> by (auto simp: segment_def)
qed

lemma segment_same [simp]: "segment i i xs = []"
  by (simp add: segment_def)

definition pair_at ::
  "('sk, 'ss) sas_library \<Rightarrow> nat \<Rightarrow> ('sk, 'ss) party \<Rightarrow> ('sk, 'ss) party \<Rightarrow> accepted_protocols \<Rightarrow> stage \<Rightarrow> stage \<Rightarrow> ('sk, 'ss) sas_pair \<Rightarrow> bool" where
  "pair_at L t0 P Q acc sa sb c \<longleftrightarrow>
     acceptable acc \<and> at_stage L t0 P acc sa (alice c) \<and> at_stage L t0 Q acc sb (bob c) \<and>
     received_count True (from_request P) sa \<le> sent_count False (from_request P) sb \<and>
     received_count False (from_request P) sb \<le> sent_count True (from_request P) sa \<and>
     to_alice c = segment (received_count True (from_request P) sa) (sent_count False (from_request P) sb) (messages L Q acc) \<and>
     to_bob c = segment (received_count False (from_request P) sb) (sent_count True (from_request P) sa) (messages L P acc)"

definition honest :: "('sk, 'ss) sas_library \<Rightarrow> ('sk, 'ss) party \<Rightarrow> ('sk, 'ss) party \<Rightarrow> bool" where
  "honest L P Q \<longleftrightarrow> starter P \<and> peers L P Q \<and> peers L Q P \<and> standard (first_accepted Q)"

lemma honestD:
  assumes "honest L P Q"
  shows "starter P = True" "starter Q = False" "from_request Q = from_request P" "peers L P Q" "peers L Q P"
    "standard (first_accepted Q)"
  using assms unfolding honest_def peers_def by blast+

lemma stage_allowed:
  assumes "at_stage L t0 P acc st s"
  shows "st = S2s \<Longrightarrow> starter P" "st = S5 \<Longrightarrow> from_request P"
  using assms by (auto simp: at_stage_def stage_phase_def)

text \<open>A message that waits for a device is the one that its stage expects.\<close>

lemma alice_in_turn:
  assumes "received_count True req sa < sent_count False req sb" "received_count False req sb \<le> sent_count True req sa"
    and "sb \<noteq> S2s" "sb = S5 \<longrightarrow> req" "sa = S5 \<longrightarrow> req"
  shows "sa = S2r \<or> (\<exists>sa'. after_message True req sa = Some sa')"
  using assms by (cases sa; cases sb; cases req) simp_all

lemma bob_in_turn:
  assumes "received_count False req sb < sent_count True req sa" "received_count True req sa \<le> sent_count False req sb"
    and "sb \<noteq> S2s" "sb = S5 \<longrightarrow> req" "sa = S5 \<longrightarrow> req"
  shows "sb = S2r \<or> (\<exists>sb'. after_message False req sb = Some sb')"
  using assms by (cases sa; cases sb; cases req) simp_all

lemma after_message_rank: "after_message starts req st = Some st' \<Longrightarrow> stage_rank st < stage_rank st'"
  by (cases st) (auto split: if_splits)

lemma after_message_sent:
  "after_message starts req st = Some st' \<Longrightarrow> (st = S5 \<longrightarrow> req) \<Longrightarrow> sent_count starts req st \<le> sent_count starts req st'"
  by (cases st) (auto split: if_splits)

lemma not_deliverable:
  assumes "at_stage L t0 P acc S2r s" "peers L P Q"
  shows "\<not> deliverable (messages L Q acc ! received_count (starter P) req S2r) s"
  using assms by (auto simp: at_stage_def stage_phase_def deliverable_def messages_def peers_def)

lemma alice_receives_keeps:
  assumes h: "honest L P Q" and c: "pair_at L t0 P Q acc sa sb c" and m: "to_alice c = m # ms" "deliverable m (alice c)"
    and t: "t0 \<le> now" "now \<le> t0 + 60" and r: "receive_any_event L now txn (own_user (bob c)) m (alice c) = (a, r)"
  shows "\<exists>sa'. pair_at L t0 P Q acc sa' sb (c\<lparr>alice := a, to_alice := ms, to_bob := to_bob c @ reply_messages r\<rparr>) \<and>
    stage_rank sa < stage_rank sa'"
proof -
  let ?req = "from_request P"
  have P: "starter P" "peers L P Q" "peers L Q P" "\<not> starter Q" "from_request Q = ?req"
    using honestD [OF h] by simp_all
  have acc: "acceptable acc" and A: "at_stage L t0 P acc sa (alice c)" and B: "at_stage L t0 Q acc sb (bob c)"
    and le: "received_count False ?req sb \<le> sent_count True ?req sa"
    and ch: "to_alice c = segment (received_count True ?req sa) (sent_count False ?req sb) (messages L Q acc)"
      "to_bob c = segment (received_count False ?req sb) (sent_count True ?req sa) (messages L P acc)"
    using c by (auto simp: pair_at_def)
  note seg = segment_Cons [OF m(1) [unfolded ch]]
  have user: "own_user (bob c) = account_user_id (sas_account (party_ids Q))"
    using B by (simp add: own_user_def at_stage_def)
  have "sa \<noteq> S2r"
    using not_deliverable [of L t0 P acc "alice c" Q ?req] A P m(2) seg(3) by auto
  then obtain sa' where nxt: "after_message True ?req sa = Some sa'"
    using alice_in_turn [OF seg(1) le] stage_allowed [OF B] stage_allowed [OF A] P by blast
  have nxt': "after_message (starter P) ?req sa = Some sa'" and seg3: "m = messages L Q acc ! received_count (starter P) ?req sa"
    using nxt seg(3) P by simp_all
  note step = receive_at_stage [OF A P(2,3) t acc nxt' seg3 r [unfolded user]]
  have mono: "sent_count True ?req sa \<le> sent_count True ?req sa'"
    using after_message_sent [OF nxt] stage_allowed(2) [OF A] by blast
  show ?thesis
    using step acc B le mono seg(1,4) ch(2) P(1) after_message_rank [OF nxt] segment_append [OF le mono, of "messages L P acc"]
    by (intro exI [of _ sa']) (simp add: pair_at_def)
qed

lemma bob_receives_keeps:
  assumes h: "honest L P Q" and c: "pair_at L t0 P Q acc sa sb c" and m: "to_bob c = m # ms" "deliverable m (bob c)"
    and t: "t0 \<le> now" "now \<le> t0 + 60" and r: "receive_any_event L now txn (own_user (alice c)) m (bob c) = (b, r)"
  shows "\<exists>sb'. pair_at L t0 P Q acc sa sb' (c\<lparr>bob := b, to_bob := ms, to_alice := to_alice c @ reply_messages r\<rparr>) \<and>
    stage_rank sb < stage_rank sb'"
proof -
  let ?req = "from_request P"
  have P: "starter P" "peers L P Q" "peers L Q P" "starter Q = False" "from_request Q = ?req"
    using honestD [OF h] by simp_all
  have acc: "acceptable acc" and A: "at_stage L t0 P acc sa (alice c)" and B: "at_stage L t0 Q acc sb (bob c)"
    and le: "received_count True ?req sa \<le> sent_count False ?req sb"
    and ch: "to_bob c = segment (received_count False ?req sb) (sent_count True ?req sa) (messages L P acc)"
      "to_alice c = segment (received_count True ?req sa) (sent_count False ?req sb) (messages L Q acc)"
    using c by (auto simp: pair_at_def)
  note seg = segment_Cons [OF m(1) [unfolded ch]]
  have user: "own_user (alice c) = account_user_id (sas_account (party_ids P))"
    using A by (simp add: own_user_def at_stage_def)
  have "sb \<noteq> S2r"
    using not_deliverable [of L t0 Q acc "bob c" P ?req] B P m(2) seg(3) by auto
  then obtain sb' where nxt: "after_message False ?req sb = Some sb'"
    using bob_in_turn [OF seg(1) le] stage_allowed [OF B] stage_allowed [OF A] P by (metis (full_types))
  have nxt': "after_message (starter Q) (from_request Q) sb = Some sb'"
    and seg3: "m = messages L P acc ! received_count (starter Q) (from_request Q) sb"
    using nxt seg(3) P by simp_all
  note step = receive_at_stage [OF B P(3,2) t acc nxt' seg3 r [unfolded user]]
  have mono: "sent_count False ?req sb \<le> sent_count False ?req sb'"
    using after_message_sent [OF nxt] stage_allowed(2) [OF B] P(5) by blast
  show ?thesis
    using step acc A le mono seg(1,4) ch(2) P(4,5) after_message_rank [OF nxt] segment_append [OF le mono, of "messages L Q acc"]
    by (intro exI [of _ sb']) (simp add: pair_at_def)
qed

lemma confirms_keep:
  assumes h: "honest L P Q" and c: "pair_at L t0 P Q acc sa sb c"
  shows "can_be_presented (alice c) \<Longrightarrow> sas_confirm L (alice c) = (a, ms) \<Longrightarrow>
      \<exists>sa'. pair_at L t0 P Q acc sa' sb (c\<lparr>alice := a, to_bob := to_bob c @ ms\<rparr>) \<and> stage_rank sa < stage_rank sa'"
    and "can_be_presented (bob c) \<Longrightarrow> sas_confirm L (bob c) = (b, ms) \<Longrightarrow>
      \<exists>sb'. pair_at L t0 P Q acc sa sb' (c\<lparr>bob := b, to_alice := to_alice c @ ms\<rparr>) \<and> stage_rank sb < stage_rank sb'"
proof -
  have P: "starter P = True" "starter Q = False" "from_request Q = from_request P"
    using honestD [OF h] by simp_all
  have A: "at_stage L t0 P acc sa (alice c)" and B: "at_stage L t0 Q acc sb (bob c)"
    using c by (auto simp: pair_at_def)
  { assume "can_be_presented (alice c)" "sas_confirm L (alice c) = (a, ms)"
    from confirm_at_stage [OF A this, unfolded P] obtain sa' where "at_stage L t0 P acc sa' a" "stage_rank sa < stage_rank sa'"
      "ms = segment (sent_count True (from_request P) sa) (sent_count True (from_request P) sa') (messages L P acc)"
      "sent_count True (from_request P) sa \<le> sent_count True (from_request P) sa'"
      "received_count True (from_request P) sa' = received_count True (from_request P) sa"
      by auto
    then show "\<exists>sa'. pair_at L t0 P Q acc sa' sb (c\<lparr>alice := a, to_bob := to_bob c @ ms\<rparr>) \<and> stage_rank sa < stage_rank sa'"
      using c by (intro exI [of _ sa']) (auto simp: pair_at_def segment_append) }
  { assume "can_be_presented (bob c)" "sas_confirm L (bob c) = (b, ms)"
    from confirm_at_stage [OF B this, unfolded P] obtain sb' where "at_stage L t0 Q acc sb' b" "stage_rank sb < stage_rank sb'"
      "ms = segment (sent_count False (from_request P) sb) (sent_count False (from_request P) sb') (messages L Q acc)"
      "sent_count False (from_request P) sb \<le> sent_count False (from_request P) sb'"
      "received_count False (from_request P) sb' = received_count False (from_request P) sb"
      by auto
    then show "\<exists>sb'. pair_at L t0 P Q acc sa sb' (c\<lparr>bob := b, to_alice := to_alice c @ ms\<rparr>) \<and> stage_rank sb < stage_rank sb'"
      using c by (intro exI [of _ sb']) (auto simp: pair_at_def segment_append) }
qed

lemma reports_keep:
  assumes h: "honest L P Q" and c: "pair_at L t0 P Q acc sa sb c" and t: "t0 \<le> now"
  shows "unreported (alice c) = Some rid \<Longrightarrow>
      \<exists>sa'. pair_at L t0 P Q acc sa' sb (c\<lparr>alice := sas_mark_request_as_sent now rid (alice c)\<rparr>) \<and> stage_rank sa < stage_rank sa'"
    and "unreported (bob c) = Some rid \<Longrightarrow>
      \<exists>sb'. pair_at L t0 P Q acc sa sb' (c\<lparr>bob := sas_mark_request_as_sent now rid (bob c)\<rparr>) \<and> stage_rank sb < stage_rank sb'"
proof -
  have P: "starter P = True" "starter Q = False" "from_request Q = from_request P"
    using honestD [OF h] by simp_all
  have A: "at_stage L t0 P acc sa (alice c)" and B: "at_stage L t0 Q acc sb (bob c)"
    using c by (auto simp: pair_at_def)
  show "unreported (alice c) = Some rid \<Longrightarrow>
      \<exists>sa'. pair_at L t0 P Q acc sa' sb (c\<lparr>alice := sas_mark_request_as_sent now rid (alice c)\<rparr>) \<and> stage_rank sa < stage_rank sa'"
    using report_at_stage [OF A _ t, unfolded P] c by (fastforce simp: pair_at_def)
  show "unreported (bob c) = Some rid \<Longrightarrow>
      \<exists>sb'. pair_at L t0 P Q acc sa sb' (c\<lparr>bob := sas_mark_request_as_sent now rid (bob c)\<rparr>) \<and> stage_rank sb < stage_rank sb'"
    using report_at_stage [OF B _ t, unfolded P] c by (fastforce simp: pair_at_def)
qed

lemma accept_keeps:
  assumes h: "honest L P Q" and c: "pair_at L t0 P Q acc sa sb c" and a: "sas_accept methods (bob c) = Some (b, m)"
  shows "\<exists>acc'. pair_at L t0 P Q acc' sa S1 (c\<lparr>bob := b, to_alice := to_alice c @ [m]\<rparr>) \<and> sb = S0"
proof -
  have Q: "\<not> starter Q" "standard (first_accepted Q)" "starter P"
    using honestD [OF h] by simp_all
  have A: "at_stage L t0 P acc sa (alice c)" and B: "at_stage L t0 Q acc sb (bob c)"
    using c by (auto simp: pair_at_def)
  from accept_at_stage [OF B Q(1,2) a] obtain acc' where acc': "sb = S0" "acceptable acc'" "at_stage L t0 Q acc' S1 b"
    "[m] = segment 0 1 (messages L Q acc')" by auto
  have sa: "sa = S0" using c acc'(1) by (cases sa) (auto simp: pair_at_def)
  have "at_stage L t0 P acc' S0 (alice c)" using A sa by (simp add: at_stage_def stage_phase_def)
  then show ?thesis
    using acc' sa c by (intro exI [of _ acc']) (simp add: pair_at_def)
qed

text \<open>Every step keeps the description of the pair and brings one of the devices forward.\<close>

lemma exchange_keeps:
  assumes "exchange L t0 c c'" "honest L P Q" "pair_at L t0 P Q acc sa sb c"
  shows "\<exists>acc' sa' sb'. pair_at L t0 P Q acc' sa' sb' c' \<and> stage_rank sa + stage_rank sb < stage_rank sa' + stage_rank sb'"
  using assms
proof (cases rule: exchange.cases)
  case (bob_accepts methods b m)
  then show ?thesis using accept_keeps [OF assms(2,3)] by fastforce
next
  case (alice_receives m ms now txn a r)
  then show ?thesis using alice_receives_keeps [OF assms(2,3)] by (metis add_less_cancel_right)
next
  case (bob_receives m ms now txn b r)
  then show ?thesis using bob_receives_keeps [OF assms(2,3)] by (metis add_less_cancel_left)
next
  case (alice_reports rid now)
  then show ?thesis using reports_keep [OF assms(2,3)] by (metis add_less_cancel_right)
next
  case (bob_reports rid now)
  then show ?thesis using reports_keep [OF assms(2,3)] by (metis add_less_cancel_left)
next
  case (alice_confirms a ms)
  then show ?thesis using confirms_keep [OF assms(2,3)] by (metis add_less_cancel_right)
next
  case (bob_confirms b ms)
  then show ?thesis using confirms_keep [OF assms(2,3)] by (metis add_less_cancel_left)
qed

lemma exchanges_keep:
  assumes "(exchange L t0 ^^ n) c c'" "honest L P Q" "pair_at L t0 P Q acc sa sb c"
  shows "\<exists>acc' sa' sb'. pair_at L t0 P Q acc' sa' sb' c' \<and> n + (stage_rank sa + stage_rank sb) \<le> stage_rank sa' + stage_rank sb'"
  using assms(1)
proof (induction n arbitrary: c')
  case 0
  then show ?case using assms(3) by auto
next
  case (Suc n)
  then obtain d where "(exchange L t0 ^^ n) c d" "exchange L t0 d c'" by auto
  with Suc.IH obtain acc' sa' sb' where "pair_at L t0 P Q acc' sa' sb' d"
    "n + (stage_rank sa + stage_rank sb) \<le> stage_rank sa' + stage_rank sb'" by blast
  then show ?case using exchange_keeps [OF \<open>exchange L t0 d c'\<close> assms(2)] by fastforce
qed

section \<open>The exchange ends well\<close>

text \<open>As long as one of the devices is not done, something can happen.\<close>

lemma some_message_waits:
  assumes "sa \<in> {S0, S2s, S4c, S5, S6}" "sb \<in> {S1, S4c, S5, S6}" "\<not> (sa = S6 \<and> sb = S6)" "sa = S5 \<longrightarrow> req" "sb = S5 \<longrightarrow> req"
    and "received_count True req sa \<le> sent_count False req sb" "received_count False req sb \<le> sent_count True req sa"
  shows "received_count True req sa < sent_count False req sb \<or> received_count False req sb < sent_count True req sa"
  using assms by (cases sa; cases sb; cases req) simp_all

lemma sent_count_bound: "st = S5 \<longrightarrow> req \<Longrightarrow> sent_count (starter P) req st \<le> length (messages L P acc)"
  by (cases st) (auto simp: messages_def)

lemma segment_nonempty: "i < j \<Longrightarrow> j \<le> length xs \<Longrightarrow> \<exists>m ms. segment i j xs = m # ms"
  by (cases "segment i j xs") (auto simp: segment_def)

lemma deliverable_unless_key_received:
  assumes "at_stage L t0 P acc st s" "st \<noteq> S2r"
  shows "deliverable m s"
  using assms by (cases st; cases m) (auto simp: at_stage_def stage_phase_def deliverable_def split: if_splits)

lemma stage_acts:
  assumes "at_stage L t0 P acc st s"
  shows "st = S1 \<Longrightarrow> starter P \<Longrightarrow> \<exists>rid. unreported s = Some rid" "st = S2r \<Longrightarrow> \<exists>rid. unreported s = Some rid"
    "st = S3 \<or> st = S4m \<Longrightarrow> can_be_presented s"
    "st = S0 \<Longrightarrow> \<not> starter P \<Longrightarrow> \<exists>b m. sas_accept [] s = Some (b, m)"
  using assms by (auto simp: at_stage_def stage_phase_def unreported_def can_be_presented_def sas_accept_def into_we_accepted_def Let_def)

lemma waiting_exchange:
  assumes h: "honest L P Q" and c: "pair_at L t0 P Q acc sa sb c"
    and w: "received_count True (from_request P) sa < sent_count False (from_request P) sb \<and> sa \<noteq> S2r \<or>
            received_count False (from_request P) sb < sent_count True (from_request P) sa \<and> sb \<noteq> S2r"
  shows "\<exists>c'. exchange L t0 c c'"
proof -
  note P = honestD(1-3) [OF h]
  have A: "at_stage L t0 P acc sa (alice c)" and B: "at_stage L t0 Q acc sb (bob c)"
    using c by (auto simp: pair_at_def)
  from w show ?thesis
  proof
    assume a: "received_count True (from_request P) sa < sent_count False (from_request P) sb \<and> sa \<noteq> S2r"
    have "sent_count False (from_request P) sb \<le> length (messages L Q acc)"
      using sent_count_bound [of sb "from_request P" Q L acc] stage_allowed(2) [OF B] P by auto
    then obtain m ms where "to_alice c = m # ms" using segment_nonempty a c by (metis pair_at_def)
    then show ?thesis
      using exchange.alice_receives [of c m ms t0 t0 L] deliverable_unless_key_received [OF A] a by (metis le_add1 order_refl surj_pair)
  next
    assume b: "received_count False (from_request P) sb < sent_count True (from_request P) sa \<and> sb \<noteq> S2r"
    have "sent_count True (from_request P) sa \<le> length (messages L P acc)"
      using sent_count_bound [of sa "from_request P" P L acc] stage_allowed(2) [OF A] P by auto
    then obtain m ms where "to_bob c = m # ms" using segment_nonempty b c by (metis pair_at_def)
    then show ?thesis
      using exchange.bob_receives [of c m ms t0 t0 L] deliverable_unless_key_received [OF B] b by (metis le_add1 order_refl surj_pair)
  qed
qed

lemma stuck_only_when_done:
  assumes h: "honest L P Q" and c: "pair_at L t0 P Q acc sa sb c" and stuck: "\<not> (\<exists>c'. exchange L t0 c c')"
  shows "sa = S6 \<and> sb = S6"
proof -
  note P = honestD(1-3) [OF h]
  have A: "at_stage L t0 P acc sa (alice c)" and B: "at_stage L t0 Q acc sb (bob c)"
    and le: "received_count True (from_request P) sa \<le> sent_count False (from_request P) sb"
      "received_count False (from_request P) sb \<le> sent_count True (from_request P) sa"
    using c by (auto simp: pair_at_def)
  have "unreported (alice c) = None" "unreported (bob c) = None"
    using stuck exchange.alice_reports [of c _ t0 t0 L] exchange.bob_reports [of c _ t0 t0 L]
    by (metis le_add1 not_None_eq order_refl)+
  moreover have "\<not> can_be_presented (alice c)" "\<not> can_be_presented (bob c)"
    using stuck exchange.alice_confirms [of c L] exchange.bob_confirms [of c L] by (metis surj_pair)+
  moreover have "sas_accept [] (bob c) = None"
    using stuck exchange.bob_accepts [of "[]" c] by (metis not_None_eq surj_pair)
  ultimately have "sa \<in> {S0, S2s, S4c, S5, S6}" "sb \<in> {S1, S4c, S5, S6}"
    using stage_acts [OF A] stage_acts [OF B] stage_allowed [OF B] P by (cases sa; cases sb; auto)+
  then show ?thesis
    using some_message_waits [of sa sb "from_request P"] stage_allowed(2) [OF A] stage_allowed(2) [OF B] le P
      waiting_exchange [OF h c] stuck by auto
qed

lemma presented_strings_agree:
  assumes h: "honest L P Q" and c: "pair_at L t0 P Q acc sa sb c" and v: "can_be_presented (alice c)" "can_be_presented (bob c)"
  shows "view_of L (alice c) = view_of L (bob c)"
proof -
  have A: "at_stage L t0 P acc sa (alice c)" and B: "at_stage L t0 Q acc sb (bob c)"
    using c by (auto simp: pair_at_def)
  have k: "knows L (party_ids P) (party_ids Q)" "knows L (party_ids Q) (party_ids P)"
    and es: "our_key (secrets P) = their_key (secrets Q)" "their_key (secrets P) = our_key (secrets Q)"
      "shared_secret (secrets P) = shared_secret (secrets Q)" and fl: "flow Q = flow P"
    using honestD(4,5) [OF h] unfolding peers_def by simp_all
  note info = same_extra_info [OF k, of "our_key (secrets P)" "their_key (secrets P)" "flow_id_str (flow P)"]
  have "phase (alice c) = KeysExchanged (secrets P) True acc \<or> (\<exists>d t. phase (alice c) = MacReceived (secrets P) True d t acc)"
    using A v(1) honestD(1) [OF h] by (cases sa) (auto simp: at_stage_def stage_phase_def can_be_presented_def split: if_splits)
  moreover have "phase (bob c) = KeysExchanged (secrets Q) False acc \<or> (\<exists>d t. phase (bob c) = MacReceived (secrets Q) False d t acc)"
    using B v(2) honestD(2) [OF h] by (cases sb) (auto simp: at_stage_def stage_phase_def can_be_presented_def split: if_splits)
  moreover have "ids (alice c) = party_ids P" "ids (bob c) = party_ids Q" "verification_flow_id (alice c) = flow P"
    "verification_flow_id (bob c) = flow P"
    using A B fl by (auto simp: at_stage_def)
  ultimately show ?thesis
    using info es by (auto simp: view_of_def presented_def supports_emoji_def get_emoji_index_def get_emoji_def get_decimal_def)
qed

definition exchange_works :: "('sk, 'ss) sas_library \<Rightarrow> 'sk \<Rightarrow> 'sk \<Rightarrow> bool" where
  "exchange_works L sk sk' \<longleftrightarrow>
     (\<exists>secret. diffie_hellman L sk (public_key L sk') = Some secret \<and> diffie_hellman L sk' (public_key L sk) = Some secret) \<and>
     valid_public_key L (public_key L sk) \<and> valid_public_key L (public_key L sk') \<and>
     (\<forall>secret input info. check_mac L secret input info (derive_mac L secret input info))"

lemma protocols_from_start_standard: "protocols_from_start p = Inr acc \<Longrightarrow> standard acc"
  by (auto simp: protocols_from_start_def standard_def split: if_splits option.splits)

lemma initial_pair_honest:
  assumes i: "initial_pair L sk sk' t0 x y fl req strings = Some c" and k: "knows L x y" "knows L y x" and e: "exchange_works L sk sk'"
    and acc: "acceptable acc"
  shows "\<exists>P Q. honest L P Q \<and> pair_at L t0 P Q acc S0 S0 c \<and> party_ids P = x \<and> party_ids Q = y \<and> peer_ids P = y \<and> peer_ids Q = x"
proof -
  obtain secret where dh: "diffie_hellman L sk (public_key L sk') = Some secret" "diffie_hellman L sk' (public_key L sk) = Some secret"
    using e by (auto simp: exchange_works_def)
  define start where "start = \<lparr>start_from_device = account_device_id (sas_account x), start_flow_id = fl,
    start_method_of = StartSasV1 (the_protocol_definitions strings)\<rparr>"
  obtain fa where fa: "protocols_from_start (the_protocol_definitions strings) = Inr fa"
    using i by (cases "protocols_from_start (the_protocol_definitions strings)")
      (auto simp: initial_pair_def sas_start_def sas_created_def start_content_of_def sas_from_start_event_def Let_def)
  define party_of where "party_of st s s' a b =
    \<lparr>starter = st, secret_key = s, party_ids = a, peer_ids = b,
     secrets = \<lparr>shared_secret = secret, our_key = public_key L s, their_key = public_key L s'\<rparr>, flow = fl, from_request = req,
     offer = the_protocol_definitions strings, first_accepted = fa, start_event = start,
     commitment_of = calculate_commitment L (public_key L sk') start\<rparr>" for st s s' a b
  let ?P = "party_of True sk sk' x y" and ?Q = "party_of False sk' sk y x"
  have "honest L ?P ?Q"
    using k e dh fa protocols_from_start_standard [OF fa]
    by (simp add: honest_def peers_def party_of_def exchange_works_def start_def)
  moreover have "pair_at L t0 ?P ?Q acc S0 S0 c"
    using i acc fa
    by (auto simp: initial_pair_def sas_start_def sas_created_def start_content_of_def sas_from_start_event_def Let_def
      pair_at_def at_stage_def stage_phase_def party_of_def start_def)
  ultimately show ?thesis by (intro exI [of _ ?P] exI [of _ ?Q]) (simp add: party_of_def)
qed

lemma stage_rank_bound: "stage_rank st \<le> 6"
  by (cases st) simp_all


definition toy_pair :: "(u8, u8) sas_pair" where
  "toy_pair = the (initial_pair toy_library 3 5 0 alice_ids bob_ids (ToDevice ''flow'') True None)"

lemma toy_pair_begins: "initial_pair toy_library 3 5 0 alice_ids bob_ids (ToDevice ''flow'') True None = Some toy_pair"
proof -
  have "initial_pair toy_library 3 5 0 alice_ids bob_ids (ToDevice ''flow'') True None \<noteq> None"
    by (simp add: initial_pair_def sas_start_def sas_created_def start_content_of_def sas_from_start_event_def Let_def
      the_protocol_definitions_def protocols_from_start_def KEY_AGREEMENT_PROTOCOLS_def HASHES_def STRINGS_def
      mac_method_try_from_def map_filter_def choose_mac_method_def)
  then show ?thesis by (auto simp: toy_pair_def)
qed

lemma toy_knows: "knows toy_library alice_ids bob_ids" "knows toy_library bob_ids alice_ids"
  by (simp_all add: knows_def alice_ids_def bob_ids_def toy_device_def toy_account_def toy_library_def sent_master_key_def)

lemma toy_exchange_works: "exchange_works toy_library 3 5"
  by (simp add: exchange_works_def toy_library_def)


end
