(* ===== verification/Sas_Marking.thy ===== *)
theory Sas_Marking
  imports Sas_Safety
begin

text \<open>
  What happens when a verification is done: \<open>IdentitiesBeingVerified::mark_as_done\<close> of
  \<open>verification/mod.rs\<close> marks the verified device and identity in the crypto store and signs them, if
  the store still has them with the same keys; \<open>Sas::confirm\<close> and \<open>mark_sas_as_done\<close> call it. The crypto
  store is a record of operations, with the memory store as an instance, and the private keys are a
  record of signing functions.
\<close>

section \<open>Stores and keys\<close>

type_synonym device_store = "(string, (string, device_data) btree) btree"

definition device_store_add :: "device_data \<Rightarrow> device_store \<Rightarrow> bool \<times> device_store" where
  "device_store_add d entries =
     (let devices = (case map_of entries (device_user_id d) of Some m \<Rightarrow> m | None \<Rightarrow> [])
      in (map_of devices (device_device_id d) = None,
          btree_insert (device_user_id d) (btree_insert (device_device_id d) d devices) entries))"

definition device_store_get :: "string \<Rightarrow> string \<Rightarrow> device_store \<Rightarrow> device_data option" where
  "device_store_get user device entries =
     (case map_of entries user of None \<Rightarrow> None | Some devices \<Rightarrow> map_of devices device)"

record gossip_request =
  request_recipient :: string
  gossip_secret :: string
  sent_out :: bool

record changes =
  changed_devices :: "device_data list"
  changed_identities :: "user_identity list"
  key_requests :: "gossip_request list"

record ('s, 'e) crypto_store_ops =
  op_get_device :: "string \<Rightarrow> string \<Rightarrow> 's \<Rightarrow> 'e + device_data option"
  op_get_user_identity :: "string \<Rightarrow> 's \<Rightarrow> 'e + user_identity option"
  op_has_decryption_key :: "'s \<Rightarrow> 'e + bool"
  op_save_changes :: "changes \<Rightarrow> 's \<Rightarrow> ('e + unit) \<times> 's"

text \<open>The part of the memory store that is read and written here. An identity is kept as its value.\<close>

record memory_crypto_store =
  mem_devices :: device_store
  mem_identities :: "(string, user_identity) btree"
  mem_decryption_key :: bool
  mem_key_requests :: "gossip_request list"

definition memory_get_device :: "string \<Rightarrow> string \<Rightarrow> memory_crypto_store \<Rightarrow> device_data option" where
  "memory_get_device user device st = device_store_get user device (mem_devices st)"

definition memory_get_user_identity :: "string \<Rightarrow> memory_crypto_store \<Rightarrow> user_identity option" where
  "memory_get_user_identity user st = map_of (mem_identities st) user"

definition memory_save_devices :: "device_data list \<Rightarrow> device_store \<Rightarrow> device_store" where
  "memory_save_devices ds entries = fold (\<lambda>d entries. snd (device_store_add d entries)) ds entries"

definition memory_save_changes :: "changes \<Rightarrow> memory_crypto_store \<Rightarrow> memory_crypto_store" where
  "memory_save_changes ch st =
     st\<lparr>mem_devices := memory_save_devices (changed_devices ch) (mem_devices st),
        mem_identities := fold (\<lambda>t m. btree_insert (identity_user_id t) t m) (changed_identities ch) (mem_identities st),
        mem_key_requests := mem_key_requests st @ key_requests ch\<rparr>"

definition memory_crypto_ops :: "(memory_crypto_store, 'e) crypto_store_ops" where
  "memory_crypto_ops =
     \<lparr>op_get_device = \<lambda>user device st. Inr (memory_get_device user device st),
      op_get_user_identity = \<lambda>user st. Inr (memory_get_user_identity user st),
      op_has_decryption_key = \<lambda>st. Inr (mem_decryption_key st),
      op_save_changes = \<lambda>ch st. (Inr (), memory_save_changes ch st)\<rparr>"

text \<open>The private keys of our user: signing can fail, and some secrets may be missing.\<close>

type_synonym 'sig signed_keys = "(string, 'sig) btree"

record 'sig private_identity =
  private_user_id :: string
  sign_device :: "device_data \<Rightarrow> string + 'sig signed_keys"
  sign_user :: "user_identity \<Rightarrow> string + 'sig signed_keys"
  missing_secrets :: "string list"

text \<open>The store as a verification sees it: the own device is never returned.\<close>

definition verification_get_device ::
  "('s, 'e) crypto_store_ops \<Rightarrow> static_account_data \<Rightarrow> string \<Rightarrow> string \<Rightarrow> 's \<Rightarrow> 'e + device_data option" where
  "verification_get_device ops account user device st =
     (case op_get_device ops user device st of
        Inl e \<Rightarrow> Inl e
      | Inr None \<Rightarrow> Inr None
      | Inr (Some d) \<Rightarrow>
          Inr (if device_user_id d = account_user_id account \<and> device_device_id d = account_device_id account
               then None else Some d))"

section \<open>Marking\<close>

datatype 'sig verification_result =
    VerificationOk
  | VerificationCancel cancel_code
  | SignatureUpload "'sig signed_keys"

definition device_eq :: "device_data \<Rightarrow> device_data \<Rightarrow> bool" where
  "device_eq d d' \<longleftrightarrow> device_user_id d = device_user_id d' \<and> device_device_id d = device_device_id d'"

definition mark_device_as_verified ::
  "('s, 'e) crypto_store_ops \<Rightarrow> sas_ids \<Rightarrow> device_data list option \<Rightarrow> 's \<Rightarrow> 'e + device_data option" where
  "mark_device_as_verified ops being verified st =
     (let other = other_device being in
      case verification_get_device ops (sas_account being) (device_user_id other) (device_device_id other) st of
        Inl e \<Rightarrow> Inl e
      | Inr None \<Rightarrow> Inr None
      | Inr (Some d) \<Rightarrow>
          if device_keys d \<noteq> device_keys other then Inr None
          else if (case verified of None \<Rightarrow> False | Some ds \<Rightarrow> list_ex (\<lambda>v. device_eq v d) ds)
          then Inr (Some (d\<lparr>trust_state := TrustVerified\<rparr>))
          else Inr None)"

definition same_master_key :: "user_identity \<Rightarrow> user_identity \<Rightarrow> bool" where
  "same_master_key t t' \<longleftrightarrow> identity_user_id t = identity_user_id t' \<and> master_keys t = master_keys t'"

definition mark_identity_as_verified ::
  "('s, 'e) crypto_store_ops \<Rightarrow> sas_ids \<Rightarrow> user_identity list option \<Rightarrow> 's \<Rightarrow> 'e + user_identity option \<times> bool" where
  "mark_identity_as_verified ops being verified st =
     (case other_identity being of
        None \<Rightarrow> Inr (None, False)
      | Some expected \<Rightarrow>
          (case op_get_user_identity ops (device_user_id (other_device being)) st of
             Inl e \<Rightarrow> Inl e
           | Inr None \<Rightarrow> Inr (None, False)
           | Inr (Some t) \<Rightarrow>
               if \<not> same_master_key expected t then Inr (None, False)
               else if (case verified of None \<Rightarrow> False
                        | Some ts \<Rightarrow> list_ex (\<lambda>v. identity_user_id v = identity_user_id t) ts)
               then (case identity_kind_of t of
                       OwnIdentity _ \<Rightarrow> Inr (Some (t\<lparr>identity_kind_of := OwnIdentity OwnVerified\<rparr>), True)
                     | OtherIdentity \<Rightarrow> Inr (Some t, False))
               else Inr (None, False)))"

definition request_missing_secrets ::
  "('s, 'e) crypto_store_ops \<Rightarrow> 'sig private_identity \<Rightarrow> 's \<Rightarrow> 'e + gossip_request list" where
  "request_missing_secrets ops priv st =
     (case op_has_decryption_key ops st of
        Inl e \<Rightarrow> Inl e
      | Inr has_key \<Rightarrow>
          Inr (map (\<lambda>n. \<lparr>request_recipient = private_user_id priv, gossip_secret = n, sent_out = False\<rparr>)
                 (missing_secrets priv @ (if has_key then [] else [''m.megolm_backup.v1'']))))"

definition signature_of_device :: "'sig private_identity \<Rightarrow> device_data option \<Rightarrow> 'sig signed_keys option" where
  "signature_of_device priv device =
     (case device of
        None \<Rightarrow> None
      | Some d \<Rightarrow>
          if device_user_id d = private_user_id priv
          then (case sign_device priv d of Inr r \<Rightarrow> Some r | Inl _ \<Rightarrow> None)
          else None)"

definition signature_of_identity :: "'sig private_identity \<Rightarrow> user_identity option \<Rightarrow> 'sig signed_keys option" where
  "signature_of_identity priv identity =
     (case identity of
        None \<Rightarrow> None
      | Some t \<Rightarrow>
          (case identity_kind_of t of
             OwnIdentity _ \<Rightarrow> None
           | OtherIdentity \<Rightarrow> (case sign_user priv t of Inr r \<Rightarrow> Some r | Inl _ \<Rightarrow> None)))"

definition merge_signatures :: "'sig signed_keys option \<Rightarrow> 'sig signed_keys option \<Rightarrow> 'sig signed_keys option" where
  "merge_signatures r r' =
     (case r of
        None \<Rightarrow> r'
      | Some keys \<Rightarrow> Some (case r' of None \<Rightarrow> keys | Some keys' \<Rightarrow> fold (\<lambda>(k, v) m. btree_insert k v m) keys' keys))"

definition mark_as_done ::
  "('s, 'e) crypto_store_ops \<Rightarrow> 'sig private_identity \<Rightarrow> sas_ids \<Rightarrow> device_data list option \<Rightarrow> user_identity list option \<Rightarrow> 's
   \<Rightarrow> ('e + 'sig verification_result) \<times> 's" where
  "mark_as_done ops priv being devices identities st =
     (case mark_device_as_verified ops being devices st of
        Inl e \<Rightarrow> (Inl e, st)
      | Inr device \<Rightarrow>
          (case mark_identity_as_verified ops being identities st of
             Inl e \<Rightarrow> (Inl e, st)
           | Inr (identity, should_request_secrets) \<Rightarrow>
               if device = None \<and> identity = None then (Inr (VerificationCancel KeyMismatch), st)
               else
                 (case (if should_request_secrets then request_missing_secrets ops priv st else Inr []) of
                    Inl e \<Rightarrow> (Inl e, st)
                  | Inr requests \<Rightarrow>
                      (case op_save_changes ops \<lparr>changed_devices = (case device of None \<Rightarrow> [] | Some d \<Rightarrow> [d]),
                              changed_identities = (case identity of None \<Rightarrow> [] | Some t \<Rightarrow> [t]), key_requests = requests\<rparr> st of
                         (Inl e, st') \<Rightarrow> (Inl e, st')
                       | (Inr _, st') \<Rightarrow>
                           (Inr (case merge_signatures (signature_of_device priv device) (signature_of_identity priv identity) of
                                   Some r \<Rightarrow> SignatureUpload r
                                 | None \<Rightarrow> VerificationOk), st')))))"

definition sas_mark_as_done ::
  "('s, 'e) crypto_store_ops \<Rightarrow> 'sig private_identity \<Rightarrow> ('sk, 'ss) sas_state \<Rightarrow> 's \<Rightarrow> ('e + 'sig verification_result) \<times> 's" where
  "sas_mark_as_done ops priv s st = mark_as_done ops priv (ids s) (verified_devices s) (verified_identities s) st"

definition sas_is_done :: "('sk, 'ss) sas_state \<Rightarrow> bool" where
  "sas_is_done s = (case phase s of SasDone _ _ _ _ \<Rightarrow> True | _ \<Rightarrow> False)"

text \<open>The call by which the user confirms: the messages to send, and signatures to upload.\<close>

definition sas_user_confirm ::
  "('sk, 'ss) sas_library \<Rightarrow> ('s, 'e) crypto_store_ops \<Rightarrow> 'sig private_identity \<Rightarrow> ('sk, 'ss) sas_state \<Rightarrow> 's
   \<Rightarrow> ('e + verification_content list \<times> 'sig signed_keys option) \<times> ('sk, 'ss) sas_state \<times> 's" where
  "sas_user_confirm L ops priv s st =
     (case sas_confirm L s of
        (s, contents) \<Rightarrow>
          if sas_is_done s then
            (case sas_mark_as_done ops priv s st of
               (Inl e, st) \<Rightarrow> (Inl e, s, st)
             | (Inr (VerificationCancel c), st) \<Rightarrow>
                 (case sas_cancel True c s of
                    (s, content) \<Rightarrow> (Inr (case content of None \<Rightarrow> [] | Some m \<Rightarrow> [m], None), s, st))
             | (Inr VerificationOk, st) \<Rightarrow> (Inr (contents, None), s, st)
             | (Inr (SignatureUpload r), st) \<Rightarrow> (Inr (contents, Some r), s, st))
          else (Inr (contents, None), s, st))"

text \<open>The machine when an event has completed a verification: what it queues to be sent.\<close>

definition mark_sas_as_done ::
  "('s, 'e) crypto_store_ops \<Rightarrow> 'sig private_identity \<Rightarrow> ('sk, 'ss) sas_state \<Rightarrow> verification_content option \<Rightarrow> 's
   \<Rightarrow> ('e + verification_content list \<times> 'sig signed_keys option) \<times> ('sk, 'ss) sas_state \<times> 's" where
  "mark_sas_as_done ops priv s out_content st =
     (let queued = (case out_content of None \<Rightarrow> [] | Some m \<Rightarrow> [m]) in
      case sas_mark_as_done ops priv s st of
        (Inl e, st) \<Rightarrow> (Inl e, s, st)
      | (Inr VerificationOk, st) \<Rightarrow> (Inr (queued, None), s, st)
      | (Inr (VerificationCancel c), st) \<Rightarrow>
          (case sas_cancel True c s of
             (s, content) \<Rightarrow> (Inr (case content of None \<Rightarrow> [] | Some m \<Rightarrow> [m], None), s, st))
      | (Inr (SignatureUpload r), st) \<Rightarrow> (Inr (queued, Some r), s, st))"

section \<open>The memory store\<close>

definition device_store_ok :: "device_store \<Rightarrow> bool" where
  "device_store_ok entries \<longleftrightarrow>
     btree_ok entries \<and> (\<forall>devices \<in> snd ` set entries. btree_ok devices) \<and>
     (\<forall>user device d. device_store_get user device entries = Some d \<longrightarrow> device_user_id d = user \<and> device_device_id d = device)"

lemma user_devices_ok:
  "device_store_ok entries \<Longrightarrow> btree_ok (case map_of entries user of Some m \<Rightarrow> m | None \<Rightarrow> [])"
  by (force simp: device_store_ok_def btree_ok_def dest: map_of_SomeD split: option.splits)

lemma device_store_get_add:
  assumes "device_store_ok entries"
  shows "device_store_get user device (snd (device_store_add d entries)) =
    (if user = device_user_id d \<and> device = device_device_id d then Some d else device_store_get user device entries)"
proof -
  have "btree_ok entries" using assms by (simp add: device_store_ok_def)
  then show ?thesis
    using user_devices_ok [OF assms, of "device_user_id d"]
    by (auto simp: device_store_get_def device_store_add_def Let_def split: option.splits)
qed

lemma device_store_add_ok:
  assumes "device_store_ok entries"
  shows "device_store_ok (snd (device_store_add d entries))"
proof -
  have "btree_ok entries" and inner: "\<forall>devices \<in> snd ` set entries. btree_ok devices" using assms by (auto simp: device_store_ok_def)
  have "set (btree_insert k v m) \<subseteq> insert (k, v) (set m)" for k :: string and v :: "(string, device_data) btree" and m
    by (induction k v m rule: btree_insert.induct) auto
  then have "snd ` set (btree_insert (device_user_id d) v entries) \<subseteq> insert v (snd ` set entries)" for v
    by fastforce
  then have "\<forall>devices \<in> snd ` set (snd (device_store_add d entries)). btree_ok devices"
    using inner user_devices_ok [OF assms, of "device_user_id d"] by (fastforce simp: device_store_add_def Let_def)
  moreover have "btree_ok (snd (device_store_add d entries))"
    using \<open>btree_ok entries\<close> by (simp add: device_store_add_def Let_def)
  ultimately show ?thesis
    using assms device_store_get_add [OF assms, of _ _ d] by (auto simp: device_store_ok_def split: if_splits)
qed

text \<open>What \<open>add\<close> returns: whether the device was new, not whether it was in the store already.\<close>

lemma device_store_add_returns_new:
  "fst (device_store_add d entries) \<longleftrightarrow> device_store_get (device_user_id d) (device_device_id d) entries = None"
  by (simp add: device_store_add_def device_store_get_def Let_def split: option.split)

lemma memory_crypto_ops_simps [simp]:
  "op_get_device memory_crypto_ops user device st = Inr (memory_get_device user device st)"
  "op_get_user_identity memory_crypto_ops user st = Inr (memory_get_user_identity user st)"
  "op_has_decryption_key memory_crypto_ops st = Inr (mem_decryption_key st)"
  "op_save_changes memory_crypto_ops ch st = (Inr (), memory_save_changes ch st)"
  by (simp_all add: memory_crypto_ops_def)

section \<open>What is marked\<close>

lemma mark_device_as_verified_Some:
  assumes "mark_device_as_verified memory_crypto_ops being verified st = Inr (Some d')"
  shows "\<exists>d. memory_get_device (device_user_id (other_device being)) (device_device_id (other_device being)) st = Some d \<and>
    d' = d\<lparr>trust_state := TrustVerified\<rparr> \<and> device_keys d = device_keys (other_device being) \<and>
    (\<exists>v ds. verified = Some (v # ds))"
proof -
  have "verified \<noteq> Some [] \<and> verified \<noteq> None"
    using assms by (auto simp: mark_device_as_verified_def Let_def split: sum.splits option.splits if_splits)
  then have "\<exists>v ds. verified = Some (v # ds)" by (metis neq_Nil_conv not_None_eq)
  then show ?thesis
    using assms
    by (auto simp: mark_device_as_verified_def Let_def verification_get_device_def
      split: option.splits if_splits)
qed

lemma mark_as_done_devices:
  assumes "mark_as_done memory_crypto_ops priv being devices identities st = (r :: 'e + 'sig verification_result, st')"
  shows "mem_devices st' = mem_devices st \<or>
    (\<exists>d. mark_device_as_verified memory_crypto_ops being devices st = (Inr (Some d) :: 'e + device_data option) \<and>
       mem_devices st' = snd (device_store_add d (mem_devices st)))"
  using assms
  by (auto simp: mark_as_done_def memory_save_changes_def memory_save_devices_def
    split: sum.splits option.splits prod.splits if_splits)

lemma mark_identity_answers:
  "\<not> isl (mark_identity_as_verified memory_crypto_ops being verified st :: 'e + user_identity option \<times> bool)"
  by (cases "other_identity being"; cases "memory_get_user_identity (device_user_id (other_device being)) st";
      cases "identity_kind_of (the (memory_get_user_identity (device_user_id (other_device being)) st))")
    (simp_all add: mark_identity_as_verified_def)

text \<open>
  The other direction: a device that the verification proved and that the store still has with the
  same keys is marked, unless it is the own device.
\<close>

lemma proven_device_marked:
  assumes ph: "phase s = SasDone sas (v # ds) ts acc" and v: "device_eq v (other_device (ids s))"
    and st: "memory_get_device (other_user s) (device_device_id (other_device (ids s))) st = Some d"
      "device_keys d = device_keys (other_device (ids s))" "device_store_ok (mem_devices st)"
    and own: "\<not> (other_user s = account_user_id (sas_account (ids s)) \<and>
      device_device_id (other_device (ids s)) = account_device_id (sas_account (ids s)))"
  shows "\<exists>r st'. sas_mark_as_done memory_crypto_ops priv s st = (Inr r :: 'e + 'sig verification_result, st') \<and> (\<forall>c. r \<noteq> VerificationCancel c) \<and>
    memory_get_device (other_user s) (device_device_id (other_device (ids s))) st' = Some (d\<lparr>trust_state := TrustVerified\<rparr>)"
proof -
  have who: "device_user_id d = other_user s" "device_device_id d = device_device_id (other_device (ids s))"
    using st(1,3) by (auto simp: memory_get_device_def device_store_ok_def)
  have m: "mark_device_as_verified memory_crypto_ops (ids s) (verified_devices s) st =
      (Inr (Some (d\<lparr>trust_state := TrustVerified\<rparr>)) :: 'e + device_data option)"
    using ph v st(1,2) own who
    by (auto simp: mark_device_as_verified_def Let_def verification_get_device_def other_user_def verified_devices_def device_eq_def)
  obtain t b where i: "mark_identity_as_verified memory_crypto_ops (ids s) (verified_identities s) st =
      (Inr (t, b) :: 'e + user_identity option \<times> bool)"
    using mark_identity_answers by (metis sum.collapse(2) surj_pair)
  obtain reqs where q: "(if b then request_missing_secrets memory_crypto_ops priv st else Inr []) =
      (Inr reqs :: 'e + gossip_request list)"
    by (cases b) (auto simp: request_missing_secrets_def)
  have g: "device_store_get (other_user s) (device_device_id (other_device (ids s)))
      (snd (device_store_add (d\<lparr>trust_state := TrustVerified\<rparr>) (mem_devices st))) = Some (d\<lparr>trust_state := TrustVerified\<rparr>)"
    using device_store_get_add [OF st(3)] who by simp
  show ?thesis
    using m i q g
    by (auto simp: sas_mark_as_done_def mark_as_done_def memory_save_changes_def memory_save_devices_def memory_get_device_def
      split: option.split)
qed

text \<open>
  When nothing could be marked, the verification is to be cancelled; but it is done by then, and
  cancelling it does nothing. The other side gets neither the MAC nor a cancellation.
\<close>

lemma failed_marking_not_reported:
  assumes "sas_is_done (fst (sas_confirm L s))"
    and "sas_mark_as_done ops priv (fst (sas_confirm L s)) st = (Inr (VerificationCancel c), st')"
  shows "sas_user_confirm L ops priv s st = (Inr ([], None), fst (sas_confirm L s), st')"
  using assms by (cases "sas_confirm L s") (auto simp: sas_user_confirm_def sas_is_done_def sas_cancel_def split: sas_phase.splits)


definition alice_store :: memory_crypto_store where
  "alice_store = \<lparr>mem_devices = [(''@b'', [(''B'', toy_device ''@b'' ''B'')])], mem_identities = [], mem_decryption_key = True,
     mem_key_requests = []\<rparr>"

definition alice_private :: "unit private_identity" where
  "alice_private = \<lparr>private_user_id = ''@a'', sign_device = \<lambda>d. Inl ''missing'', sign_user = \<lambda>t. Inl ''missing'', missing_secrets = []\<rparr>"

lemma alice_store_ok: "device_store_ok (mem_devices alice_store)"
  by (auto simp: device_store_ok_def alice_store_def btree_ok_def device_store_get_def toy_device_def split: if_splits)

lemma alice_is_done: "sas_is_done (sas_run toy_library alice_inputs alice_start)"
  by (simp add: sas_is_done_def alice_done)

lemma alice_marks:
  "sas_mark_as_done memory_crypto_ops alice_private (sas_run toy_library alice_inputs alice_start) alice_store =
     (Inr VerificationOk :: string + unit verification_result,
      alice_store\<lparr>mem_devices := [(''@b'', [(''B'', (toy_device ''@b'' ''B'')\<lparr>trust_state := TrustVerified\<rparr>)])]\<rparr>)"
proof -
  have "ids (sas_run toy_library alice_inputs alice_start) = alice_ids"
    using run_keeps_inv [OF alice_begins, of alice_inputs]
    by (simp add: sas_inv_def same_parties_def alice_start_def sas_start_def sas_created_def Let_def)
  then show ?thesis
    by (simp add: sas_mark_as_done_def mark_as_done_def verified_devices_def verified_identities_def alice_done
      mark_device_as_verified_def verification_get_device_def mark_identity_as_verified_def alice_ids_def toy_device_def
      toy_account_def memory_get_device_def device_store_get_def alice_store_def device_eq_def memory_save_changes_def
      memory_save_devices_def device_store_add_def merge_signatures_def signature_of_device_def signature_of_identity_def
      alice_private_def)
qed


end
