(* ===== verification/Verification_Cache.thy ===== *)
theory Verification_Cache
  imports Sas_Marking
begin

text \<open>
  The verifications in progress and the requests they want to send (\<open>verification/cache.rs\<close>), and how
  the machine hands events to them (\<open>verification/machine.rs\<close>), in a build without QR codes and without
  the requests that may precede a verification. Objects that share the state of a verification in the
  code are its entry in the cache here. Fresh transaction identifiers come from a supply, with a counter
  in the state.
\<close>

section \<open>The cache\<close>

datatype outgoing_content = OutToDevice verification_content | OutRoom string verification_content

datatype 'sig outgoing_request =
    ToDeviceRequest string string verification_content
  | RoomMessageRequest string verification_content
  | SignatureUploadRequest "'sig signed_keys"

record ('sk, 'ss, 'sig) verification_cache =
  verification :: "(string, (string, ('sk, 'ss) sas_state) btree) btree"
  outgoing_requests :: "(string, 'sig outgoing_request) btree"
  flow_ids_waiting_for_response :: "(string, string \<times> flow_id) btree"
  next_txn :: nat

definition verification_cache_new :: "('sk, 'ss, 'sig) verification_cache" where
  "verification_cache_new =
     \<lparr>verification = [], outgoing_requests = [], flow_ids_waiting_for_response = [], next_txn = 0\<rparr>"

definition outgoing_of :: "flow_id \<Rightarrow> verification_content \<Rightarrow> outgoing_content" where
  "outgoing_of flow content = (case flow of ToDevice _ \<Rightarrow> OutToDevice content | InRoom room _ \<Rightarrow> OutRoom room content)"

definition sas_finished :: "('sk, 'ss) sas_state \<Rightarrow> bool" where
  "sas_finished s = (case phase s of SasDone _ _ _ _ \<Rightarrow> True | Cancelled _ _ \<Rightarrow> True | _ \<Rightarrow> False)"

definition sas_is_cancelled :: "('sk, 'ss) sas_state \<Rightarrow> bool" where
  "sas_is_cancelled s = (case phase s of Cancelled _ _ \<Rightarrow> True | _ \<Rightarrow> False)"

definition request_of :: "('sk, 'ss) sas_state \<Rightarrow> verification_content \<Rightarrow> 'sig outgoing_request" where
  "request_of s content =
     (case outgoing_of (verification_flow_id s) content of
        OutToDevice c \<Rightarrow> ToDeviceRequest (other_user s) (device_device_id (other_device (ids s))) c
      | OutRoom room c \<Rightarrow> RoomMessageRequest room c)"

definition user_verifications ::
  "string \<Rightarrow> ('sk, 'ss, 'sig) verification_cache \<Rightarrow> (string, ('sk, 'ss) sas_state) btree" where
  "user_verifications user c = (case map_of (verification c) user of Some m \<Rightarrow> m | None \<Rightarrow> [])"

text \<open>A new request under a fresh identifier.\<close>

definition add_request ::
  "(nat \<Rightarrow> string) \<Rightarrow> 'sig outgoing_request \<Rightarrow> ('sk, 'ss, 'sig) verification_cache \<Rightarrow> ('sk, 'ss, 'sig) verification_cache" where
  "add_request gen r c =
     c\<lparr>outgoing_requests := btree_insert (gen (next_txn c)) r (outgoing_requests c), next_txn := Suc (next_txn c)\<rparr>"

definition add_cancellation ::
  "(nat \<Rightarrow> string) \<Rightarrow> ('sk, 'ss) sas_state \<Rightarrow> verification_content option \<Rightarrow> ('sk, 'ss, 'sig) verification_cache
   \<Rightarrow> ('sk, 'ss, 'sig) verification_cache" where
  "add_cancellation gen s content c =
     (case content of None \<Rightarrow> c | Some m \<Rightarrow> add_request gen (request_of s m) c)"

fun cancel_old_verifications ::
  "(nat \<Rightarrow> string) \<Rightarrow> (string, ('sk, 'ss) sas_state) btree \<Rightarrow> ('sk, 'ss) sas_state \<Rightarrow> ('sk, 'ss, 'sig) verification_cache
   \<Rightarrow> (string, ('sk, 'ss) sas_state) btree \<times> ('sk, 'ss) sas_state \<times> ('sk, 'ss, 'sig) verification_cache" where
  "cancel_old_verifications gen [] new c = ([], new, c)"
| "cancel_old_verifications gen ((k, old) # rest) new c =
     (if sas_is_cancelled old then
        (case cancel_old_verifications gen rest new c of (rest, new, c) \<Rightarrow> ((k, old) # rest, new, c))
      else
        (case sas_cancel True User old of
           (old', content) \<Rightarrow>
             (case sas_cancel True User new of
                (new', content') \<Rightarrow>
                  (case cancel_old_verifications gen rest new'
                          (add_cancellation gen new content' (add_cancellation gen old content c)) of
                     (rest, new'', c) \<Rightarrow> ((k, old') # rest, new'', c)))))"

definition insert_verification ::
  "(nat \<Rightarrow> string) \<Rightarrow> ('sk, 'ss) sas_state \<Rightarrow> ('sk, 'ss, 'sig) verification_cache \<Rightarrow> ('sk, 'ss, 'sig) verification_cache" where
  "insert_verification gen s c =
     (case cancel_old_verifications gen (user_verifications (other_user s) c) s c of
        (olds, s, c) \<Rightarrow>
          c\<lparr>verification := btree_insert (other_user s)
                (btree_insert (flow_id_str (verification_flow_id s)) s olds) (verification c)\<rparr>)"

definition cache_get :: "string \<Rightarrow> string \<Rightarrow> ('sk, 'ss, 'sig) verification_cache \<Rightarrow> ('sk, 'ss) sas_state option" where
  "cache_get sender flow c = (case map_of (verification c) sender of None \<Rightarrow> None | Some m \<Rightarrow> map_of m flow)"

text \<open>A verification changes in place.\<close>

definition cache_put ::
  "string \<Rightarrow> string \<Rightarrow> ('sk, 'ss) sas_state \<Rightarrow> ('sk, 'ss, 'sig) verification_cache \<Rightarrow> ('sk, 'ss, 'sig) verification_cache" where
  "cache_put user flow s c =
     c\<lparr>verification := map (\<lambda>(u, m). (u, if u = user then map (\<lambda>(f, s'). (f, if f = flow then s else s')) m else m)) (verification c)\<rparr>"

definition timed_out_cancellation ::
  "nat \<Rightarrow> ('sk, 'ss) sas_state \<Rightarrow> ('sk, 'ss) sas_state \<times> 'sig outgoing_request list" where
  "timed_out_cancellation now s =
     (case sas_cancel_if_timed_out now s of
        (s', content) \<Rightarrow> (s', case content of None \<Rightarrow> [] | Some m \<Rightarrow> [request_of s m]))"

definition cache_garbage_collect ::
  "nat \<Rightarrow> ('sk, 'ss, 'sig) verification_cache \<Rightarrow> 'sig outgoing_request list \<times> ('sk, 'ss, 'sig) verification_cache" where
  "cache_garbage_collect now c =
     (let kept = filter (\<lambda>(u, m). m \<noteq> []) (map_values (filter (\<lambda>(f, s). \<not> sas_finished s)) (verification c))
      in (concat (map (\<lambda>(u, m). concat (map (\<lambda>(f, s). snd (timed_out_cancellation now s)) m)) kept),
          c\<lparr>verification := map_values (map_values (\<lambda>s. fst (timed_out_cancellation now s :: _ \<times> 'sig outgoing_request list))) kept\<rparr>))"

definition cache_queue_up_content ::
  "(nat \<Rightarrow> string) \<Rightarrow> string \<Rightarrow> string \<Rightarrow> outgoing_content \<Rightarrow> request_info option \<Rightarrow> ('sk, 'ss, 'sig) verification_cache
   \<Rightarrow> ('sk, 'ss, 'sig) verification_cache" where
  "cache_queue_up_content gen recipient device content info c =
     (let (request_id, c) =
        (case info of
           Some (flow, rid) \<Rightarrow>
             (rid, c\<lparr>flow_ids_waiting_for_response := btree_insert rid (recipient, flow) (flow_ids_waiting_for_response c)\<rparr>)
         | None \<Rightarrow> (gen (next_txn c), c\<lparr>next_txn := Suc (next_txn c)\<rparr>));
          request = (case content of OutToDevice m \<Rightarrow> ToDeviceRequest recipient device m | OutRoom room m \<Rightarrow> RoomMessageRequest room m)
      in c\<lparr>outgoing_requests := btree_insert request_id request (outgoing_requests c)\<rparr>)"

definition cache_mark_request_as_sent ::
  "nat \<Rightarrow> string \<Rightarrow> ('sk, 'ss, 'sig) verification_cache \<Rightarrow> ('sk, 'ss, 'sig) verification_cache" where
  "cache_mark_request_as_sent now request_id c =
     (let c = c\<lparr>outgoing_requests := btree_remove request_id (outgoing_requests c)\<rparr> in
      case map_of (flow_ids_waiting_for_response c) request_id of
        None \<Rightarrow> c
      | Some (user, flow) \<Rightarrow>
          (case cache_get user (flow_id_str flow) c of
             None \<Rightarrow> c
           | Some s \<Rightarrow> cache_put user (flow_id_str flow) (sas_mark_request_as_sent now request_id s) c))"

section \<open>The machine\<close>

definition queue_reply ::
  "(nat \<Rightarrow> string) \<Rightarrow> ('sk, 'ss) sas_state \<Rightarrow> reply \<Rightarrow> ('sk, 'ss, 'sig) verification_cache \<Rightarrow> ('sk, 'ss, 'sig) verification_cache" where
  "queue_reply gen s r c =
     (case r of
        None \<Rightarrow> c
      | Some (content, info) \<Rightarrow>
          cache_queue_up_content gen (other_user s) (device_device_id (other_device (ids s)))
            (outgoing_of (verification_flow_id s) content) info c)"

text \<open>An event is handled with the next fresh identifier at hand.\<close>

definition receive_cached ::
  "('sk, 'ss) sas_library \<Rightarrow> (nat \<Rightarrow> string) \<Rightarrow> nat \<Rightarrow> string \<Rightarrow> verification_content \<Rightarrow> ('sk, 'ss) sas_state
   \<Rightarrow> ('sk, 'ss, 'sig) verification_cache \<Rightarrow> ('sk, 'ss) sas_state \<times> reply \<times> ('sk, 'ss, 'sig) verification_cache" where
  "receive_cached L gen now sender content s c =
     (case receive_any_event L now (gen (next_txn c)) sender content s of
        (s', r) \<Rightarrow>
          (s', r, (cache_put (other_user s) (flow_id_str (verification_flow_id s)) s' c)\<lparr>next_txn := Suc (next_txn c)\<rparr>))"

definition finish_cached ::
  "(nat \<Rightarrow> string) \<Rightarrow> ('s, 'e) crypto_store_ops \<Rightarrow> 'sig private_identity \<Rightarrow> ('sk, 'ss) sas_state \<Rightarrow> reply
   \<Rightarrow> ('sk, 'ss, 'sig) verification_cache \<Rightarrow> 's \<Rightarrow> ('e + unit) \<times> ('sk, 'ss, 'sig) verification_cache \<times> 's" where
  "finish_cached gen ops priv s r c st =
     (case mark_sas_as_done ops priv s (map_option fst r) st of
        (Inl e, _, st) \<Rightarrow> (Inl e, c, st)
      | (Inr (contents, signatures), _, st) \<Rightarrow>
          (let c = (case signatures of None \<Rightarrow> c | Some keys \<Rightarrow> add_request gen (SignatureUploadRequest keys) c);
               c = fold (\<lambda>m c. queue_reply gen s (Some (m, None)) c) contents c
           in (Inr (), c, st)))"

definition machine_receive ::
  "('sk, 'ss) sas_library \<Rightarrow> (nat \<Rightarrow> string) \<Rightarrow> ('s, 'e) crypto_store_ops \<Rightarrow> 'sig private_identity \<Rightarrow> nat \<Rightarrow> string \<Rightarrow> flow_id
   \<Rightarrow> verification_content \<Rightarrow> ('sk, 'ss, 'sig) verification_cache \<Rightarrow> 's
   \<Rightarrow> ('e + unit) \<times> ('sk, 'ss, 'sig) verification_cache \<times> 's" where
  "machine_receive L gen ops priv now sender flow content c st =
     (case cache_get sender (flow_id_str flow) c of
        None \<Rightarrow> (Inr (), c, st)
      | Some s \<Rightarrow>
          (case content of
             CancelContent _ _ _ \<Rightarrow>
               (case receive_cached L gen now sender content s c of (_, _, c) \<Rightarrow> (Inr (), c, st))
           | AcceptContent _ _ \<Rightarrow>
               if verification_flow_id s \<noteq> flow then (Inr (), c, st)
               else (case receive_cached L gen now sender content s c of (s', r, c) \<Rightarrow> (Inr (), queue_reply gen s' r c, st))
           | KeyContent _ _ \<Rightarrow>
               if verification_flow_id s \<noteq> flow then (Inr (), c, st)
               else (case receive_cached L gen now sender content s c of (s', r, c) \<Rightarrow> (Inr (), queue_reply gen s' r c, st))
           | MacContent _ \<Rightarrow>
               if verification_flow_id s \<noteq> flow then (Inr (), c, st)
               else (case receive_cached L gen now sender content s c of
                       (s', r, c) \<Rightarrow>
                         if sas_is_done s' then finish_cached gen ops priv s' r c st
                         else (Inr (), queue_reply gen s' r c, st))
           | DoneContent _ \<Rightarrow>
               (case receive_cached L gen now sender content s c of
                  (s', r, c) \<Rightarrow> if sas_is_done s' then finish_cached gen ops priv s' r c st else (Inr (), c, st))
           | _ \<Rightarrow> (Inr (), c, st)))"

text \<open>The identities that take part, read from the store.\<close>

definition into_own :: "user_identity \<Rightarrow> own_user_identity option" where
  "into_own t =
     (case identity_kind_of t of
        OwnIdentity v \<Rightarrow> Some \<lparr>own_master_keys = master_keys t, own_is_verified = (v = OwnVerified)\<rparr>
      | OtherIdentity \<Rightarrow> None)"

definition get_identities ::
  "('s, 'e) crypto_store_ops \<Rightarrow> static_account_data \<Rightarrow> device_data \<Rightarrow> 's \<Rightarrow> 'e + sas_ids" where
  "get_identities ops account device st =
     (case op_get_user_identity ops (device_user_id device) st of
        Inl e \<Rightarrow> Inl e
      | Inr identity \<Rightarrow>
          (case op_get_user_identity ops (account_user_id account) st of
             Inl e \<Rightarrow> Inl e
           | Inr own \<Rightarrow>
               Inr \<lparr>sas_account = account, sas_own_identity = Option.bind own into_own, other_device = device,
                    other_identity = identity\<rparr>))"

definition machine_start_sas ::
  "('sk, 'ss) sas_library \<Rightarrow> (nat \<Rightarrow> string) \<Rightarrow> ('s, 'e) crypto_store_ops \<Rightarrow> static_account_data \<Rightarrow> 'sk \<Rightarrow> nat \<Rightarrow> device_data
   \<Rightarrow> ('sk, 'ss, 'sig) verification_cache \<Rightarrow> 's \<Rightarrow> ('e + 'sig outgoing_request) \<times> ('sk, 'ss, 'sig) verification_cache" where
  "machine_start_sas L gen ops account sk now device c st =
     (case get_identities ops account device st of
        Inl e \<Rightarrow> (Inl e, c)
      | Inr the_ids \<Rightarrow>
          (case sas_start L sk now the_ids (ToDevice (gen (next_txn c))) False None of
             (s, content) \<Rightarrow> (Inr (request_of s content), insert_verification gen s (c\<lparr>next_txn := Suc (next_txn c)\<rparr>))))"

text \<open>A verification that the other side starts without a request.\<close>

definition machine_receive_start ::
  "('sk, 'ss) sas_library \<Rightarrow> (nat \<Rightarrow> string) \<Rightarrow> ('s, 'e) crypto_store_ops \<Rightarrow> static_account_data \<Rightarrow> 'sk \<Rightarrow> nat \<Rightarrow> string \<Rightarrow> flow_id
   \<Rightarrow> start_content \<Rightarrow> ('sk, 'ss, 'sig) verification_cache \<Rightarrow> 's \<Rightarrow> ('e + unit) \<times> ('sk, 'ss, 'sig) verification_cache" where
  "machine_receive_start L gen ops account sk now sender flow content c st =
     (case flow of
        InRoom _ _ \<Rightarrow> (Inr (), c)
      | ToDevice _ \<Rightarrow>
          (case verification_get_device ops account sender (start_from_device content) st of
             Inl e \<Rightarrow> (Inl e, c)
           | Inr None \<Rightarrow> (Inr (), c)
           | Inr (Some device) \<Rightarrow>
               (case get_identities ops account device st of
                  Inl e \<Rightarrow> (Inl e, c)
                | Inr the_ids \<Rightarrow>
                    (case sas_from_start_event L sk now the_ids flow content False of
                       Inr s \<Rightarrow> (Inr (), insert_verification gen s c)
                     | Inl s \<Rightarrow>
                         (Inr (), cache_queue_up_content gen sender (start_from_device content)
                            (outgoing_of flow (cancelled_content flow UnknownMethod)) None c)))))"

definition machine_garbage_collect ::
  "(nat \<Rightarrow> string) \<Rightarrow> nat \<Rightarrow> ('sk, 'ss, 'sig) verification_cache \<Rightarrow> verification_content list \<times> ('sk, 'ss, 'sig) verification_cache" where
  "machine_garbage_collect gen now c =
     (case cache_garbage_collect now c of
        (requests, c) \<Rightarrow>
          (List.map_filter (\<lambda>r. case r of ToDeviceRequest _ _ m \<Rightarrow> Some m | _ \<Rightarrow> None) requests,
           fold (add_request gen) requests c))"

text \<open>What the user does with a verification in the cache.\<close>

definition user_acts ::
  "('sk, 'ss) sas_library \<Rightarrow> ('s, 'e) crypto_store_ops \<Rightarrow> 'sig private_identity \<Rightarrow> string \<Rightarrow> string \<Rightarrow> sas_input
   \<Rightarrow> ('sk, 'ss, 'sig) verification_cache \<Rightarrow> 's \<Rightarrow> ('sk, 'ss, 'sig) verification_cache \<times> 's" where
  "user_acts L ops priv user flow i c st =
     (case cache_get user flow c of
        None \<Rightarrow> (c, st)
      | Some s \<Rightarrow>
          (case i of
             AcceptWith methods \<Rightarrow> (cache_put user flow (fst (sas_accept_with_settings methods s)) c, st)
           | CancelWith code \<Rightarrow> (cache_put user flow (fst (sas_cancel True code s)) c, st)
           | Confirm \<Rightarrow> (case sas_user_confirm L ops priv s st of (_, s', st) \<Rightarrow> (cache_put user flow s' c, st))
           | _ \<Rightarrow> (c, st)))"

datatype 'sk machine_op =
    StartSas 'sk nat device_data
  | StartEvent 'sk nat string flow_id start_content
  | Event nat string flow_id verification_content
  | UserActs string string sas_input
  | SentReport nat string
  | GarbageCollect nat

fun machine_step ::
  "('sk, 'ss) sas_library \<Rightarrow> (nat \<Rightarrow> string) \<Rightarrow> ('s, 'e) crypto_store_ops \<Rightarrow> static_account_data \<Rightarrow> 'sig private_identity
   \<Rightarrow> 'sk machine_op \<Rightarrow> ('sk, 'ss, 'sig) verification_cache \<times> 's \<Rightarrow> ('sk, 'ss, 'sig) verification_cache \<times> 's" where
  "machine_step L gen ops account priv (StartSas sk now device) (c, st) =
     (snd (machine_start_sas L gen ops account sk now device c st), st)"
| "machine_step L gen ops account priv (StartEvent sk now sender flow content) (c, st) =
     (snd (machine_receive_start L gen ops account sk now sender flow content c st), st)"
| "machine_step L gen ops account priv (Event now sender flow content) (c, st) =
     snd (machine_receive L gen ops priv now sender flow content c st)"
| "machine_step L gen ops account priv (UserActs user flow i) (c, st) = user_acts L ops priv user flow i c st"
| "machine_step L gen ops account priv (SentReport now request_id) (c, st) = (cache_mark_request_as_sent now request_id c, st)"
| "machine_step L gen ops account priv (GarbageCollect now) (c, st) = (snd (machine_garbage_collect gen now c), st)"

section \<open>One verification at a time\<close>

definition ongoing :: "string \<Rightarrow> ('sk, 'ss, 'sig) verification_cache \<Rightarrow> nat" where
  "ongoing user c = length (filter (\<lambda>(f, s). \<not> sas_finished s) (user_verifications user c))"

definition verifications_ok :: "string \<Rightarrow> (string, ('sk, 'ss) sas_state) btree \<Rightarrow> bool" where
  "verifications_ok user m \<longleftrightarrow>
     btree_ok m \<and> (\<forall>(f, s) \<in> set m. other_user s = user \<and> flow_id_str (verification_flow_id s) = f) \<and>
     length (filter (\<lambda>(f, s). \<not> sas_finished s) m) \<le> 1"

definition cache_ok :: "('sk, 'ss, 'sig) verification_cache \<Rightarrow> bool" where
  "cache_ok c \<longleftrightarrow> btree_ok (verification c) \<and> (\<forall>(u, m) \<in> set (verification c). verifications_ok u m)"

lemma cache_ok_requests [simp]:
  "cache_ok (c\<lparr>outgoing_requests := x\<rparr>) \<longleftrightarrow> cache_ok c"
  "cache_ok (c\<lparr>flow_ids_waiting_for_response := y\<rparr>) \<longleftrightarrow> cache_ok c"
  "cache_ok (c\<lparr>next_txn := n\<rparr>) \<longleftrightarrow> cache_ok c"
  by (simp_all add: cache_ok_def)

lemma cache_ok_ongoing: "cache_ok c \<Longrightarrow> ongoing user c \<le> 1"
  by (fastforce simp: cache_ok_def ongoing_def user_verifications_def verifications_ok_def dest: map_of_SomeD split: option.split)

lemma verification_same [simp]:
  "verification (add_request gen r c) = verification c"
  "verification (add_cancellation gen s content c) = verification c"
  "verification (cache_queue_up_content gen user device m info c) = verification c"
  "verification (queue_reply gen s reply c) = verification c"
  by (auto simp: add_request_def add_cancellation_def cache_queue_up_content_def queue_reply_def Let_def split: option.split prod.split)

lemma cache_ok_cong: "verification c' = verification c \<Longrightarrow> cache_ok c' \<longleftrightarrow> cache_ok c"
  by (simp add: cache_ok_def)

lemma cache_ok_queued [simp]:
  "cache_ok (cache_queue_up_content gen user device m info c) \<longleftrightarrow> cache_ok c"
  "cache_ok (queue_reply gen s reply c) \<longleftrightarrow> cache_ok c"
  by (rule cache_ok_cong, simp)+

subsection \<open>Changes of one verification\<close>

definition follows :: "('sk, 'ss) sas_state \<Rightarrow> ('sk, 'ss) sas_state \<Rightarrow> bool" where
  "follows s s' \<longleftrightarrow> ids s' = ids s \<and> verification_flow_id s' = verification_flow_id s \<and> (sas_finished s \<longrightarrow> sas_finished s')"

lemma follows_refl [simp]: "follows s s"
  by (simp add: follows_def)

lemma follows_cancel_state [simp]: "follows s (cancel_state b c s)"
  by (simp add: follows_def cancel_state_def sas_finished_def)

lemma follows_cancel [simp]: "follows s (fst (sas_cancel b code s))"
  by (cases "phase s") (simp_all add: sas_cancel_def)

lemma cancelled_finished: "sas_finished (fst (sas_cancel b code s))"
  by (cases "phase s") (simp_all add: sas_cancel_def cancel_state_def sas_finished_def)

lemma follows_accept [simp]: "follows s (fst (sas_accept_with_settings methods s))"
  by (cases "phase s") (simp_all add: sas_accept_with_settings_def sas_accept_def into_we_accepted_def Let_def follows_def sas_finished_def)

lemma follows_confirm [simp]: "follows s (fst (sas_confirm L s))"
  by (cases "phase s") (simp_all add: sas_confirm_def follows_def sas_finished_def)

lemma follows_timeout [simp]: "follows s (fst (sas_cancel_if_timed_out now s))"
  by (cases "phase s") (simp_all add: sas_cancel_if_timed_out_def)

lemma follows_sent [simp]: "follows s (sas_mark_request_as_sent now rid s)"
  by (cases "phase s") (simp_all add: sas_mark_request_as_sent_def mark_request_as_sent_def follows_def sas_finished_def)

lemma follows_unless_finished:
  "\<not> sas_finished s \<Longrightarrow> ids s' = ids s \<Longrightarrow> verification_flow_id s' = verification_flow_id s \<Longrightarrow> follows s s'"
  by (simp add: follows_def)

lemma handle_key_content_same:
  "handle_key_content L now sender flow pk s = (x, s') \<Longrightarrow> ids s' = ids s \<and> verification_flow_id s' = verification_flow_id s"
  by (auto simp: handle_key_content_def split: option.splits if_splits)

lemma follows_receive [simp]: "follows s (fst (receive_any_event L now txn sender content s))"
proof (cases "sas_finished s")
  case True
  then have "sas_run L [Receive now txn sender content] s = s"
    by (intro finished_is_final) (auto simp: sas_finished_def split: sas_phase.splits)
  then show ?thesis by (simp add: sas_run_def)
next
  case False
  have "ids (fst (receive_any_event L now txn sender content s)) = ids s \<and>
      verification_flow_id (fst (receive_any_event L now txn sender content s)) = verification_flow_id s"
    by (cases content; cases "phase s")
      (auto simp: receive_any_event_def into_accepted_def accepted_into_key_received_def key_sent_into_keys_exchanged_def
        we_accepted_into_key_received_def into_mac_received_def into_waiting_for_done_def confirmed_into_done_def
        waiting_into_done_def cancel_state_def sas_cancel_def
        dest: handle_key_content_same split: option.split sum.split prod.split accept_method.split)
  with False show ?thesis by (simp add: follows_def)
qed

lemma filter_map_le:
  "\<forall>x \<in> set xs. P (g x) \<longrightarrow> P x \<Longrightarrow> length (filter P (map g xs)) \<le> length (filter P xs)"
  by (induction xs) (auto intro: le_SucI)

lemma verifications_ok_map:
  assumes "verifications_ok user m" "\<forall>(f, s) \<in> set m. follows s (g f s)"
  shows "verifications_ok user (map (\<lambda>(f, s). (f, g f s)) m)"
proof -
  have "map fst (map (\<lambda>(f, s). (f, g f s)) m) = map fst m"
    by (simp add: comp_def case_prod_unfold)
  then have "btree_ok (map (\<lambda>(f, s). (f, g f s)) m)"
    using assms(1) unfolding verifications_ok_def btree_ok_def by metis
  moreover have "length (filter (\<lambda>(f, s). \<not> sas_finished s) (map (\<lambda>(f, s). (f, g f s)) m)) \<le>
      length (filter (\<lambda>(f, s). \<not> sas_finished s) m)"
    using assms(2) by (intro filter_map_le) (auto simp: follows_def)
  ultimately show ?thesis
    using assms by (fastforce simp: verifications_ok_def follows_def other_user_def)
qed

lemma cache_put_ok:
  assumes c: "cache_ok c" and s: "cache_get user flow c = Some s" "follows s s'"
  shows "cache_ok (cache_put user flow s' c)"
proof -
  let ?g = "\<lambda>u m. if u = user then map (\<lambda>(f, x). (f, if f = flow then s' else x)) m else m"
  have "map fst (map (\<lambda>(u, m). (u, ?g u m)) (verification c)) = map fst (verification c)"
    by (simp add: comp_def case_prod_unfold)
  then have "btree_ok (map (\<lambda>(u, m). (u, ?g u m)) (verification c))"
    using c unfolding cache_ok_def btree_ok_def by metis
  moreover have "verifications_ok u (?g u m)" if um: "(u, m) \<in> set (verification c)" for u m
  proof (cases "u = user")
    case True
    have ok: "verifications_ok u m" using c um by (auto simp: cache_ok_def)
    have "distinct (map fst (verification c))" using c by (simp add: cache_ok_def btree_ok_distinct)
    then have "map_of (verification c) user = Some m" using um True by simp
    then have "map_of m flow = Some s" using s(1) by (simp add: cache_get_def)
    moreover have "distinct (map fst m)" using ok by (simp add: verifications_ok_def btree_ok_distinct)
    ultimately have "\<forall>(f, x) \<in> set m. follows x (if f = flow then s' else x)"
      using s(2) by (auto simp: map_of_eq_Some_iff dest: eq_key_imp_eq_value)
    then show ?thesis using verifications_ok_map [OF ok] True by simp
  qed (use c um in \<open>auto simp: cache_ok_def\<close>)
  ultimately show ?thesis
    by (auto simp: cache_ok_def cache_put_def)
qed

subsection \<open>Insertion and collection\<close>

lemma cancel_old_verifications_result:
  assumes "cancel_old_verifications gen olds new c = (olds', new', c')"
  shows "verification c' = verification c \<and> follows new new' \<and> map fst olds' = map fst olds \<and>
    (\<forall>(f, s) \<in> set olds'. sas_finished s \<and> (\<exists>s0. (f, s0) \<in> set olds \<and> follows s0 s)) \<and>
    ((\<exists>(f, s) \<in> set olds. \<not> sas_is_cancelled s) \<longrightarrow> sas_finished new')"
  using assms
proof (induction gen olds new c arbitrary: olds' new' c' rule: cancel_old_verifications.induct)
  case (2 gen k old rest new c)
  show ?case
  proof (cases "sas_is_cancelled old")
    case True
    obtain r n d where r: "cancel_old_verifications gen rest new c = (r, n, d)" by (metis surj_pair)
    have "sas_finished old" using True by (simp add: sas_is_cancelled_def sas_finished_def split: sas_phase.splits)
    with "2.IH"(1) [OF True r] "2.prems" True r show ?thesis by fastforce
  next
    case False
    obtain o' m where o: "sas_cancel True User old = (o', m)" by (metis surj_pair)
    obtain n' m' where n: "sas_cancel True User new = (n', m')" by (metis surj_pair)
    obtain r n'' d where r: "cancel_old_verifications gen rest n' (add_cancellation gen new m' (add_cancellation gen old m c)) = (r, n'', d)"
      by (metis surj_pair)
    have "sas_finished o'" "follows old o'" "sas_finished n'" "follows new n'"
      using o n cancelled_finished [of True User old] cancelled_finished [of True User new] follows_cancel [of old True User]
        follows_cancel [of new True User] by simp_all
    moreover from "2.IH"(2) [OF False o [symmetric] n [symmetric] r]
    have ih: "verification d = verification c" "follows n' n''" "map fst r = map fst rest"
      "\<forall>(f, s) \<in> set r. sas_finished s \<and> (\<exists>s0. (f, s0) \<in> set rest \<and> follows s0 s)" by simp_all
    moreover have "follows new n''" "sas_finished n''"
      using calculation by (auto simp: follows_def)
    ultimately show ?thesis using "2.prems" False o n r by fastforce
  qed
qed simp

lemma insert_verification_ok:
  assumes c: "cache_ok c"
  shows "cache_ok (insert_verification gen s c)"
proof -
  let ?olds = "user_verifications (other_user s) c"
  obtain olds' s' c' where r: "cancel_old_verifications gen ?olds s c = (olds', s', c')" by (metis surj_pair)
  from cancel_old_verifications_result [OF r]
  have v: "verification c' = verification c" and s': "follows s s'" and keys: "map fst olds' = map fst ?olds"
    and fin: "\<forall>(f, x) \<in> set olds'. sas_finished x \<and> (\<exists>x0. (f, x0) \<in> set ?olds \<and> follows x0 x)" by simp_all
  have ok: "verifications_ok (other_user s) ?olds"
  proof (cases "map_of (verification c) (other_user s)")
    case None
    then show ?thesis by (simp add: user_verifications_def verifications_ok_def)
  next
    case (Some m)
    then show ?thesis using c by (auto simp: cache_ok_def user_verifications_def dest: map_of_SomeD)
  qed
  have old_ok: "btree_ok olds'" using ok keys by (simp add: verifications_ok_def btree_ok_def)
  let ?f = "flow_id_str (verification_flow_id s')"
  have who: "other_user s' = other_user s" using s' by (simp add: follows_def other_user_def)
  have sub: "set (btree_insert k x m) \<subseteq> insert (k, x) (set m)" for k :: string and x :: 'z and m
    by (induction k x m rule: btree_insert.induct) auto
  have none: "filter (\<lambda>(f, x). \<not> sas_finished x) m = []" if "\<forall>(f, y) \<in> set m. sas_finished y"
    for m :: "(string, ('a, 'b) sas_state) btree"
    using that by (auto simp: filter_empty_conv)
  have one: "length (filter (\<lambda>(f, x). \<not> sas_finished x) (btree_insert k x m)) \<le> 1"
    if "\<forall>(f, y) \<in> set m. sas_finished y" for k :: string and x and m :: "(string, ('a, 'b) sas_state) btree"
    using that by (induction k x m rule: btree_insert.induct) (auto simp: none)
  have "verifications_ok (other_user s) (btree_insert ?f s' olds')"
    unfolding verifications_ok_def
  proof (intro conjI)
    show "btree_ok (btree_insert ?f s' olds')" using old_ok by simp
    show "\<forall>(f, x) \<in> set (btree_insert ?f s' olds'). other_user x = other_user s \<and> flow_id_str (verification_flow_id x) = f"
      using sub [of ?f s' olds'] fin ok who by (fastforce simp: verifications_ok_def follows_def other_user_def)
    show "length (filter (\<lambda>(f, x). \<not> sas_finished x) (btree_insert ?f s' olds')) \<le> 1"
      using fin by (intro one) auto
  qed
  then show ?thesis
    using c r v who sub [of "other_user s" "btree_insert ?f s' olds'" "verification c"]
    by (auto simp: insert_verification_def cache_ok_def)
qed

lemma map_values_ok:
  assumes "verifications_ok user m" "\<And>s. follows s (g s)"
  shows "verifications_ok user (map_values g m)"
  using verifications_ok_map [OF assms(1), of "\<lambda>_. g"] assms(2) by (simp add: map_values_def)

lemma btree_ok_filter: "btree_ok m \<Longrightarrow> btree_ok (filter P m)"
  by (simp add: btree_ok_def sorted_wrt_map sorted_wrt_filter)

lemma filter_filter_le: "length (filter Q (filter P xs)) \<le> length (filter Q xs)"
  by (induction xs) auto

lemma verifications_ok_filter:
  assumes "verifications_ok user m"
  shows "verifications_ok user (filter P m)"
  using assms filter_filter_le [of "\<lambda>(f, s). \<not> sas_finished s" P m] by (auto simp: verifications_ok_def btree_ok_filter)

lemma follows_timed_out [simp]: "follows s (fst (timed_out_cancellation now s))"
  by (simp add: timed_out_cancellation_def split_def)

lemma cache_garbage_collect_ok:
  assumes "cache_ok c"
  shows "cache_ok (snd (cache_garbage_collect now c))"
proof -
  define kept where "kept = filter (\<lambda>(u, m). m \<noteq> []) (map_values (filter (\<lambda>(f, s). \<not> sas_finished s)) (verification c))"
  have "btree_ok kept" using assms by (simp add: kept_def btree_ok_filter cache_ok_def)
  moreover have "verifications_ok u m" if "(u, m) \<in> set kept" for u m
    using that assms by (auto simp: kept_def map_values_def cache_ok_def intro!: verifications_ok_filter)
  ultimately show ?thesis
    by (auto simp: cache_garbage_collect_def Let_def cache_ok_def kept_def [symmetric] map_values_def [of "map_values _"]
      intro!: map_values_ok) (simp add: map_values_def [symmetric])
qed

subsection \<open>The machine\<close>

lemma finish_cached_verification: "verification (fst (snd (finish_cached gen ops priv s r c st))) = verification c"
proof -
  have fold_same: "verification (fold (\<lambda>m. queue_reply gen s (Some (m, None))) ms c') = verification c'" for ms c'
    by (induction ms arbitrary: c') simp_all
  show ?thesis
    by (auto simp: finish_cached_def Let_def fold_same split: sum.split prod.split option.split)
qed

lemma receive_cached_ok:
  assumes "cache_ok c" "cache_get user flow c = Some s" "receive_cached L gen now sender content s c = (s', r, c')"
  shows "cache_ok c'"
proof -
  have "other_user s = user \<and> flow_id_str (verification_flow_id s) = flow"
    using assms(1,2) by (fastforce simp: cache_ok_def cache_get_def verifications_ok_def dest: map_of_SomeD split: option.splits)
  moreover have "s' = fst (receive_any_event L now (gen (next_txn c)) sender content s)"
    using assms(3) by (auto simp: receive_cached_def split: prod.splits)
  ultimately show ?thesis
    using cache_put_ok [OF assms(1,2), of s'] assms(3) by (auto simp: receive_cached_def split: prod.splits)
qed

lemma machine_receive_ok:
  assumes "cache_ok c"
  shows "cache_ok (fst (snd (machine_receive L gen ops priv now sender flow content c st)))"
proof (cases "cache_get sender (flow_id_str flow) c")
  case (Some s)
  obtain s' r c' where r: "receive_cached L gen now sender content s c = (s', r, c')" by (metis surj_pair)
  have ok: "cache_ok c'" by (rule receive_cached_ok [OF assms Some r])
  then have "cache_ok (fst (snd (finish_cached gen ops priv s' r c' st)))"
    using cache_ok_cong [OF finish_cached_verification [of gen ops priv s' r c' st]] by simp
  with ok assms Some r show ?thesis
    by (cases content) (simp_all add: machine_receive_def)
qed (simp add: machine_receive_def assms)

lemma done_not_cancelled: "sas_is_done s \<Longrightarrow> sas_cancel True code s = (s, None)"
  by (auto simp: sas_is_done_def sas_cancel_def split: sas_phase.splits)

lemma user_confirm_state: "fst (snd (sas_user_confirm L ops priv s st)) = fst (sas_confirm L s)"
  by (cases "sas_confirm L s")
    (auto simp: sas_user_confirm_def done_not_cancelled split: prod.splits sum.splits verification_result.splits)

lemma machine_step_ok:
  assumes "cache_ok c"
  shows "cache_ok (fst (machine_step L gen ops account priv op (c, st)))"
proof (cases op)
  case (StartSas sk now device)
  then show ?thesis
    using insert_verification_ok [of "c\<lparr>next_txn := Suc (next_txn c)\<rparr>"] assms
    by (auto simp: machine_start_sas_def split: sum.split prod.split)
next
  case (StartEvent sk now sender flow content)
  then show ?thesis
    using insert_verification_ok [OF assms] assms
    by (auto simp: machine_receive_start_def split: flow_id.split sum.split option.split)
next
  case (Event now sender flow content)
  then show ?thesis using machine_receive_ok [OF assms] by (simp add: split_def)
next
  case (UserActs user flow i)
  have "cache_ok (cache_put user flow (fst (snd (sas_user_confirm L ops priv s st))) c)" if "cache_get user flow c = Some s" for s
    using cache_put_ok [OF assms that] by (simp add: user_confirm_state)
  then show ?thesis
    using UserActs assms cache_put_ok [OF assms]
    by (cases i) (auto simp: user_acts_def split_def split: option.split)
next
  case (SentReport now rid)
  then show ?thesis
    using assms cache_put_ok [of "c\<lparr>outgoing_requests := btree_remove rid (outgoing_requests c)\<rparr>"]
    by (auto simp: cache_mark_request_as_sent_def Let_def cache_get_def split: option.split)
next
  case (GarbageCollect now)
  have "verification (fold (add_request gen) rs c') = verification c'" for rs c'
    by (induction rs arbitrary: c') simp_all
  then show ?thesis
    using GarbageCollect cache_garbage_collect_ok [OF assms, of now] cache_ok_cong
    by (fastforce simp: machine_garbage_collect_def split_def)
qed



section \<open>Reports and refusals\<close>

lemma cache_get_put:
  "cache_get user flow c = Some s \<Longrightarrow> cache_get user flow (cache_put user flow s' c) = Some s'"
proof -
  have m: "map_of (map (\<lambda>(k, x). (k, g k x)) xs) k = map_option (g k) (map_of xs k)" for g :: "'k \<Rightarrow> 'x \<Rightarrow> 'y" and xs k
    by (induction xs) auto
  show "cache_get user flow c = Some s \<Longrightarrow> cache_get user flow (cache_put user flow s' c) = Some s'"
    by (auto simp: cache_get_def cache_put_def m split: option.splits)
qed

text \<open>A request with an identifier is kept until it is reported as sent, and the report reaches its verification.\<close>

lemma reported_request_reaches_verification:
  assumes "cache_get user (flow_id_str flow) c = Some s" "btree_ok (outgoing_requests c)" "btree_ok (flow_ids_waiting_for_response c)"
    and queued_def: "queued = cache_queue_up_content gen user device content (Some (flow, request_id)) c"
  shows "map_of (outgoing_requests queued) request_id \<noteq> None"
    and "map_of (outgoing_requests (cache_mark_request_as_sent now request_id queued)) request_id = None"
    and "cache_get user (flow_id_str flow) (cache_mark_request_as_sent now request_id queued) =
      Some (sas_mark_request_as_sent now request_id s)"
proof -
  have same: "cache_get user' f (c'\<lparr>outgoing_requests := x\<rparr>) = cache_get user' f c'"
    "cache_get user' f (c'\<lparr>flow_ids_waiting_for_response := y\<rparr>) = cache_get user' f c'" for user' f c' x y
    by (simp_all add: cache_get_def)
  note defs = queued_def cache_queue_up_content_def cache_mark_request_as_sent_def Let_def
  show "map_of (outgoing_requests queued) request_id \<noteq> None"
    using assms(2) by (simp add: defs)
  show "map_of (outgoing_requests (cache_mark_request_as_sent now request_id queued)) request_id = None"
    using assms(1-3) by (simp add: defs same cache_put_def)
  show "cache_get user (flow_id_str flow) (cache_mark_request_as_sent now request_id queued) =
      Some (sas_mark_request_as_sent now request_id s)"
    using assms(1-3) by (simp add: defs same cache_get_put)
qed

lemma cancel_idempotent: "sas_cancel b code (fst (sas_cancel True User s)) = (fst (sas_cancel True User s), None)"
  by (cases "phase s") (simp_all add: sas_cancel_def cancel_state_def)

lemma new_verification_cancelled:
  assumes "cancel_old_verifications gen olds new c = (olds', new', c')" "\<exists>(f, s) \<in> set olds. \<not> sas_is_cancelled s"
  shows "new' = fst (sas_cancel True User new)"
  using assms
proof (induction gen olds new c arbitrary: olds' new' c' rule: cancel_old_verifications.induct)
  case (2 gen k old rest new c)
  have idem: "n' = fst (sas_cancel True User new)"
    if "cancel_old_verifications gen rest (fst (sas_cancel True User new)) d = (r, n', d')" for d r n' d'
    using that
    by (induction rest arbitrary: d r n' d') (auto simp: cancel_idempotent split: prod.splits if_splits)
  show ?case
    using "2.prems" "2.IH"(1) idem by (cases "sas_is_cancelled old") (fastforce split: prod.splits)+
qed simp

text \<open>
  A verification that is done but has not been collected yet counts as one that is going on: the next
  one with the same user is cancelled at once.
\<close>

lemma done_verification_cancels_next:
  assumes "cache_ok c" "cache_get (other_user s) f c = Some old" "sas_is_done old" "phase s = Created protocols"
  shows "\<exists>s'. cache_get (other_user s) (flow_id_str (verification_flow_id s)) (insert_verification gen s c) = Some s' \<and>
    phase s' = Cancelled True User"
proof -
  obtain olds' s' c' where r: "cancel_old_verifications gen (user_verifications (other_user s) c) s c = (olds', s', c')"
    by (metis surj_pair)
  have "(f, old) \<in> set (user_verifications (other_user s) c)" "\<not> sas_is_cancelled old"
    using assms(2,3) by (auto simp: cache_get_def user_verifications_def sas_is_done_def sas_is_cancelled_def
      dest: map_of_SomeD split: option.splits sas_phase.splits)
  then have s': "s' = fst (sas_cancel True User s)" using new_verification_cancelled [OF r] by blast
  have keys: "map fst olds' = map fst (user_verifications (other_user s) c)" "verification c' = verification c"
    using cancel_old_verifications_result [OF r] by simp_all
  have "btree_ok (user_verifications (other_user s) c)" "btree_ok (verification c)"
    using assms(1) by (auto simp: cache_ok_def user_verifications_def verifications_ok_def dest: map_of_SomeD split: option.split)
  then have ok: "btree_ok olds'" "btree_ok (verification c')" using keys by (simp_all add: btree_ok_def)
  show ?thesis
    using r s' ok assms(4)
    by (auto simp: insert_verification_def cache_get_def sas_cancel_def cancel_state_def other_user_def)
qed

end
