(* ===== verification/Spec2Isabelle.thy ===== *)
theory Spec2Isabelle
  imports As_Vector Room_Dedup List_Loading Sliding_Sync_Cache Qr_Code Tracked_Users_Store Store_Lock Media_Sqlite Unread_Counts Sas_Completion Verification_Cache
begin

text \<open>
  A verification development of the Matrix Rust SDK, a client library in several crates. This theory
  collects the others. Paths below are relative to \<open>src/crates/\<close>.

  \<^bold>\<open>How code is modelled.\<close> Each Rust function is a HOL function over explicit state. A Rust \<open>Result\<close>
  is a sum with the error on the left; where a function can panic, access freed memory or loop, its
  value is in the type \<open>run\<close> (\<open>Done\<close>, \<open>Panic\<close>, \<open>Ub\<close>, \<open>Stuck\<close>; \<open>Stuck\<close> is a loop out of fuel). Machine
  integers are words or natural numbers with the bound written out where overflow matters. A \<open>BTreeMap\<close>
  is a list sorted by its keys. An asynchronous function whose interleavings matter is a step relation
  with one step per suspension point; the current time and random values are arguments. Code outside
  the repository (cryptography, JSON, Ruma's readers, bloom filters, the database engine) is a parameter:
  a function or a record of functions, with the documented behaviour as named hypotheses, each shown to
  be satisfiable by a witness. Interfaces between components are locales, interpreted on the models of
  their providers.

  \<^bold>\<open>Event cache\<close> (\<open>matrix-sdk/src/event_cache\<close>). The events of a room are stored in a linked list of
  chunks, whose changes are recorded in a history for readers.

  \<^item> \<open>Update_Log\<close>: \<open>linked_chunk/updates.rs\<close>, the buffer of updates with one read index per reader, garbage
    collection and wakers. Every update reaches every reader exactly once and in order; garbage
    collection removes exactly what all have read; a pending subscriber is woken.
  \<^item> \<open>Chunk_Store\<close>, \<open>Linked_Chunk\<close>: \<open>linked_chunk/mod.rs\<close> over an explicit heap of doubly linked cells,
    with allocation, unlinking, the iterators and \<open>Drop\<close>.
  \<^item> \<open>Linked_Chunk_Spec\<close>, \<open>Linked_Chunk_Refinement\<close>, \<open>Linked_Chunk_Traces\<close>: the abstract list of chunks, the
    proof that every operation of the heap refines it with the updates and errors of the specification,
    and whole lives from construction to \<open>Drop\<close>: no access to freed memory, no leak.
  \<^item> \<open>As_Vector\<close>: \<open>linked_chunk/as_vector.rs\<close>. The differences applied to a vector give the items of the
    linked chunk.
  \<^item> \<open>Room_Events\<close>, \<open>Room_Dedup\<close>: \<open>deduplicator.rs\<close>, \<open>room/events.rs\<close> and what \<open>room/mod.rs\<close> and \<open>pagination.rs\<close>
    write. Event identifiers stay unique, new events are where they were asked for.

  \<^bold>\<open>Sliding sync\<close> (\<open>matrix-sdk/src/sliding_sync\<close>).

  \<^item> \<open>Sticky_Parameters\<close>: \<open>sticky_parameters.rs\<close>, with the trait of its data as a locale that is interpreted
    for lists and for the instance.
  \<^item> \<open>Sliding_Sync_List\<close>, \<open>List_Loading\<close>: \<open>list/\<close>. Requested ranges are valid and within the bounds; the
    growing and the paging mode load a list in as many rounds as it has batches.
  \<^item> \<open>Sliding_Sync_Room\<close>: \<open>room.rs\<close> and the correction of the limited flag.
  \<^item> \<open>Sliding_Sync\<close>, \<open>Sliding_Sync_Props\<close>, \<open>Sliding_Sync_Cache\<close>: \<open>mod.rs\<close>, \<open>builder.rs\<close>, \<open>cache.rs\<close>. Subscriptions are
    sent until acknowledged, the position advances with the response, what is cached is restored, an
    expired session starts again.

  \<^bold>\<open>Cryptography\<close> (\<open>matrix-sdk-crypto/src\<close>).

  \<^item> \<open>Failures_Cache\<close>: \<open>failures_cache.rs\<close> of the common crate, the backoff for servers that fail.
  \<^item> \<open>Key_Query\<close>, \<open>Key_Query_Props\<close>, \<open>Key_Query_Safety\<close>, \<open>Tracked_Users_Store\<close>: \<open>store/caches.rs\<close>, \<open>store/mod.rs\<close> and
    \<open>identities/manager.rs\<close> as far as they track users with outdated device lists, over the contract of
    a crypto store (a locale, interpreted on the memory store). A response never clears a user who was
    flagged after its request; waiting tasks are woken; a restart finds the flagged users.
  \<^item> \<open>Sas_Helpers\<close>, \<open>Sas_State\<close>: \<open>verification/sas/\<close>, the emoji verification. The typed states of
    \<open>sas_state.rs\<close> and the enumeration of \<open>inner_sas.rs\<close> are one record with a phase.
  \<^item> \<open>Sas_Safety\<close>: over all inputs, a finished verification has been confirmed by the user for the secret
    under which the verified keys were authenticated.
  \<^item> \<open>Sas_Exchange\<close>, \<open>Sas_Completion\<close>: two honest devices with the channels between them finish in at most
    twelve steps in any order and verify each other.
  \<^item> \<open>Sas_Marking\<close>: the marking of \<open>verification/mod.rs\<close>. Only the device whose present key was
    authenticated is marked as verified in the store.
  \<^item> \<open>Verification_Cache\<close>: \<open>verification/cache.rs\<close> and the part of \<open>verification/machine.rs\<close> that hands events to
    verifications. With every user at most one verification is going on.
  \<^item> \<open>Qr_Code\<close>: \<open>matrix-sdk-qrcode\<close>. Exactly the encodings are decoded.

  \<^bold>\<open>Stores and shared parts.\<close>

  \<^item> \<open>Store_Lock\<close>: \<open>matrix-sdk-common/src/store_locks.rs\<close> with the leases of the memory and the SQLite store
    (a locale for the leases). Two processes never hold the lock at the same time.
  \<^item> \<open>Ring_Buffer\<close>: \<open>matrix-sdk-common/src/ring_buffer.rs\<close>.
  \<^item> \<open>Store_Cipher\<close>: \<open>matrix-sdk-store-encryption\<close>. Keys and values are restored by the right passphrase.
  \<^item> \<open>Media_Key\<close>, \<open>Media_Store\<close>, \<open>Media_Contract\<close>, \<open>Media_Refinement\<close>, \<open>Media_Sqlite\<close>: \<open>media.rs\<close> and the media of the
    event cache stores in memory and in SQLite, against one contract.
  \<^item> \<open>Read_Receipts\<close>, \<open>Unread_Counts\<close>: \<open>matrix-sdk-base/src/read_receipts.rs\<close>. The counts of a room are those
    of the events after the active receipt.
  \<^item> \<open>Sdk_Prelude\<close>, \<open>Ordered_Map\<close>: the shared types and lemmas.

  \<^bold>\<open>Fuel and bounds.\<close> The walks over heap cells have the number of cells allocated so far as fuel,
  pushing items has two more than their number; the refinement proves that it is never exhausted on reachable states. \<open>spin_lock\<close> is proved
  to return within thirty attempts, since the backoff doubles until it reaches its maximum. Renew tasks
  of the lock are taken to run at most 224 milliseconds late. The list modes are proved to finish within the
  number of batches, except for a batch of size zero, which is proved never to finish. Sequence numbers
  of key queries wrap around; what depends on their order assumes fewer than \<open>2 ^ 63\<close> in flight. The
  exchange of two devices is taken to happen within a minute, the timeout of the protocol.

  \<^bold>\<open>Not modelled.\<close> The networking and the authentication of the client, the processing of sync responses
  into room states and the state stores, the Olm and Megolm sessions with key backup and key sharing, the
  requests and QR flows around a verification, the
  timeline and room list of the user interface crate, IndexedDB, and the language bindings. They are
  either input and output and calls into other libraries, or rest on the data model of Ruma and on
  vodozemac, which are not part of the repository: a model would consist of parameters. Locks and
  observable values are modelled only where their interleaving matters. Logging, tracing, formatting and
  test helpers are left out.
\<close>

end
